(* ===== verification/Codec.thy ===== *)
theory Codec
  imports Prelude
begin

text \<open>
  The fixed-width integer codecs of utils/codec-utils.cc.  A buffer is the list of bytes from
  the pointer on; a write updates it in place, index by index, exactly as the code assigns
  \<open>buf[i]\<close>.  The object representation of an integer (which the big-endian class copies) depends
  on the byte order of the host.
\<close>

subsection \<open>LittleEndianCodecUtils\<close>

definition WriteUInt16 :: "bytes \<Rightarrow> u16 \<Rightarrow> bytes" where
  "WriteUInt16 buf n =
    (let buf = buf[1 := ucast n]; n = drop_bit 8 n
     in buf[0 := ucast n])"

definition WriteUInt32 :: "bytes \<Rightarrow> u32 \<Rightarrow> bytes" where
  "WriteUInt32 buf n =
    (let buf = buf[3 := ucast n]; n = drop_bit 8 n;
         buf = buf[2 := ucast n]; n = drop_bit 8 n;
         buf = buf[1 := ucast n]; n = drop_bit 8 n
     in buf[0 := ucast n])"

definition WriteUInt64 :: "bytes \<Rightarrow> u64 \<Rightarrow> bytes" where
  "WriteUInt64 buf n =
    (let buf = buf[7 := ucast n]; n = drop_bit 8 n;
         buf = buf[6 := ucast n]; n = drop_bit 8 n;
         buf = buf[5 := ucast n]; n = drop_bit 8 n;
         buf = buf[4 := ucast n]; n = drop_bit 8 n;
         buf = buf[3 := ucast n]; n = drop_bit 8 n;
         buf = buf[2 := ucast n]; n = drop_bit 8 n;
         buf = buf[1 := ucast n]; n = drop_bit 8 n
     in buf[0 := ucast n])"

definition ReadUInt16 :: "bytes \<Rightarrow> u16" where
  "ReadUInt16 buf =
    (let n = ucast (buf ! 0); n = push_bit 8 n; n = n OR ucast (buf ! 1) in n)"

definition ReadUInt32 :: "bytes \<Rightarrow> u32" where
  "ReadUInt32 buf =
    (let n = ucast (buf ! 0);
         n = push_bit 8 n; n = n OR ucast (buf ! 1);
         n = push_bit 8 n; n = n OR ucast (buf ! 2);
         n = push_bit 8 n; n = n OR ucast (buf ! 3)
     in n)"

definition ReadUInt64 :: "bytes \<Rightarrow> u64" where
  "ReadUInt64 buf =
    (let n = ucast (buf ! 0);
         n = push_bit 8 n; n = n OR ucast (buf ! 1);
         n = push_bit 8 n; n = n OR ucast (buf ! 2);
         n = push_bit 8 n; n = n OR ucast (buf ! 3);
         n = push_bit 8 n; n = n OR ucast (buf ! 4);
         n = push_bit 8 n; n = n OR ucast (buf ! 5);
         n = push_bit 8 n; n = n OR ucast (buf ! 6);
         n = push_bit 8 n; n = n OR ucast (buf ! 7)
     in n)"

subsection \<open>BigEndianCodecUtils\<close>

datatype byte_order = LITTLE_ENDIAN | BIG_ENDIAN

text \<open>The object representation of an integer of \<open>k\<close> bytes on a host of the given byte order.\<close>

definition object_bytes :: "byte_order \<Rightarrow> nat \<Rightarrow> 'a::len word \<Rightarrow> bytes" where
  "object_bytes bo k n =
    (let lsb_first = map (\<lambda>i. ucast (drop_bit (8 * i) n)) [0..<k]
     in case bo of LITTLE_ENDIAN \<Rightarrow> lsb_first | BIG_ENDIAN \<Rightarrow> rev lsb_first)"

definition object_word :: "byte_order \<Rightarrow> nat \<Rightarrow> bytes \<Rightarrow> 'a::len word" where
  "object_word bo k buf =
    (let msb_first = (case bo of LITTLE_ENDIAN \<Rightarrow> rev (take k buf) | BIG_ENDIAN \<Rightarrow> take k buf)
     in foldl (\<lambda>n b. push_bit 8 n OR ucast b) 0 msb_first)"

text \<open>The macro NTOC copies byte \<open>i\<close> of the object representation to \<open>buf[i]\<close>.\<close>

fun NTOC :: "bytes \<Rightarrow> bytes \<Rightarrow> nat list \<Rightarrow> bytes" where
  "NTOC buf obj [] = buf"
| "NTOC buf obj (i # is) = NTOC (buf[i := obj ! i]) obj is"

definition BE_WriteUInt16 :: "byte_order \<Rightarrow> bytes \<Rightarrow> u16 \<Rightarrow> bytes" where
  "BE_WriteUInt16 bo buf n = NTOC buf (object_bytes bo 2 n) [0, 1]"

definition BE_WriteUInt32 :: "byte_order \<Rightarrow> bytes \<Rightarrow> u32 \<Rightarrow> bytes" where
  "BE_WriteUInt32 bo buf n = NTOC buf (object_bytes bo 4 n) [0, 1, 2, 3]"

definition BE_WriteUInt64 :: "byte_order \<Rightarrow> bytes \<Rightarrow> u64 \<Rightarrow> bytes" where
  "BE_WriteUInt64 bo buf n = NTOC buf (object_bytes bo 8 n) [0, 1, 2, 3, 4, 5, 6, 7]"

definition BE_ReadUInt16 :: "byte_order \<Rightarrow> bytes \<Rightarrow> u16" where
  "BE_ReadUInt16 bo buf = object_word bo 2 buf"

definition BE_ReadUInt32 :: "byte_order \<Rightarrow> bytes \<Rightarrow> u32" where
  "BE_ReadUInt32 bo buf = object_word bo 4 buf"

definition BE_ReadUInt64 :: "byte_order \<Rightarrow> bytes \<Rightarrow> u64" where
  "BE_ReadUInt64 bo buf = object_word bo 8 buf"

text \<open>The macro \<open>ByteOrderUtils\<close> selects the class by the byte order of the host.\<close>

definition ByteOrder_WriteUInt32 :: "byte_order \<Rightarrow> bytes \<Rightarrow> u32 \<Rightarrow> bytes" where
  "ByteOrder_WriteUInt32 bo =
    (case bo of BIG_ENDIAN \<Rightarrow> BE_WriteUInt32 bo | LITTLE_ENDIAN \<Rightarrow> WriteUInt32)"

definition ByteOrder_ReadUInt32 :: "byte_order \<Rightarrow> bytes \<Rightarrow> u32" where
  "ByteOrder_ReadUInt32 bo =
    (case bo of BIG_ENDIAN \<Rightarrow> BE_ReadUInt32 bo | LITTLE_ENDIAN \<Rightarrow> ReadUInt32)"

definition ByteOrder_WriteUInt64 :: "byte_order \<Rightarrow> bytes \<Rightarrow> u64 \<Rightarrow> bytes" where
  "ByteOrder_WriteUInt64 bo =
    (case bo of BIG_ENDIAN \<Rightarrow> BE_WriteUInt64 bo | LITTLE_ENDIAN \<Rightarrow> WriteUInt64)"

definition ByteOrder_ReadUInt64 :: "byte_order \<Rightarrow> bytes \<Rightarrow> u64" where
  "ByteOrder_ReadUInt64 bo =
    (case bo of BIG_ENDIAN \<Rightarrow> BE_ReadUInt64 bo | LITTLE_ENDIAN \<Rightarrow> ReadUInt64)"

definition ByteOrder_WriteUInt16 :: "byte_order \<Rightarrow> bytes \<Rightarrow> u16 \<Rightarrow> bytes" where
  "ByteOrder_WriteUInt16 bo =
    (case bo of BIG_ENDIAN \<Rightarrow> BE_WriteUInt16 bo | LITTLE_ENDIAN \<Rightarrow> WriteUInt16)"

definition ByteOrder_ReadUInt16 :: "byte_order \<Rightarrow> bytes \<Rightarrow> u16" where
  "ByteOrder_ReadUInt16 bo =
    (case bo of BIG_ENDIAN \<Rightarrow> BE_ReadUInt16 bo | LITTLE_ENDIAN \<Rightarrow> ReadUInt16)"

subsection \<open>The byte sequences the writes produce\<close>

definition enc16 :: "u16 \<Rightarrow> bytes" where
  "enc16 n = [ucast (drop_bit 8 n), ucast n]"

definition enc32 :: "u32 \<Rightarrow> bytes" where
  "enc32 n = [ucast (drop_bit 24 n), ucast (drop_bit 16 n), ucast (drop_bit 8 n), ucast n]"

definition enc64 :: "u64 \<Rightarrow> bytes" where
  "enc64 n = [ucast (drop_bit 56 n), ucast (drop_bit 48 n), ucast (drop_bit 40 n),
              ucast (drop_bit 32 n), ucast (drop_bit 24 n), ucast (drop_bit 16 n),
              ucast (drop_bit 8 n), ucast n]"

lemma length_enc16 [simp]: "length (enc16 n) = 2" by (simp add: enc16_def)
lemma length_enc32 [simp]: "length (enc32 n) = 4" by (simp add: enc32_def)
lemma length_enc64 [simp]: "length (enc64 n) = 8" by (simp add: enc64_def)

subsection \<open>A fixed-width codec as an interface\<close>

text \<open>
  What the clients (log segments, checkpoint files, message headers) rely on: a write replaces
  exactly the first \<open>width\<close> bytes by the encoding, and a read inverts it whatever follows.
\<close>

locale fixed_codec =
  fixes width :: nat
    and enc :: "'w \<Rightarrow> bytes"
    and wr :: "bytes \<Rightarrow> 'w \<Rightarrow> bytes"
    and rd :: "bytes \<Rightarrow> 'w"
  assumes enc_width: "length (enc n) = width"
    and write_is_enc: "width \<le> length buf \<Longrightarrow> wr buf n = enc n @ drop width buf"
    and read_of_enc: "rd (enc n @ xs) = n"
begin

lemma read_write: "width \<le> length buf \<Longrightarrow> rd (wr buf n) = n"
  by (simp add: write_is_enc read_of_enc)

lemma length_write: "width \<le> length buf \<Longrightarrow> length (wr buf n) = length buf"
  by (simp add: write_is_enc enc_width)

lemma write_keeps_rest: "width \<le> length buf \<Longrightarrow> drop width (wr buf n) = drop width buf"
  by (simp add: write_is_enc enc_width)

lemma enc_inject: "enc m = enc n \<longleftrightarrow> m = n"
  by (metis read_of_enc)

lemma read_enc_nil: "rd (enc n) = n"
  by (metis read_of_enc append_Nil2)

lemma read_after_prefix: "k = length xs \<Longrightarrow> rd (drop k (xs @ enc n @ ys)) = n"
  by (simp add: read_of_enc)

end

subsection \<open>The codecs implement it on every host\<close>

lemma WriteUInt16_enc: "2 \<le> length buf \<Longrightarrow> WriteUInt16 buf n = enc16 n @ drop 2 buf"
  by (auto simp: WriteUInt16_def enc16_def Let_def numeral_eq_Suc Suc_le_length_iff)

lemma WriteUInt32_enc: "4 \<le> length buf \<Longrightarrow> WriteUInt32 buf n = enc32 n @ drop 4 buf"
  by (auto simp: WriteUInt32_def enc32_def Let_def numeral_eq_Suc Suc_le_length_iff
      drop_bit_drop_bit)

lemma WriteUInt64_enc: "8 \<le> length buf \<Longrightarrow> WriteUInt64 buf n = enc64 n @ drop 8 buf"
  by (auto simp: WriteUInt64_def enc64_def Let_def numeral_eq_Suc Suc_le_length_iff
      drop_bit_drop_bit)

lemma ucast_ucast_top:
  "drop_bit k w = ucast (ucast (drop_bit k w) :: byte)" if "k + 8 = LENGTH('a)" for w :: "'a::len word"
  by (rule bit_word_eqI) (use that in \<open>auto simp: bit_simps dest: bit_imp_le_length\<close>)

lemma ReadUInt16_enc: "ReadUInt16 (enc16 n @ xs) = n"
proof -
  have "ucast (ucast (drop_bit 8 n) :: byte) = drop_bit 8 n"
    by (rule ucast_ucast_top [symmetric]) simp
  then show ?thesis
    by (simp add: ReadUInt16_def enc16_def Let_def codec_simps)
qed

lemma ReadUInt32_enc: "ReadUInt32 (enc32 n @ xs) = n"
proof -
  have top: "ucast (ucast (drop_bit 24 n) :: byte) = drop_bit 24 n"
    by (rule ucast_ucast_top [symmetric]) simp
  have step: "push_bit 8 (drop_bit (k + 8) n) OR ucast (ucast (drop_bit k n) :: byte) = drop_bit k n" for k
    using push_drop_or_ucast [of "drop_bit k n"] by (simp add: drop_bit_drop_bit add.commute)
  show ?thesis
    using step [of 16] step [of 8] step [of 0]
    by (simp add: ReadUInt32_def enc32_def Let_def top del: push_bit_or push_bit_push_bit)
qed

lemma ReadUInt64_enc: "ReadUInt64 (enc64 n @ xs) = n"
proof -
  have top: "ucast (ucast (drop_bit 56 n) :: byte) = drop_bit 56 n"
    by (rule ucast_ucast_top [symmetric]) simp
  have step: "push_bit 8 (drop_bit (k + 8) n) OR ucast (ucast (drop_bit k n) :: byte) = drop_bit k n" for k
    using push_drop_or_ucast [of "drop_bit k n"] by (simp add: drop_bit_drop_bit add.commute)
  show ?thesis
    using step [of 48] step [of 40] step [of 32] step [of 24] step [of 16] step [of 8] step [of 0]
    by (simp add: ReadUInt64_def enc64_def Let_def top del: push_bit_or push_bit_push_bit)
qed

lemma object_bytes_big:
  "object_bytes BIG_ENDIAN 2 (n2 :: u16) = enc16 n2"
  "object_bytes BIG_ENDIAN 4 (n4 :: u32) = enc32 n4"
  "object_bytes BIG_ENDIAN 8 (n8 :: u64) = enc64 n8"
  by (simp_all add: object_bytes_def enc16_def enc32_def enc64_def upt_rec)

lemma BE_WriteUInt16_enc: "2 \<le> length buf \<Longrightarrow> BE_WriteUInt16 BIG_ENDIAN buf n = enc16 n @ drop 2 buf"
  unfolding BE_WriteUInt16_def object_bytes_big enc16_def
  by (auto simp: numeral_eq_Suc Suc_le_length_iff)

lemma BE_WriteUInt32_enc: "4 \<le> length buf \<Longrightarrow> BE_WriteUInt32 BIG_ENDIAN buf n = enc32 n @ drop 4 buf"
  unfolding BE_WriteUInt32_def object_bytes_big enc32_def
  by (auto simp: numeral_eq_Suc Suc_le_length_iff)

lemma BE_WriteUInt64_enc: "8 \<le> length buf \<Longrightarrow> BE_WriteUInt64 BIG_ENDIAN buf n = enc64 n @ drop 8 buf"
  unfolding BE_WriteUInt64_def object_bytes_big enc64_def
  by (auto simp: numeral_eq_Suc Suc_le_length_iff)

lemma BE_Read_is_Read:
  "2 \<le> length buf \<Longrightarrow> BE_ReadUInt16 BIG_ENDIAN buf = ReadUInt16 buf"
  "4 \<le> length buf \<Longrightarrow> BE_ReadUInt32 BIG_ENDIAN buf = ReadUInt32 buf"
  "8 \<le> length buf \<Longrightarrow> BE_ReadUInt64 BIG_ENDIAN buf = ReadUInt64 buf"
  by (auto simp: BE_ReadUInt16_def BE_ReadUInt32_def BE_ReadUInt64_def object_word_def
      ReadUInt16_def ReadUInt32_def ReadUInt64_def Let_def numeral_eq_Suc Suc_le_length_iff)

lemmas write_enc = WriteUInt16_enc WriteUInt32_enc WriteUInt64_enc
  BE_WriteUInt16_enc BE_WriteUInt32_enc BE_WriteUInt64_enc

lemmas read_enc [simp] = ReadUInt16_enc ReadUInt32_enc ReadUInt64_enc

interpretation c16: fixed_codec 2 enc16 "ByteOrder_WriteUInt16 bo" "ByteOrder_ReadUInt16 bo" for bo
  by unfold_locales
    (cases bo; simp add: write_enc BE_Read_is_Read ByteOrder_WriteUInt16_def ByteOrder_ReadUInt16_def)+

interpretation c32: fixed_codec 4 enc32 "ByteOrder_WriteUInt32 bo" "ByteOrder_ReadUInt32 bo" for bo
  by unfold_locales
    (cases bo; simp add: write_enc BE_Read_is_Read ByteOrder_WriteUInt32_def ByteOrder_ReadUInt32_def)+

interpretation c64: fixed_codec 8 enc64 "ByteOrder_WriteUInt64 bo" "ByteOrder_ReadUInt64 bo" for bo
  by unfold_locales
    (cases bo; simp add: write_enc BE_Read_is_Read ByteOrder_WriteUInt64_def ByteOrder_ReadUInt64_def)+

interpretation le32: fixed_codec 4 enc32 WriteUInt32 ReadUInt32
  by unfold_locales (simp_all add: write_enc)

interpretation le64: fixed_codec 8 enc64 WriteUInt64 ReadUInt64
  by unfold_locales (simp_all add: write_enc)

lemma ReadUInt32_cong: "take 4 xs = take 4 ys \<Longrightarrow> 4 \<le> length xs \<Longrightarrow> 4 \<le> length ys \<Longrightarrow>
    ReadUInt32 xs = ReadUInt32 ys"
  by (auto simp: ReadUInt32_def Let_def numeral_eq_Suc Suc_le_length_iff)

lemma ReadUInt32_append: "4 \<le> length a \<Longrightarrow> ReadUInt32 (a @ b) = ReadUInt32 a"
  by (rule ReadUInt32_cong) auto

lemma ReadUInt64_append: "8 \<le> length a \<Longrightarrow> ReadUInt64 (a @ b) = ReadUInt64 a"
  by (cases "a = []") (simp_all add: ReadUInt64_def Let_def nth_append)

text \<open>
  C24: an integer written by any host (little- or big-endian, each using the codec class its byte
  order selects) into a large enough buffer is read back unchanged by any host, and the bytes after
  it are untouched: the files and messages do not depend on the host's byte order.
\<close>

theorem codec_cross_host:
  assumes "8 \<le> length buf"
  shows "ByteOrder_ReadUInt16 bo' (ByteOrder_WriteUInt16 bo buf n16) = n16 \<and>
      ByteOrder_ReadUInt32 bo' (ByteOrder_WriteUInt32 bo buf n32) = n32 \<and>
      ByteOrder_ReadUInt64 bo' (ByteOrder_WriteUInt64 bo buf n64) = n64 \<and>
      drop 4 (ByteOrder_WriteUInt32 bo buf n32) = drop 4 buf \<and>
      drop 8 (ByteOrder_WriteUInt64 bo buf n64) = drop 8 buf"
  using assms
  by (simp_all add: c16.write_is_enc c32.write_is_enc c64.write_is_enc
      c16.read_of_enc c32.read_of_enc c64.read_of_enc)

theorem codec_cross_host_witness:
  "ByteOrder_ReadUInt16 BIG_ENDIAN (ByteOrder_WriteUInt16 LITTLE_ENDIAN (replicate 8 0) 513) = 513 \<and>
      ByteOrder_ReadUInt32 BIG_ENDIAN (ByteOrder_WriteUInt32 LITTLE_ENDIAN (replicate 8 0) 67305985) = 67305985 \<and>
      ByteOrder_ReadUInt64 BIG_ENDIAN (ByteOrder_WriteUInt64 LITTLE_ENDIAN (replicate 8 0) 578437695752307201) = 578437695752307201 \<and>
      drop 4 (ByteOrder_WriteUInt32 LITTLE_ENDIAN (replicate 8 0) 67305985) = drop 4 (replicate 8 0) \<and>
      drop 8 (ByteOrder_WriteUInt64 LITTLE_ENDIAN (replicate 8 0) 578437695752307201) = drop 8 (replicate 8 0)"
  by (rule codec_cross_host) simp

end
