(* ===== verification/FileSys.thy ===== *)
theory FileSys
  imports Prelude
begin

text \<open>
  The operating system as the program sees it: regular files and directories named by path, the
  errno variable, the advisory locks, and a schedule that decides for every system call whether it
  succeeds, fails with an errno, or (for reads and writes) transfers only part of the data.  A crash
  is a schedule in which every call from some point on fails: the files then keep the content they
  had at that point.  On top of it the routines of utils/io-utils.cc and utils/file-utils.cc.
\<close>

subsection \<open>The world\<close>

datatype errno = ENONE | ENOENT | EEXIST | ENOTDIR | EISDIR | EIO | EBADF | EINVAL | ERANGE | EAGAIN | EINTR

datatype sysev = SysOk | SysFail errno | SysShort nat

record world =
  w_files :: "(path \<times> bytes) list"
  w_dirs :: "path list"
  w_sched :: "sysev list"
  w_errno :: errno
  s_LockingFiles :: "path list"
  w_flocks :: "path list"

text \<open>
  An open file description: the file and the file offset.  The descriptor \<open>-1\<close> is None.  (The
  program opens each file under one name and never writes to a file it has unlinked or renamed.)
\<close>

type_synonym fd = "(path \<times> nat) option"

datatype file_stat = S_ISDIR | S_ISREG nat

definition content :: "world \<Rightarrow> path \<rightharpoonup> bytes" where
  "content w = map_of (w_files w)"

definition is_dir :: "world \<Rightarrow> path \<Rightarrow> bool" where
  "is_dir w p = (p \<noteq> [] \<and> (p = ''/'' \<or> p \<in> set (w_dirs w)))"

definition parent :: "path \<Rightarrow> path" where
  "parent p = butlast (rev (dropWhile (\<lambda>c. c \<noteq> CHR ''/'') (rev p)))"

definition set_file :: "path \<Rightarrow> bytes \<Rightarrow> world \<Rightarrow> world" where
  "set_file p c w = w\<lparr>w_files := AList.update p c (w_files w)\<rparr>"

definition del_file :: "path \<Rightarrow> world \<Rightarrow> world" where
  "del_file p w = w\<lparr>w_files := AList.delete p (w_files w)\<rparr>"

subsection \<open>System calls\<close>

definition syscall :: "'r \<Rightarrow> (sysev \<Rightarrow> world \<Rightarrow> 'r \<times> world) \<Rightarrow> world \<Rightarrow> 'r \<times> world" where
  "syscall failure body w =
    (case w_sched w of
       [] \<Rightarrow> body SysOk w
     | SysFail e # es \<Rightarrow> (failure, w\<lparr>w_sched := es, w_errno := e\<rparr>)
     | ev # es \<Rightarrow> body ev (w\<lparr>w_sched := es\<rparr>))"

definition set_errno :: "errno \<Rightarrow> world \<Rightarrow> world" where
  "set_errno e w = w\<lparr>w_errno := e\<rparr>"

definition sys_access :: "path \<Rightarrow> world \<Rightarrow> bool \<times> world" where
  "sys_access p = syscall False (\<lambda>_ w.
    if is_dir w p \<or> content w p \<noteq> None then (True, w) else (False, set_errno ENOENT w))"

definition sys_stat :: "path \<Rightarrow> world \<Rightarrow> file_stat option \<times> world" where
  "sys_stat p = syscall None (\<lambda>_ w.
    if is_dir w p then (Some S_ISDIR, w)
    else case content w p of Some c \<Rightarrow> (Some (S_ISREG (length c)), w) | None \<Rightarrow> (None, set_errno ENOENT w))"

definition sys_mkdir :: "path \<Rightarrow> world \<Rightarrow> bool \<times> world" where
  "sys_mkdir p = syscall False (\<lambda>_ w.
    if is_dir w p \<or> content w p \<noteq> None then (False, set_errno EEXIST w)
    else if p = [] \<or> \<not> (parent p = [] \<or> is_dir w (parent p)) then (False, set_errno ENOENT w)
    else (True, w\<lparr>w_dirs := p # w_dirs w\<rparr>))"

definition sys_open :: "path \<Rightarrow> bool \<Rightarrow> bool \<Rightarrow> world \<Rightarrow> fd \<times> world" where
  "sys_open p creat trunc = syscall None (\<lambda>_ w.
    if is_dir w p then (None, set_errno EISDIR w)
    else case content w p of
        Some c \<Rightarrow> (Some (p, 0), if trunc then set_file p [] w else w)
      | None \<Rightarrow> if creat \<and> p \<noteq> [] \<and> (parent p = [] \<or> is_dir w (parent p))
                then (Some (p, 0), set_file p [] w)
                else (None, set_errno ENOENT w))"

definition sys_unlink :: "path \<Rightarrow> world \<Rightarrow> bool \<times> world" where
  "sys_unlink p = syscall False (\<lambda>_ w.
    if is_dir w p then (False, set_errno EISDIR w)
    else case content w p of
        Some c \<Rightarrow> (True, del_file p w)
      | None \<Rightarrow> (False, set_errno ENOENT w))"

definition sys_rename :: "path \<Rightarrow> path \<Rightarrow> world \<Rightarrow> bool \<times> world" where
  "sys_rename p q = syscall False (\<lambda>_ w.
    case content w p of
      None \<Rightarrow> (False, set_errno ENOENT w)
    | Some c \<Rightarrow> if is_dir w q then (False, set_errno EISDIR w)
               else if q = [] \<or> \<not> (parent q = [] \<or> is_dir w (parent q)) then (False, set_errno ENOENT w)
               else (True, if p = q then w else set_file q c (del_file p w)))"

definition overwrite :: "nat \<Rightarrow> bytes \<Rightarrow> bytes \<Rightarrow> bytes" where
  "overwrite off bs c =
    take off c @ replicate (off - length c) 0 @ bs @ drop (off + length bs) c"

definition transfer :: "sysev \<Rightarrow> nat \<Rightarrow> nat" where
  "transfer ev n = (case ev of SysShort k \<Rightarrow> min n (max 1 k) | _ \<Rightarrow> n)"

definition sys_write :: "fd \<Rightarrow> bytes \<Rightarrow> world \<Rightarrow> (nat option \<times> fd) \<times> world" where
  "sys_write fd bs = syscall (None, fd) (\<lambda>ev w.
    case fd of
      None \<Rightarrow> ((None, fd), set_errno EBADF w)
    | Some (p, off) \<Rightarrow>
        let n = transfer ev (length bs)
        in ((Some n, Some (p, off + n)),
            case content w p of None \<Rightarrow> w | Some c \<Rightarrow> set_file p (overwrite off (take n bs) c) w))"

definition sys_read :: "fd \<Rightarrow> nat \<Rightarrow> world \<Rightarrow> (bytes option \<times> fd) \<times> world" where
  "sys_read fd sz = syscall (None, fd) (\<lambda>ev w.
    case fd of
      None \<Rightarrow> ((None, fd), set_errno EBADF w)
    | Some (p, off) \<Rightarrow>
        let left = drop off (case content w p of None \<Rightarrow> [] | Some c \<Rightarrow> c);
            bs = take (transfer ev (min sz (length left))) left
        in ((Some bs, Some (p, off + length bs)), w))"

definition sys_pread :: "fd \<Rightarrow> nat \<Rightarrow> nat \<Rightarrow> world \<Rightarrow> bytes option \<times> world" where
  "sys_pread fd sz off = syscall None (\<lambda>ev w.
    case fd of
      None \<Rightarrow> (None, set_errno EBADF w)
    | Some (p, _) \<Rightarrow>
        let left = drop off (case content w p of None \<Rightarrow> [] | Some c \<Rightarrow> c)
        in (Some (take (transfer ev (min sz (length left))) left), w))"

definition sys_lseek :: "fd \<Rightarrow> int \<Rightarrow> world \<Rightarrow> (bool \<times> fd) \<times> world" where
  "sys_lseek fd pos = syscall (False, fd) (\<lambda>_ w.
    case fd of
      None \<Rightarrow> ((False, fd), set_errno EBADF w)
    | Some (p, off) \<Rightarrow> if pos < 0 then ((False, fd), set_errno EINVAL w)
                       else ((True, Some (p, nat pos)), w))"

definition sys_lseek_cur :: "fd \<Rightarrow> nat \<Rightarrow> world \<Rightarrow> (bool \<times> fd) \<times> world" where
  "sys_lseek_cur fd n = syscall (False, fd) (\<lambda>_ w.
    case fd of
      None \<Rightarrow> ((False, fd), set_errno EBADF w)
    | Some (p, off) \<Rightarrow> ((True, Some (p, off + n)), w))"

definition sys_fstat_size :: "fd \<Rightarrow> world \<Rightarrow> nat option \<times> world" where
  "sys_fstat_size fd = syscall None (\<lambda>_ w.
    case fd of
      None \<Rightarrow> (None, set_errno EBADF w)
    | Some (p, _) \<Rightarrow> (Some (length (case content w p of None \<Rightarrow> [] | Some c \<Rightarrow> c)), w))"

definition sys_close :: "fd \<Rightarrow> world \<Rightarrow> bool \<times> world" where
  "sys_close fd = syscall False (\<lambda>_ w.
    case fd of None \<Rightarrow> (False, set_errno EBADF w) | Some _ \<Rightarrow> (True, w))"

definition sys_fdatasync :: "fd \<Rightarrow> world \<Rightarrow> bool \<times> world" where
  "sys_fdatasync fd = syscall False (\<lambda>_ w.
    case fd of None \<Rightarrow> (False, set_errno EBADF w) | Some _ \<Rightarrow> (True, w))"

text \<open>The entries of a directory, in the order the file system returns them.\<close>

definition sys_readdir :: "path \<Rightarrow> world \<Rightarrow> path list option \<times> world" where
  "sys_readdir d = syscall None (\<lambda>_ w.
    if is_dir w d
    then (Some (filter (\<lambda>p. parent p = d) (map fst (w_files w) @ w_dirs w)), w)
    else (None, set_errno (if content w d \<noteq> None then ENOTDIR else ENOENT) w))"

text \<open>
  fcntl(F_SETLK), fcntl(F_SETLKW) and fcntl(F_GETLK): \<open>w_flocks\<close> are the files other processes
  have locked; a blocking request returns when the holder has released the lock.
\<close>

definition sys_setlk :: "fd \<Rightarrow> world \<Rightarrow> bool \<times> world" where
  "sys_setlk fd = syscall False (\<lambda>_ w.
    case fd of
      None \<Rightarrow> (False, set_errno EBADF w)
    | Some (p, _) \<Rightarrow> if p \<in> set (w_flocks w) then (False, set_errno EAGAIN w) else (True, w))"

definition sys_setlkw :: "fd \<Rightarrow> world \<Rightarrow> bool \<times> world" where
  "sys_setlkw fd = syscall False (\<lambda>_ w.
    case fd of
      None \<Rightarrow> (False, set_errno EBADF w)
    | Some (p, _) \<Rightarrow> (True, w\<lparr>w_flocks := removeAll p (w_flocks w)\<rparr>))"

definition sys_getlk :: "fd \<Rightarrow> world \<Rightarrow> bool option \<times> world" where
  "sys_getlk fd = syscall None (\<lambda>_ w.
    case fd of
      None \<Rightarrow> (None, set_errno EBADF w)
    | Some (p, _) \<Rightarrow> (Some (p \<in> set (w_flocks w)), w))"

subsection \<open>Partial transfers make progress\<close>

lemma transfer_pos: "0 < n \<Longrightarrow> 0 < transfer ev n"
  by (cases ev) (auto simp: transfer_def)

lemma transfer_le: "transfer ev n \<le> n"
  by (cases ev) (auto simp: transfer_def)

lemma transfer_min_le: "transfer ev (min a b) \<le> a"
  using transfer_le [of ev "min a b"] by simp

lemma sys_write_progress:
  assumes "sys_write fd bs w = ((Some n, fd'), w')" and "bs \<noteq> []"
  shows "0 < n"
  using assms
  by (auto simp: sys_write_def syscall_def Let_def intro!: transfer_pos
      split: list.splits sysev.splits option.splits)

lemma sys_read_bounded:
  assumes "sys_read fd sz w = ((Some bs, fd'), w')"
  shows "length bs \<le> sz"
  using assms
  by (auto simp: sys_read_def syscall_def Let_def min.coboundedI2 transfer_min_le
      split: list.splits sysev.splits option.splits)

lemma sys_pread_bounded:
  assumes "sys_pread fd sz off w = (Some bs, w')"
  shows "length bs \<le> sz"
  using assms
  by (auto simp: sys_pread_def syscall_def Let_def min.coboundedI2 transfer_min_le
      split: list.splits sysev.splits option.splits)

subsection \<open>IOUtils\<close>

function WriteFully_loop :: "fd \<Rightarrow> bytes \<Rightarrow> world \<Rightarrow> (bool \<times> fd) \<times> world" where
  "WriteFully_loop fd bs w =
    (if bs = [] then ((True, fd), w)
     else case sys_write fd bs w of
         ((None, fd'), w') \<Rightarrow> ((False, fd'), w')
       | ((Some n, fd'), w') \<Rightarrow> WriteFully_loop fd' (drop n bs) w')"
  by pat_completeness auto
termination
  by (relation "measure (\<lambda>(fd, bs, w). length bs)") (auto dest!: sys_write_progress [OF sym])

text \<open>The result is the number of bytes written; None is -1.\<close>

definition WriteFully :: "fd \<Rightarrow> bytes \<Rightarrow> world \<Rightarrow> (nat option \<times> fd) \<times> world" where
  "WriteFully fd buf w =
    (if fd = None then ((None, fd), w)
     else if length buf = 0 then ((Some 0, fd), w)
     else case WriteFully_loop fd buf w of
         ((True, fd'), w') \<Rightarrow> ((Some (length buf), fd'), w')
       | ((False, fd'), w') \<Rightarrow> ((None, fd'), w'))"

text \<open>
  The read loops of ReadFully and ReadFully_V4: \<open>acc\<close> is what has been read so far into the zeroed
  buffer; the loop ends when \<open>left\<close> is 0, on end of file, or on an error.
\<close>

function ReadFully_loop :: "fd \<Rightarrow> nat \<Rightarrow> bytes \<Rightarrow> world \<Rightarrow> (bytes option \<times> fd) \<times> world" where
  "ReadFully_loop fd left acc w =
    (if left = 0 then ((Some acc, fd), w)
     else case sys_read fd left w of
         ((None, fd'), w') \<Rightarrow> ((None, fd'), w')
       | ((Some bs, fd'), w') \<Rightarrow>
           if bs = [] then ((Some acc, fd'), w')
           else ReadFully_loop fd' (left - length bs) (acc @ bs) w')"
  by pat_completeness auto
termination
  by (relation "measure (\<lambda>(fd, left, acc, w). left)") auto

text \<open>
  The outcome of a read: None is -1; otherwise the bytes read (their number is the return value).
  The rest of the caller's buffer is zero (\<open>bzero\<close>): \<open>zero_filled\<close>.
\<close>

definition zero_filled :: "nat \<Rightarrow> bytes \<Rightarrow> bytes" where
  "zero_filled sz bs = bs @ replicate (sz - length bs) 0"

definition ReadFully :: "fd \<Rightarrow> nat \<Rightarrow> world \<Rightarrow> (bytes option \<times> fd) \<times> world" where
  "ReadFully fd sz w =
    (if fd = None \<or> sz = 0 then ((Some [], fd), w) else ReadFully_loop fd sz [] w)"

definition ReadFully_V4 :: "fd \<Rightarrow> nat \<Rightarrow> world \<Rightarrow> (bytes option \<times> fd) \<times> world" where
  "ReadFully_V4 fd sz w =
    (if fd = None \<or> sz = 0 then ((Some [], fd), w) else ReadFully_loop fd sz [] w)"

text \<open>The positioned variants: they read from offset 0 and do not move the file offset.\<close>

function pread_loop :: "fd \<Rightarrow> nat \<Rightarrow> bytes \<Rightarrow> world \<Rightarrow> bytes option \<times> world" where
  "pread_loop fd tot acc w =
    (case sys_pread fd (tot - length acc) (length acc) w of
         (None, w') \<Rightarrow> (None, w')
       | (Some bs, w') \<Rightarrow>
           if bs = [] then (Some acc, w') else pread_loop fd tot (acc @ bs) w')"
  by pat_completeness auto
termination
  by (relation "measure (\<lambda>(fd, tot, acc, w). tot - length acc)")
    (auto dest!: sys_pread_bounded [OF sym] simp: neq_Nil_conv)

definition ReadFully_V2 :: "fd \<Rightarrow> nat \<Rightarrow> world \<Rightarrow> bytes option \<times> world" where
  "ReadFully_V2 fd sz w =
    (if fd = None \<or> sz = 0 then (Some [], w) else pread_loop fd sz [] w)"

definition ReadFully_V3 :: "fd \<Rightarrow> nat \<Rightarrow> world \<Rightarrow> bytes option \<times> world" where
  "ReadFully_V3 fd sz w =
    (if fd = None \<or> sz = 0 then (Some [], w) else pread_loop fd sz [] w)"

declare WriteFully_loop.simps [simp del] ReadFully_loop.simps [simp del] pread_loop.simps [simp del]

subsection \<open>FileUtils\<close>

definition Exist :: "path \<Rightarrow> world \<Rightarrow> bool \<times> world" where
  "Exist p w = sys_access p w"

definition IsDir :: "path \<Rightarrow> world \<Rightarrow> bool \<times> world" where
  "IsDir p w = (let (st, w) = sys_stat p w in (st = Some S_ISDIR, w))"

definition IsFile :: "path \<Rightarrow> world \<Rightarrow> bool \<times> world" where
  "IsFile p w = (let (st, w) = sys_stat p w in (\<exists>n. st = Some (S_ISREG n), w))"

definition Open :: "path \<Rightarrow> bool \<Rightarrow> bool \<Rightarrow> world \<Rightarrow> fd \<times> world" where
  "Open p creat trunc w = sys_open p creat trunc w"

text \<open>CreateDir: True is 0, False is -1.\<close>

definition CreateDir :: "path \<Rightarrow> world \<Rightarrow> bool \<times> world" where
  "CreateDir dir w =
    (case sys_stat dir w of
       (Some st, w) \<Rightarrow> (st = S_ISDIR, w)
     | (None, w) \<Rightarrow>
         (case sys_mkdir dir w of
            (True, w) \<Rightarrow> (True, w)
          | (False, w) \<Rightarrow> (w_errno w = EEXIST, w)))"

fun CreateDir_all :: "path list \<Rightarrow> world \<Rightarrow> bool \<times> world" where
  "CreateDir_all [] w = (True, w)"
| "CreateDir_all (d # ds) w =
    (case CreateDir d w of (False, w) \<Rightarrow> (False, w) | (True, w) \<Rightarrow> CreateDir_all ds w)"

definition PATH_MAX :: nat where
  "PATH_MAX = 4096"

text \<open>The C string in \<open>buffer\<close>: the path cut at PATH_MAX and at its first NUL.\<close>

definition path_buffer :: "path \<Rightarrow> path" where
  "path_buffer p = takeWhile (\<lambda>c. c \<noteq> CHR 0x00) (take PATH_MAX p)"

definition dir_prefixes :: "path \<Rightarrow> path list" where
  "dir_prefixes b = map (\<lambda>i. take i b) (filter (\<lambda>i. b ! i = CHR ''/'') [1..<length b])"

definition CreateDirPath :: "path \<Rightarrow> world \<Rightarrow> bool \<times> world" where
  "CreateDirPath p w =
    (let b = path_buffer p in
     case CreateDir_all (dir_prefixes b) w of
       (False, w) \<Rightarrow> (False, w)
     | (True, w) \<Rightarrow> CreateDir b w)"

text \<open>
  CollectFileChildren: the loop over the directory entries; every entry is stat'ed, regular files
  that pass the filter are collected, and the first error ends the loop with its errno.
\<close>

fun CollectFileChildren_loop ::
    "path list \<Rightarrow> (path \<Rightarrow> bool) \<Rightarrow> path list \<Rightarrow> world \<Rightarrow> (errno \<times> path list) \<times> world" where
  "CollectFileChildren_loop [] flt rs w = ((ENONE, rs), w)"
| "CollectFileChildren_loop (p # ps) flt rs w =
    (case sys_stat p w of
       (None, w) \<Rightarrow> (if w_errno w = ENONE then CollectFileChildren_loop ps flt rs w else ((w_errno w, rs), w))
     | (Some S_ISDIR, w) \<Rightarrow> CollectFileChildren_loop ps flt rs w
     | (Some (S_ISREG n), w) \<Rightarrow>
         CollectFileChildren_loop ps flt (if flt p then rs @ [p] else rs) w)"

definition CollectFileChildren :: "path \<Rightarrow> (path \<Rightarrow> bool) \<Rightarrow> world \<Rightarrow> (errno \<times> path list) \<times> world" where
  "CollectFileChildren d flt w =
    (case sys_readdir d w of
       (None, w) \<Rightarrow> ((w_errno w, []), w)
     | (Some ps, w) \<Rightarrow> CollectFileChildren_loop ps flt [] w)"

text \<open>GetFileSize by path and by descriptor: None is -1.\<close>

definition GetFileSize :: "path \<Rightarrow> world \<Rightarrow> nat option \<times> world" where
  "GetFileSize p w =
    (case sys_stat p w of
       (None, w) \<Rightarrow> (None, w)
     | (Some S_ISDIR, w) \<Rightarrow> (Some 0, w)
     | (Some (S_ISREG n), w) \<Rightarrow> (Some n, w))"

text \<open>
  The source refuses descriptors up to 0.  Descriptor 0 is standard input, which open never returns while
  it is in use; -1 is None.
\<close>

definition GetFileSize_fd :: "fd \<Rightarrow> world \<Rightarrow> nat option \<times> world" where
  "GetFileSize_fd fd w = (if fd = None then (None, w) else sys_fstat_size fd w)"

definition ReadAllString :: "path \<Rightarrow> world \<Rightarrow> string \<times> world" where
  "ReadAllString p = syscall [] (\<lambda>ev w.
    case content w p of
      None \<Rightarrow> ([], set_errno ENOENT w)
    | Some c \<Rightarrow> (string_of_bytes c, w))"

definition Unlink :: "path \<Rightarrow> world \<Rightarrow> bool \<times> world" where
  "Unlink p w =
    (case Exist p w of
       (False, w) \<Rightarrow> (True, w)
     | (True, w) \<Rightarrow> sys_unlink p w)"

subsection \<open>File locks\<close>

definition is_locking_file :: "path \<Rightarrow> world \<Rightarrow> bool" where
  "is_locking_file p w = (p \<in> set (s_LockingFiles w))"

definition insert_locking :: "path \<Rightarrow> world \<Rightarrow> world" where
  "insert_locking p w = w\<lparr>s_LockingFiles := List.insert p (s_LockingFiles w)\<rparr>"

definition remove_locking_file_if_exist :: "path \<Rightarrow> world \<Rightarrow> world" where
  "remove_locking_file_if_exist p w = w\<lparr>s_LockingFiles := removeAll p (s_LockingFiles w)\<rparr>"

text \<open>A \<open>File\<close> is its descriptor and its path; the descriptor None is -1.\<close>

type_synonym File = "fd \<times> path"

definition TryLockFile :: "File \<Rightarrow> world \<Rightarrow> errno \<times> world" where
  "TryLockFile f w =
    (if is_locking_file (snd f) w then (EEXIST, w)
     else case sys_setlk (fst f) w of
         (False, w) \<Rightarrow> (w_errno w, w)
       | (True, w) \<Rightarrow> (ENONE, insert_locking (snd f) w))"

definition TryLockPath :: "path \<Rightarrow> world \<Rightarrow> File \<times> world" where
  "TryLockPath p w =
    (if is_locking_file p w then ((None, []), w)
     else case sys_open p False False w of
         (None, w) \<Rightarrow> ((None, []), w)
       | (fd, w) \<Rightarrow>
           (case sys_setlk fd w of
              (False, w) \<Rightarrow> (let (_, w) = sys_close fd w in ((None, []), w))
            | (True, w) \<Rightarrow> ((fd, p), insert_locking p w)))"

definition LockPath :: "path \<Rightarrow> world \<Rightarrow> File \<times> world" where
  "LockPath p w =
    (if is_locking_file p w then ((None, []), w)
     else case Open p True False w of
         (None, w) \<Rightarrow> ((None, []), w)
       | (fd, w) \<Rightarrow>
           (case sys_setlkw fd w of
              (False, w) \<Rightarrow> (let (_, w) = sys_close fd w in ((None, []), w))
            | (True, w) \<Rightarrow> ((fd, p), insert_locking p w)))"

definition LockFile :: "File \<Rightarrow> world \<Rightarrow> errno \<times> world" where
  "LockFile f w =
    (if is_locking_file (snd f) w then (EEXIST, w)
     else case sys_setlkw (fst f) w of
         (False, w) \<Rightarrow> (w_errno w, w)
       | (True, w) \<Rightarrow> (ENONE, insert_locking (snd f) w))"

text \<open>F_SETLK with F_UNLCK never conflicts with another process.\<close>

definition sys_unlck :: "fd \<Rightarrow> world \<Rightarrow> bool \<times> world" where
  "sys_unlck fd = syscall False (\<lambda>_ w.
    case fd of None \<Rightarrow> (False, set_errno EBADF w) | Some _ \<Rightarrow> (True, w))"

definition UnlockFile :: "File \<Rightarrow> world \<Rightarrow> errno \<times> world" where
  "UnlockFile f w =
    (case sys_unlck (fst f) w of
       (False, w) \<Rightarrow> (w_errno w, w)
     | (True, w) \<Rightarrow> (ENONE, remove_locking_file_if_exist (snd f) w))"

definition IsLocking :: "path \<Rightarrow> world \<Rightarrow> int \<times> world" where
  "IsLocking p w =
    (if is_locking_file p w then (1, w)
     else case Exist p w of
         (False, w) \<Rightarrow> (0, w)
       | (True, w) \<Rightarrow>
           (case Open p False False w of
              (None, w) \<Rightarrow> (-1, w)
            | (fd, w) \<Rightarrow>
                (case sys_getlk fd w of
                   (None, w) \<Rightarrow> (let (_, w) = sys_close fd w in (-1, w))
                 | (Some held, w) \<Rightarrow> (let (_, w) = sys_close fd w in (if held then 1 else 0, w)))))"

definition OpenFile :: "path \<Rightarrow> bool \<Rightarrow> bool \<Rightarrow> world \<Rightarrow> File \<times> world" where
  "OpenFile p creat trunc w =
    (case sys_open p creat trunc w of (None, w) \<Rightarrow> ((None, []), w) | (fd, w) \<Rightarrow> ((fd, p), w))"

definition CloseFile :: "File \<Rightarrow> world \<Rightarrow> bool \<times> world" where
  "CloseFile f w = (let (err, w) = sys_close (fst f) w in (err, remove_locking_file_if_exist (snd f) w))"

definition CloseWithoutRemoveLock :: "File \<Rightarrow> world \<Rightarrow> bool \<times> world" where
  "CloseWithoutRemoveLock f w = sys_close (fst f) w"

end
