(* ===== verification/NumText.thy ===== *)
theory NumText
  imports FileSys
begin

text \<open>
  Text and number helpers of utils/common-utils.h: printing an unsigned integer through a
  stringstream, parsing it with strtoul (with the C library's treatment of white space, sign,
  overflow and errno), the trim functions and the power-of-two test.
\<close>

subsection \<open>Printing and parsing\<close>

definition digit_char :: "nat \<Rightarrow> char" where
  "digit_char d = char_of (48 + d)"

definition is_digit :: "char \<Rightarrow> bool" where
  "is_digit c = (48 \<le> (of_char c :: nat) \<and> (of_char c :: nat) \<le> 57)"

definition digit_val :: "char \<Rightarrow> nat" where
  "digit_val c = of_char c - 48"

fun show_nat :: "nat \<Rightarrow> string" where
  "show_nat n = (if n < 10 then [digit_char n] else show_nat (n div 10) @ [digit_char (n mod 10)])"

declare show_nat.simps [simp del]

definition ToString :: "u64 \<Rightarrow> string" where
  "ToString n = show_nat (unat n)"

definition isspace :: "char \<Rightarrow> bool" where
  "isspace c = (c = CHR '' '' \<or> 9 \<le> (of_char c :: nat) \<and> (of_char c :: nat) \<le> 13)"

definition c_str :: "string \<Rightarrow> string" where
  "c_str s = takeWhile (\<lambda>c. c \<noteq> CHR 0x00) s"

definition digits_val :: "string \<Rightarrow> nat" where
  "digits_val ds = foldl (\<lambda>acc c. acc * 10 + digit_val c) 0 ds"

definition ULONG_MAX :: nat where
  "ULONG_MAX = 2 ^ 64 - 1"

text \<open>strtoul(s, &endptr, 10): the value, the number of characters before endptr, and errno.\<close>

definition strtoul :: "string \<Rightarrow> errno \<Rightarrow> (u64 \<times> nat) \<times> errno" where
  "strtoul s er =
    (let blanks = takeWhile isspace s;
         t = dropWhile isspace s;
         sign = (if t \<noteq> [] \<and> (hd t = CHR ''+'' \<or> hd t = CHR ''-'') then [hd t] else []);
         ds = takeWhile is_digit (drop (length sign) t);
         v = digits_val ds
     in if ds = [] then ((0, 0), er)
        else if v > ULONG_MAX then ((word_of_nat ULONG_MAX, length blanks + length sign + length ds), ERANGE)
        else ((if sign = ''-'' then - word_of_nat v else word_of_nat v,
               length blanks + length sign + length ds), er))"

definition ToUint46_t :: "string \<Rightarrow> errno \<Rightarrow> (bool \<times> u64) \<times> errno" where
  "ToUint46_t s er =
    (let ((v, endp), er) = strtoul (c_str s) er
     in if er = ERANGE \<and> (v = word_of_nat ULONG_MAX \<or> v = 0) \<or> er \<noteq> ENONE \<and> v = 0 then ((False, v), er)
        else if endp = 0 then ((False, v), er)
        else ((endp = length (c_str s), v), er))"

subsection \<open>Trimming and powers of two\<close>

definition ltrim :: "string \<Rightarrow> string" where
  "ltrim s = dropWhile isspace s"

definition rtrim :: "string \<Rightarrow> string" where
  "rtrim s = rev (dropWhile isspace (rev s))"

definition trim :: "string \<Rightarrow> string" where
  "trim s = rtrim (ltrim s)"

definition ltrim_copy :: "string \<Rightarrow> string" where "ltrim_copy s = ltrim s"
definition rtrim_copy :: "string \<Rightarrow> string" where "rtrim_copy s = rtrim s"
definition trim_copy :: "string \<Rightarrow> string" where "trim_copy s = trim s"

definition IsPowerOfTwo :: "32 word \<Rightarrow> bool" where
  "IsPowerOfTwo x = (0 <s x \<and> x AND (x - 1) = 0)"

subsection \<open>Digits\<close>

lemma of_char_digit_char: "d < 10 \<Longrightarrow> (of_char (digit_char d) :: nat) = 48 + d"
  by (simp add: digit_char_def of_char_of take_bit_nat_eq_self)

lemma is_digit_digit_char [simp]: "d < 10 \<Longrightarrow> is_digit (digit_char d)"
  by (simp add: is_digit_def of_char_digit_char)

lemma digit_val_digit_char [simp]: "d < 10 \<Longrightarrow> digit_val (digit_char d) = d"
  by (simp add: digit_val_def of_char_digit_char)

lemma show_nat_digits: "c \<in> set (show_nat n) \<Longrightarrow> is_digit c"
proof (induction n rule: show_nat.induct)
  case (1 n)
  then show ?case by (cases "n < 10") (auto simp: show_nat.simps [of n])
qed

lemma show_nat_not_Nil [simp]: "show_nat n \<noteq> []"
  by (subst show_nat.simps) simp

lemma digits_val_snoc: "digits_val (ds @ [c]) = digits_val ds * 10 + digit_val c"
  by (simp add: digits_val_def)

lemma digits_val_show_nat [simp]: "digits_val (show_nat n) = n"
proof (induction n rule: show_nat.induct)
  case (1 n)
  then show ?case
    by (cases "n < 10")
      (simp_all add: show_nat.simps [of n] digits_val_snoc, simp add: digits_val_def)
qed

lemma show_nat_inject [simp]: "show_nat m = show_nat n \<longleftrightarrow> m = n"
  by (metis digits_val_show_nat)

lemma is_digit_facts:
  assumes "is_digit c"
  shows "\<not> isspace c" "c \<noteq> CHR 0x00" "c \<noteq> CHR ''+''" "c \<noteq> CHR ''-''" "c \<noteq> CHR ''.''" "c \<noteq> CHR ''/''"
  using assms by (auto simp: is_digit_def isspace_def)

lemma takeWhile_all: "(\<And>c. c \<in> set s \<Longrightarrow> P c) \<Longrightarrow> takeWhile P s = s"
  by (simp add: takeWhile_eq_all_conv)

lemma c_str_show_nat [simp]: "c_str (show_nat n) = show_nat n"
  unfolding c_str_def by (rule takeWhile_all) (use show_nat_digits is_digit_facts in blast)

lemma strtoul_show_nat:
  assumes "n \<le> ULONG_MAX"
  shows "strtoul (show_nat n) er = ((word_of_nat n, length (show_nat n)), er)"
proof -
  let ?s = "show_nat n"
  obtain c cs where s: "?s = c # cs" by (cases ?s) auto
  then have c: "is_digit c" using show_nat_digits [of c n] by simp
  have ws: "takeWhile isspace ?s = []" "dropWhile isspace ?s = ?s"
    using s is_digit_facts(1) [OF c] by simp_all
  have sign: "hd ?s \<noteq> CHR ''+''" "hd ?s \<noteq> CHR ''-''"
    using s is_digit_facts [OF c] by simp_all
  have tw: "takeWhile is_digit ?s = ?s" by (rule takeWhile_all) (rule show_nat_digits)
  from ws sign assms show ?thesis by (simp add: strtoul_def Let_def tw)
qed

lemma ToString_parse:
  assumes "er = ENONE \<or> n \<noteq> 0" and "er \<noteq> ERANGE \<or> unat n \<noteq> ULONG_MAX"
  shows "ToUint46_t (ToString n) er = ((True, n), er)"
proof -
  have "unat n \<le> ULONG_MAX"
    using unsigned_less [of n, where 'a = nat] by (simp add: ULONG_MAX_def)
  then have p: "strtoul (ToString n) er = ((n, length (ToString n)), er)"
    by (simp add: ToString_def strtoul_show_nat)
  have m: "n = word_of_nat ULONG_MAX \<longleftrightarrow> unat n = ULONG_MAX"
    by (simp add: ULONG_MAX_def word_unat_eq_iff)
  show ?thesis
    using assms p m by (auto simp: ToUint46_t_def ToString_def)
qed

lemma ToString_inject [simp]: "ToString m = ToString n \<longleftrightarrow> m = n"
  by (simp add: ToString_def word_unat_eq_iff)

lemma ToString_not_Nil [simp]: "ToString n \<noteq> []"
  by (simp add: ToString_def)

lemma ToString_chars: "c \<in> set (ToString n) \<Longrightarrow> is_digit c"
  unfolding ToString_def by (rule show_nat_digits)

end
