(* ===== verification/FileLaws.thy ===== *)
theory FileLaws
  imports FileSys
begin

text \<open>
  Laws of the system calls and of the file routines built on them: well-formedness of the world is
  kept by every call whatever the schedule; read-only calls change no file; and on a reliable
  schedule (calls succeed, transfers may be partial) every call has its functional effect.
\<close>

definition reliable :: "world \<Rightarrow> bool" where
  "reliable w = (\<forall>e. SysFail e \<notin> set (w_sched w))"

definition wf_world :: "world \<Rightarrow> bool" where
  "wf_world w = (distinct (map fst (w_files w)) \<and> (\<forall>p. content w p \<noteq> None \<longrightarrow> \<not> is_dir w p))"

lemma reliable_update [simp]:
  "reliable (w\<lparr>w_errno := e\<rparr>) = reliable w"
  "reliable (w\<lparr>w_files := fs\<rparr>) = reliable w"
  "reliable (w\<lparr>w_dirs := ds\<rparr>) = reliable w"
  "reliable (w\<lparr>s_LockingFiles := ls\<rparr>) = reliable w"
  "reliable (w\<lparr>w_flocks := ls\<rparr>) = reliable w"
  by (simp_all add: reliable_def)

lemma content_update [simp]:
  "content (w\<lparr>w_errno := e\<rparr>) = content w"
  "content (w\<lparr>w_sched := s\<rparr>) = content w"
  "content (w\<lparr>w_dirs := ds\<rparr>) = content w"
  "content (w\<lparr>s_LockingFiles := ls\<rparr>) = content w"
  "content (w\<lparr>w_flocks := ls\<rparr>) = content w"
  by (simp_all add: content_def)

lemma is_dir_update [simp]:
  "is_dir (w\<lparr>w_errno := e\<rparr>) = is_dir w"
  "is_dir (w\<lparr>w_sched := s\<rparr>) = is_dir w"
  "is_dir (w\<lparr>w_files := fs\<rparr>) = is_dir w"
  "is_dir (w\<lparr>s_LockingFiles := ls\<rparr>) = is_dir w"
  "is_dir (w\<lparr>w_flocks := ls\<rparr>) = is_dir w"
  by (simp_all add: is_dir_def fun_eq_iff)

lemma content_set_file [simp]: "content (set_file p c w) = (content w)(p \<mapsto> c)"
  by (simp add: set_file_def content_def update_conv')

lemma content_del_file [simp]: "content (del_file p w) = (content w)(p := None)"
  by (simp add: del_file_def content_def delete_conv')

lemma set_file_frame [simp]:
  "is_dir (set_file p c w) = is_dir w" "reliable (set_file p c w) = reliable w"
  "w_errno (set_file p c w) = w_errno w" "w_sched (set_file p c w) = w_sched w"
  "s_LockingFiles (set_file p c w) = s_LockingFiles w" "w_flocks (set_file p c w) = w_flocks w"
  "w_dirs (set_file p c w) = w_dirs w"
  by (simp_all add: set_file_def)

lemma del_file_frame [simp]:
  "is_dir (del_file p w) = is_dir w" "reliable (del_file p w) = reliable w"
  "w_errno (del_file p w) = w_errno w" "w_sched (del_file p w) = w_sched w"
  "s_LockingFiles (del_file p w) = s_LockingFiles w" "w_flocks (del_file p w) = w_flocks w"
  "w_dirs (del_file p w) = w_dirs w"
  by (simp_all add: del_file_def)

lemma set_errno_frame [simp]:
  "is_dir (set_errno e w) = is_dir w" "reliable (set_errno e w) = reliable w"
  "content (set_errno e w) = content w" "w_sched (set_errno e w) = w_sched w"
  "s_LockingFiles (set_errno e w) = s_LockingFiles w" "w_flocks (set_errno e w) = w_flocks w"
  "w_files (set_errno e w) = w_files w" "w_dirs (set_errno e w) = w_dirs w"
  "w_errno (set_errno e w) = e"
  by (simp_all add: set_errno_def)

lemma wf_world_frame [simp]:
  "wf_world (set_errno e w) = wf_world w" "wf_world (w\<lparr>w_sched := s\<rparr>) = wf_world w"
  "wf_world (w\<lparr>w_errno := er\<rparr>) = wf_world w" "wf_world (w\<lparr>w_flocks := l\<rparr>) = wf_world w"
  "wf_world (w\<lparr>s_LockingFiles := l\<rparr>) = wf_world w"
  by (simp_all add: wf_world_def set_errno_def)

lemma wf_world_set_file: "wf_world w \<Longrightarrow> \<not> is_dir w p \<Longrightarrow> wf_world (set_file p c w)"
  by (auto simp: wf_world_def set_file_def distinct_update content_def update_conv')

lemma wf_world_del_file: "wf_world w \<Longrightarrow> wf_world (del_file p w)"
  by (auto simp: wf_world_def del_file_def distinct_delete content_def delete_conv')

lemmas sys_defs = sys_access_def sys_stat_def sys_mkdir_def sys_open_def sys_unlink_def sys_rename_def
  sys_write_def sys_read_def sys_pread_def sys_lseek_def sys_lseek_cur_def sys_fstat_size_def
  sys_close_def sys_fdatasync_def sys_readdir_def sys_setlk_def sys_setlkw_def sys_getlk_def sys_unlck_def

subsection \<open>Reasoning about one call\<close>

lemma syscall_inv:
  assumes body: "\<And>ev s. P (w\<lparr>w_sched := s\<rparr>) \<Longrightarrow> P (snd (body ev (w\<lparr>w_sched := s\<rparr>)))"
    and frame: "\<And>s. P (w\<lparr>w_sched := s\<rparr>)" "\<And>s e. P (w\<lparr>w_sched := s, w_errno := e\<rparr>)"
  shows "P (snd (syscall f body w))"
  using body [OF frame(1), of "SysOk" "w_sched w"] body [OF frame(1)] frame
  by (auto simp: syscall_def split: list.splits sysev.splits)

lemma syscall_reliable:
  assumes "reliable w"
  obtains ev s where "syscall f body w = body ev (w\<lparr>w_sched := s\<rparr>)" "reliable (w\<lparr>w_sched := s\<rparr>)"
proof (cases "w_sched w")
  case Nil
  then have "w\<lparr>w_sched := []\<rparr> = w" by simp
  with Nil that [of SysOk "[]"] assms show ?thesis by (simp add: syscall_def)
next
  case (Cons ev es)
  with assms that [of ev es] show ?thesis
    by (cases ev) (auto simp: syscall_def reliable_def)
qed

lemma syscall_cases:
  obtains (failed) e s where "syscall f body w = (f, w\<lparr>w_sched := s, w_errno := e\<rparr>)" "\<not> reliable w"
  | (ok) ev s where "syscall f body w = body ev (w\<lparr>w_sched := s\<rparr>)" "reliable w \<Longrightarrow> reliable (w\<lparr>w_sched := s\<rparr>)"
proof (cases "reliable w")
  case True
  show ?thesis by (rule syscall_reliable [OF True]) (rule ok)
next
  case False
  then obtain ev es where sch: "w_sched w = ev # es"
    by (cases "w_sched w") (auto simp: reliable_def)
  show ?thesis
    by (cases ev) (use sch False failed ok in \<open>simp_all add: syscall_def\<close>)
qed

subsection \<open>Frames\<close>

lemma syscall_keeps:
  assumes "\<And>ev w. g (snd (body ev w)) = g w"
    and "\<And>s w. g (w\<lparr>w_sched := s\<rparr>) = g w" "\<And>s e w. g (w\<lparr>w_sched := s, w_errno := e\<rparr>) = g w"
  shows "g (snd (syscall f body w)) = g w"
  using assms by (auto simp: syscall_def split: list.splits sysev.splits)

lemma syscall_content: "(\<And>ev w. content (snd (body ev w)) = content w) \<Longrightarrow> content (snd (syscall f body w)) = content w"
  by (rule syscall_keeps) auto

lemma syscall_is_dir: "(\<And>ev w. is_dir (snd (body ev w)) = is_dir w) \<Longrightarrow> is_dir (snd (syscall f body w)) = is_dir w"
  by (rule syscall_keeps) auto

lemma syscall_locking: "(\<And>ev w. s_LockingFiles (snd (body ev w)) = s_LockingFiles w) \<Longrightarrow>
    s_LockingFiles (snd (syscall f body w)) = s_LockingFiles w"
  by (rule syscall_keeps) auto

lemma syscall_rel: "(\<And>ev w. reliable (snd (body ev w)) = reliable w) \<Longrightarrow> reliable w \<Longrightarrow>
    reliable (snd (syscall f body w))"
  by (auto simp: syscall_def reliable_def split: list.splits sysev.splits)

lemma syscall_wf: "(\<And>ev w. wf_world w \<Longrightarrow> wf_world (snd (body ev w))) \<Longrightarrow> wf_world w \<Longrightarrow>
    wf_world (snd (syscall f body w))"
  by (auto simp: syscall_def split: list.splits sysev.splits)

lemmas frame_splits = option.splits prod.splits if_splits

text \<open>Read-only calls change no file; only mkdir changes the directories.\<close>

lemma content_sys [simp]:
  "content (snd (sys_access p w)) = content w"
  "content (snd (sys_stat p w)) = content w"
  "content (snd (sys_read fd n w)) = content w"
  "content (snd (sys_pread fd n k w)) = content w"
  "content (snd (sys_lseek fd i w)) = content w"
  "content (snd (sys_lseek_cur fd n w)) = content w"
  "content (snd (sys_fstat_size fd w)) = content w"
  "content (snd (sys_close fd w)) = content w"
  "content (snd (sys_fdatasync fd w)) = content w"
  "content (snd (sys_readdir p w)) = content w"
  "content (snd (sys_setlk fd w)) = content w"
  "content (snd (sys_setlkw fd w)) = content w"
  "content (snd (sys_getlk fd w)) = content w"
  "content (snd (sys_unlck fd w)) = content w"
  "content (snd (ReadAllString p w)) = content w"
  "content (snd (sys_mkdir p w)) = content w"
  by (simp_all add: sys_defs ReadAllString_def syscall_content split_beta Let_def split: frame_splits)

lemma is_dir_sys [simp]:
  "is_dir (snd (sys_access p w)) = is_dir w"
  "is_dir (snd (sys_stat p w)) = is_dir w"
  "is_dir (snd (sys_read fd n w)) = is_dir w"
  "is_dir (snd (sys_pread fd n k w)) = is_dir w"
  "is_dir (snd (sys_lseek fd i w)) = is_dir w"
  "is_dir (snd (sys_lseek_cur fd n w)) = is_dir w"
  "is_dir (snd (sys_fstat_size fd w)) = is_dir w"
  "is_dir (snd (sys_close fd w)) = is_dir w"
  "is_dir (snd (sys_fdatasync fd w)) = is_dir w"
  "is_dir (snd (sys_readdir p w)) = is_dir w"
  "is_dir (snd (sys_setlk fd w)) = is_dir w"
  "is_dir (snd (sys_setlkw fd w)) = is_dir w"
  "is_dir (snd (sys_getlk fd w)) = is_dir w"
  "is_dir (snd (sys_unlck fd w)) = is_dir w"
  "is_dir (snd (ReadAllString p w)) = is_dir w"
  "is_dir (snd (sys_open p c t w)) = is_dir w"
  "is_dir (snd (sys_unlink p w)) = is_dir w"
  "is_dir (snd (sys_rename p q w)) = is_dir w"
  "is_dir (snd (sys_write fd bs w)) = is_dir w"
  by (simp_all add: sys_defs ReadAllString_def syscall_is_dir split_beta Let_def split: frame_splits)

lemma locks_sys [simp]:
  "s_LockingFiles (snd (sys_access p w)) = s_LockingFiles w"
  "s_LockingFiles (snd (sys_stat p w)) = s_LockingFiles w"
  "s_LockingFiles (snd (sys_read fd n w)) = s_LockingFiles w"
  "s_LockingFiles (snd (sys_pread fd n k w)) = s_LockingFiles w"
  "s_LockingFiles (snd (sys_lseek fd i w)) = s_LockingFiles w"
  "s_LockingFiles (snd (sys_lseek_cur fd n w)) = s_LockingFiles w"
  "s_LockingFiles (snd (sys_fstat_size fd w)) = s_LockingFiles w"
  "s_LockingFiles (snd (sys_close fd w)) = s_LockingFiles w"
  "s_LockingFiles (snd (sys_fdatasync fd w)) = s_LockingFiles w"
  "s_LockingFiles (snd (sys_readdir p w)) = s_LockingFiles w"
  "s_LockingFiles (snd (sys_setlk fd w)) = s_LockingFiles w"
  "s_LockingFiles (snd (sys_setlkw fd w)) = s_LockingFiles w"
  "s_LockingFiles (snd (sys_getlk fd w)) = s_LockingFiles w"
  "s_LockingFiles (snd (sys_unlck fd w)) = s_LockingFiles w"
  "s_LockingFiles (snd (ReadAllString p w)) = s_LockingFiles w"
  "s_LockingFiles (snd (sys_mkdir p w)) = s_LockingFiles w"
  "s_LockingFiles (snd (sys_open p c t w)) = s_LockingFiles w"
  "s_LockingFiles (snd (sys_unlink p w)) = s_LockingFiles w"
  "s_LockingFiles (snd (sys_rename p q w)) = s_LockingFiles w"
  "s_LockingFiles (snd (sys_write fd bs w)) = s_LockingFiles w"
  by (simp_all add: sys_defs ReadAllString_def syscall_locking split_beta Let_def split: frame_splits)

lemma reliable_sys [simp]:
  "reliable w \<Longrightarrow> reliable (snd (sys_access p w))"
  "reliable w \<Longrightarrow> reliable (snd (sys_stat p w))"
  "reliable w \<Longrightarrow> reliable (snd (sys_read fd n w))"
  "reliable w \<Longrightarrow> reliable (snd (sys_pread fd n k w))"
  "reliable w \<Longrightarrow> reliable (snd (sys_lseek fd i w))"
  "reliable w \<Longrightarrow> reliable (snd (sys_lseek_cur fd n w))"
  "reliable w \<Longrightarrow> reliable (snd (sys_fstat_size fd w))"
  "reliable w \<Longrightarrow> reliable (snd (sys_close fd w))"
  "reliable w \<Longrightarrow> reliable (snd (sys_fdatasync fd w))"
  "reliable w \<Longrightarrow> reliable (snd (sys_readdir p w))"
  "reliable w \<Longrightarrow> reliable (snd (sys_setlk fd w))"
  "reliable w \<Longrightarrow> reliable (snd (sys_setlkw fd w))"
  "reliable w \<Longrightarrow> reliable (snd (sys_getlk fd w))"
  "reliable w \<Longrightarrow> reliable (snd (sys_unlck fd w))"
  "reliable w \<Longrightarrow> reliable (snd (ReadAllString p w))"
  "reliable w \<Longrightarrow> reliable (snd (sys_mkdir p w))"
  "reliable w \<Longrightarrow> reliable (snd (sys_open p c t w))"
  "reliable w \<Longrightarrow> reliable (snd (sys_unlink p w))"
  "reliable w \<Longrightarrow> reliable (snd (sys_rename p q w))"
  "reliable w \<Longrightarrow> reliable (snd (sys_write fd bs w))"
  by (simp_all add: sys_defs ReadAllString_def syscall_rel split_beta Let_def split: frame_splits)

text \<open>Every call keeps the world well-formed, whatever the schedule.\<close>

lemma wf_world_mkdir: "wf_world w \<Longrightarrow> content w p = None \<Longrightarrow> wf_world (w\<lparr>w_dirs := p # w_dirs w\<rparr>)"
  by (auto simp: wf_world_def is_dir_def)

lemma wf_world_content: "wf_world w \<Longrightarrow> content w p = Some c \<Longrightarrow> \<not> is_dir w p"
  by (auto simp: wf_world_def)

lemma wf_world_sys [simp]:
  "wf_world w \<Longrightarrow> wf_world (snd (sys_access p w))"
  "wf_world w \<Longrightarrow> wf_world (snd (sys_stat p w))"
  "wf_world w \<Longrightarrow> wf_world (snd (sys_read fd n w))"
  "wf_world w \<Longrightarrow> wf_world (snd (sys_pread fd n k w))"
  "wf_world w \<Longrightarrow> wf_world (snd (sys_lseek fd i w))"
  "wf_world w \<Longrightarrow> wf_world (snd (sys_lseek_cur fd n w))"
  "wf_world w \<Longrightarrow> wf_world (snd (sys_fstat_size fd w))"
  "wf_world w \<Longrightarrow> wf_world (snd (sys_close fd w))"
  "wf_world w \<Longrightarrow> wf_world (snd (sys_fdatasync fd w))"
  "wf_world w \<Longrightarrow> wf_world (snd (sys_readdir p w))"
  "wf_world w \<Longrightarrow> wf_world (snd (sys_setlk fd w))"
  "wf_world w \<Longrightarrow> wf_world (snd (sys_setlkw fd w))"
  "wf_world w \<Longrightarrow> wf_world (snd (sys_getlk fd w))"
  "wf_world w \<Longrightarrow> wf_world (snd (sys_unlck fd w))"
  "wf_world w \<Longrightarrow> wf_world (snd (ReadAllString p w))"
  "wf_world w \<Longrightarrow> wf_world (snd (sys_mkdir p w))"
  "wf_world w \<Longrightarrow> wf_world (snd (sys_open p c t w))"
  "wf_world w \<Longrightarrow> wf_world (snd (sys_unlink p w))"
  "wf_world w \<Longrightarrow> wf_world (snd (sys_rename p q w))"
  "wf_world w \<Longrightarrow> wf_world (snd (sys_write fd bs w))"
  by (simp_all add: sys_defs ReadAllString_def syscall_wf wf_world_set_file wf_world_del_file
      wf_world_mkdir wf_world_content split_beta Let_def split: frame_splits)

subsection \<open>Effects on a reliable schedule\<close>

lemma syscall_fst:
  assumes "reliable w" and "\<And>ev w. g (body ev w) = h w" and "\<And>s w. h (w\<lparr>w_sched := s\<rparr>) = h w"
  shows "g (syscall f body w) = h w"
proof -
  obtain ev s where "syscall f body w = body ev (w\<lparr>w_sched := s\<rparr>)"
    by (rule syscall_reliable [OF assms(1)])
  then show ?thesis by (simp add: assms)
qed

abbreviation can_create :: "world \<Rightarrow> path \<Rightarrow> bool" where
  "can_create w p \<equiv> p \<noteq> [] \<and> (parent p = [] \<or> is_dir w (parent p))"

lemma fst_sys [simp]:
  assumes "reliable w"
  shows "fst (sys_access p w) = (is_dir w p \<or> content w p \<noteq> None)"
    and "fst (sys_stat p w) = (if is_dir w p then Some S_ISDIR
                               else map_option (\<lambda>c. S_ISREG (length c)) (content w p))"
    and "fst (sys_mkdir p w) = (\<not> is_dir w p \<and> content w p = None \<and> can_create w p)"
    and "fst (sys_open p cr t w) = (if \<not> is_dir w p \<and> (content w p \<noteq> None \<or> cr \<and> can_create w p)
                                    then Some (p, 0) else None)"
    and "fst (sys_unlink p w) = (\<not> is_dir w p \<and> content w p \<noteq> None)"
    and "fst (sys_rename p q w) = (content w p \<noteq> None \<and> \<not> is_dir w q \<and> can_create w q)"
    and "fst (sys_lseek (Some (p, off)) i w) = (if i < 0 then (False, Some (p, off)) else (True, Some (p, nat i)))"
    and "fst (sys_lseek_cur (Some (p, off)) n w) = (True, Some (p, off + n))"
    and "fst (sys_fstat_size (Some (p, off)) w) = Some (length (case content w p of None \<Rightarrow> [] | Some c \<Rightarrow> c))"
    and "fst (sys_close fd w) = (fd \<noteq> None)"
    and "fst (sys_fdatasync fd w) = (fd \<noteq> None)"
    and "fst (sys_readdir d w) = (if is_dir w d
           then Some (filter (\<lambda>p. parent p = d) (map fst (w_files w) @ w_dirs w)) else None)"
    and "fst (ReadAllString p w) = (case content w p of None \<Rightarrow> [] | Some c \<Rightarrow> string_of_bytes c)"
    and "fst (sys_setlkw fd w) = (fd \<noteq> None)"
    and "fst (sys_getlk (Some (p, off)) w) = Some (p \<in> set (w_flocks w))"
  unfolding sys_defs ReadAllString_def
  by (rule syscall_fst [OF assms]; force split: option.splits prod.splits if_splits)+

lemma content_mut [simp]:
  assumes "reliable w"
  shows "content (snd (sys_open p cr t w)) =
      (if \<not> is_dir w p \<and> (content w p = None \<and> cr \<and> can_create w p \<or> content w p \<noteq> None \<and> t)
       then (content w)(p \<mapsto> []) else content w)"
    and "content (snd (sys_unlink p w)) = (if is_dir w p then content w else (content w)(p := None))"
    and "content (snd (sys_rename p q w)) =
      (if content w p \<noteq> None \<and> \<not> is_dir w q \<and> can_create w q \<and> p \<noteq> q
       then (content w)(p := None, q := content w p) else content w)"
    and "is_dir (snd (sys_mkdir p w)) d = (is_dir w d \<or> d = p \<and> content w p = None \<and> can_create w p)"
  unfolding sys_defs
  by (rule syscall_fst [OF assms]; force simp: is_dir_def split: option.splits prod.splits if_splits)+

lemma errno_access_missing [simp]:
  "reliable w \<Longrightarrow> \<not> is_dir w p \<Longrightarrow> content w p = None \<Longrightarrow> w_errno (snd (sys_access p w)) = ENOENT"
  by (auto simp: sys_access_def syscall_def reliable_def split: list.splits sysev.splits)

subsection \<open>IOUtils: a write is complete or cut at some byte; a read is what the file holds\<close>

lemma overwrite_compose: "overwrite (off + length a) b (overwrite off a c) = overwrite off (a @ b) c"
  by (auto simp: overwrite_def min_def ac_simps)

lemma overwrite_end [simp]: "overwrite (length c) bs c = c @ bs"
  by (simp add: overwrite_def)

lemma overwrite_nil: "off \<le> length c \<Longrightarrow> overwrite off [] c = c"
  by (simp add: overwrite_def)

lemma overwrite_zero_nil [simp]: "overwrite 0 bs [] = bs"
  by (simp add: overwrite_def)

lemma sys_write_cases:
  assumes "sys_write (Some (p, off)) bs w = ((r, fd'), w')"
  obtains (failed) "r = None" "fd' = Some (p, off)" "content w' = content w" "\<not> reliable w"
  | (wrote) n where "r = Some n" "n \<le> length bs" "fd' = Some (p, off + n)"
      "content w' = (case content w p of None \<Rightarrow> content w
                     | Some c \<Rightarrow> (content w)(p \<mapsto> overwrite off (take n bs) c))"
  using assms
  by (auto simp: sys_write_def syscall_def Let_def reliable_def transfer_le
      split: list.splits sysev.splits option.splits) blast

text \<open>Whatever the schedule, a write puts a prefix of the data at the offset, and touches nothing else.\<close>

lemma WriteFully_loop_prefix:
  assumes "WriteFully_loop (Some (p, off)) bs w = ((ok, fd'), w')" and "content w p = Some c"
    and "off \<le> length c"
  shows "\<exists>k \<le> length bs. content w' = (content w)(p \<mapsto> overwrite off (take k bs) c) \<and>
           fd' = Some (p, off + k) \<and> (ok \<longrightarrow> k = length bs) \<and> (reliable w \<longrightarrow> ok \<and> reliable w')"
  using assms
proof (induction "length bs" arbitrary: off bs w c rule: less_induct)
  case less
  show ?case
  proof (cases "bs = []")
    case True
    with less.prems show ?thesis
      by (auto simp: WriteFully_loop.simps [of _ "[]"] overwrite_nil fun_upd_idem)
  next
    case False
    obtain r fd1 w1 where wr: "sys_write (Some (p, off)) bs w = ((r, fd1), w1)" by (metis surj_pair)
    show ?thesis
    proof (rule sys_write_cases [OF wr])
      assume "r = None" "fd1 = Some (p, off)" "content w1 = content w" "\<not> reliable w"
      with less.prems False wr show ?thesis
        by (auto simp: WriteFully_loop.simps [of _ bs] overwrite_nil fun_upd_idem intro!: exI [of _ 0])
    next
      fix n assume n: "r = Some n" "n \<le> length bs" "fd1 = Some (p, off + n)"
        "content w1 = (case content w p of None \<Rightarrow> content w
                       | Some c \<Rightarrow> (content w)(p \<mapsto> overwrite off (take n bs) c))"
      let ?c = "overwrite off (take n bs) c"
      have pos: "0 < n" using sys_write_progress wr n(1) False by blast
      have len: "length (drop n bs) < length bs" using pos False by simp
      have run: "WriteFully_loop (Some (p, off + n)) (drop n bs) w1 = ((ok, fd'), w')"
        using less.prems(1) wr n False by (simp add: WriteFully_loop.simps [of _ bs])
      have c1: "content w1 p = Some ?c" using n less.prems(2) by simp
      have offc: "off + n \<le> length ?c" using n(2) less.prems(3) by (simp add: overwrite_def min_def)
      have rel: "reliable w \<Longrightarrow> reliable w1" using reliable_sys(20) [of w "Some (p, off)" bs] wr by simp
      from less.hyps [OF len run c1 offc] obtain k where k: "k \<le> length (drop n bs)"
        "content w' = (content w1)(p \<mapsto> overwrite (off + n) (take k (drop n bs)) ?c)"
        "fd' = Some (p, off + n + k)" "ok \<longrightarrow> k = length (drop n bs)"
        "reliable w1 \<longrightarrow> ok \<and> reliable w'" by blast
      have "take n bs @ take k (drop n bs) = take (n + k) bs" by (simp add: take_add)
      then have "overwrite (off + n) (take k (drop n bs)) ?c = overwrite off (take (n + k) bs) c"
        using overwrite_compose [of off "take n bs" "take k (drop n bs)" c] n(2) by simp
      with k n less.prems(2) rel show ?thesis by (intro exI [of _ "n + k"]) auto
    qed
  qed
qed

lemma WriteFully_prefix:
  assumes "WriteFully (Some (p, off)) bs w = ((r, fd'), w')" and "content w p = Some c"
    and "off \<le> length c"
  shows "\<exists>k \<le> length bs. content w' = (content w)(p \<mapsto> overwrite off (take k bs) c) \<and>
           fd' = Some (p, off + k) \<and> (r \<noteq> None \<longrightarrow> k = length bs) \<and>
           (reliable w \<longrightarrow> r = Some (length bs) \<and> reliable w')"
proof (cases "bs = []")
  case True
  with assms show ?thesis by (auto simp: WriteFully_def overwrite_nil fun_upd_idem)
next
  case False
  obtain ok fd1 w1 where "WriteFully_loop (Some (p, off)) bs w = ((ok, fd1), w1)" by (metis surj_pair)
  with WriteFully_loop_prefix [OF this assms(2,3)] assms(1) False show ?thesis
    by (auto simp: WriteFully_def split: bool.splits)
qed

lemma WriteFully_done [simp]:
  assumes "reliable w" "content w p = Some c" "off \<le> length c"
  shows "fst (WriteFully (Some (p, off)) bs w) = (Some (length bs), Some (p, off + length bs))"
    and "content (snd (WriteFully (Some (p, off)) bs w)) = (content w)(p \<mapsto> overwrite off bs c)"
    and "reliable (snd (WriteFully (Some (p, off)) bs w))"
proof -
  obtain r fd' w' where run: "WriteFully (Some (p, off)) bs w = ((r, fd'), w')" by (metis surj_pair)
  from WriteFully_prefix [OF this assms(2,3)] obtain k where
    "content w' = (content w)(p \<mapsto> overwrite off (take k bs) c)" "fd' = Some (p, off + k)"
    "r \<noteq> None \<longrightarrow> k = length bs" "r = Some (length bs)" "reliable w'" using assms(1) by blast
  then show "fst (WriteFully (Some (p, off)) bs w) = (Some (length bs), Some (p, off + length bs))"
    and "content (snd (WriteFully (Some (p, off)) bs w)) = (content w)(p \<mapsto> overwrite off bs c)"
    and "reliable (snd (WriteFully (Some (p, off)) bs w))"
    by (simp_all add: run)
qed

lemma WriteFully_loop_frame:
  "is_dir (snd (WriteFully_loop fd bs w)) = is_dir w \<and>
   s_LockingFiles (snd (WriteFully_loop fd bs w)) = s_LockingFiles w \<and>
   (wf_world w \<longrightarrow> wf_world (snd (WriteFully_loop fd bs w)))"
proof (induction fd bs w rule: WriteFully_loop.induct)
  case (1 fd bs w)
  obtain r fd1 w1 where wr: "sys_write fd bs w = ((r, fd1), w1)" by (metis surj_pair)
  from is_dir_sys(19) [of fd bs w] locks_sys(20) [of fd bs w] wf_world_sys(20) [of w fd bs] wr
  have "is_dir w1 = is_dir w" "s_LockingFiles w1 = s_LockingFiles w" "wf_world w \<longrightarrow> wf_world w1" by simp_all
  with 1 wr show ?case by (simp add: WriteFully_loop.simps [of fd bs w] split: option.splits)
qed

lemma WriteFully_frame [simp]:
  "is_dir (snd (WriteFully fd bs w)) = is_dir w"
  "s_LockingFiles (snd (WriteFully fd bs w)) = s_LockingFiles w"
  "wf_world w \<Longrightarrow> wf_world (snd (WriteFully fd bs w))"
  using WriteFully_loop_frame [of fd bs w]
  by (simp_all add: WriteFully_def split_beta split: bool.split)

lemma sys_read_cases:
  assumes "sys_read (Some (p, off)) n w = ((r, fd'), w')"
  obtains (failed) "r = None" "content w' = content w" "\<not> reliable w"
  | (got) k where "k \<le> n" "r = Some (take k (drop off (case content w p of None \<Rightarrow> [] | Some c \<Rightarrow> c)))"
      "fd' = Some (p, off + min k (length (case content w p of None \<Rightarrow> [] | Some c \<Rightarrow> c) - off))"
      "content w' = content w"
      "0 < n \<Longrightarrow> off < length (case content w p of None \<Rightarrow> [] | Some c \<Rightarrow> c) \<Longrightarrow> 0 < k"
proof (rule syscall_cases [of "(None, Some (p, off))" _ w])
  let ?body = "\<lambda>ev w. (let left = drop off (case content w p of None \<Rightarrow> [] | Some c \<Rightarrow> c);
            bs = take (transfer ev (min n (length left))) left
        in ((Some bs, Some (p, off + length bs)), w))"
  have run: "syscall (None, Some (p, off)) ?body w = ((r, fd'), w')"
    using assms by (simp add: sys_read_def)
  {
    fix e s assume "syscall (None, Some (p, off)) ?body w = ((None, Some (p, off)), w\<lparr>w_sched := s, w_errno := e\<rparr>)"
      "\<not> reliable w"
    with run failed show thesis by auto
  next
    fix ev s assume "syscall (None, Some (p, off)) ?body w = ?body ev (w\<lparr>w_sched := s\<rparr>)"
    with run have ev: "r = Some (take (transfer ev (min n (length (drop off (case content w p of None \<Rightarrow> [] | Some c \<Rightarrow> c)))))
         (drop off (case content w p of None \<Rightarrow> [] | Some c \<Rightarrow> c)))"
      "fd' = Some (p, off + min (transfer ev (min n (length (drop off (case content w p of None \<Rightarrow> [] | Some c \<Rightarrow> c)))))
         (length (case content w p of None \<Rightarrow> [] | Some c \<Rightarrow> c) - off))"
      "content w' = content w"
      by (auto simp: Let_def min.commute)
    show thesis
      by (rule got [OF transfer_min_le ev]) (simp add: transfer_pos)
  }
qed

lemma ReadFully_loop_frame:
  "content (snd (ReadFully_loop fd n acc w)) = content w \<and>
   is_dir (snd (ReadFully_loop fd n acc w)) = is_dir w \<and>
   s_LockingFiles (snd (ReadFully_loop fd n acc w)) = s_LockingFiles w \<and>
   (wf_world w \<longrightarrow> wf_world (snd (ReadFully_loop fd n acc w)))"
proof (induction fd n acc w rule: ReadFully_loop.induct)
  case (1 fd n acc w)
  obtain r fd1 w1 where rd: "sys_read fd n w = ((r, fd1), w1)" by (metis surj_pair)
  from content_sys(3) [of fd n w] is_dir_sys(3) [of fd n w] locks_sys(3) [of fd n w]
    wf_world_sys(3) [of w fd n] rd
  have "content w1 = content w" "is_dir w1 = is_dir w" "s_LockingFiles w1 = s_LockingFiles w"
    "wf_world w \<longrightarrow> wf_world w1" by simp_all
  with 1 rd show ?case by (simp add: ReadFully_loop.simps [of fd n acc w] split: option.splits)
qed

lemma ReadFully_loop_done:
  assumes "reliable w" "content w p = Some c"
  shows "\<exists>w'. ReadFully_loop (Some (p, off)) n acc w =
           ((Some (acc @ take n (drop off c)), Some (p, off + min n (length c - off))), w') \<and> reliable w'"
  using assms
proof (induction n arbitrary: off acc w rule: less_induct)
  case (less n)
  obtain r fd1 w1 where rd: "sys_read (Some (p, off)) n w = ((r, fd1), w1)" by (metis surj_pair)
  have rel1: "reliable w1" using reliable_sys(3) [OF less.prems(1), of "Some (p, off)" n] rd by simp
  show ?case
  proof (cases "n = 0")
    case True
    with less.prems show ?thesis by (simp add: ReadFully_loop.simps [of _ 0])
  next
    case False
    have "\<exists>k \<le> n. r = Some (take k (drop off c)) \<and> fd1 = Some (p, off + min k (length c - off)) \<and>
        content w1 = content w \<and> (0 < n \<longrightarrow> off < length c \<longrightarrow> 0 < k)"
      by (rule sys_read_cases [OF rd]) (use less.prems in auto)
    then obtain k where k: "k \<le> n" "r = Some (take k (drop off c))"
      "fd1 = Some (p, off + min k (length c - off))" "content w1 = content w"
      "0 < n \<Longrightarrow> off < length c \<Longrightarrow> 0 < k" by blast
    show ?thesis
    proof (cases "off < length c")
      case False
      with k rd \<open>n \<noteq> 0\<close> rel1 show ?thesis by (simp add: ReadFully_loop.simps [of _ n])
    next
      case True
      then have kpos: "0 < k" using k(5) \<open>n \<noteq> 0\<close> by simp
      define m where "m = min k (length c - off)"
      have m: "0 < m" "m \<le> n" "m \<le> length c - off" using kpos True k(1) by (auto simp: m_def)
      have run: "ReadFully_loop (Some (p, off)) n acc w =
          ReadFully_loop (Some (p, off + m)) (n - m) (acc @ take k (drop off c)) w1"
        using rd k kpos True \<open>n \<noteq> 0\<close> by (simp add: ReadFully_loop.simps [of _ n] m_def min.commute)
      have "n - m < n" using m \<open>n \<noteq> 0\<close> by simp
      from less.IH [OF this rel1, of "off + m" "acc @ take k (drop off c)"] k(4) less.prems(2)
      obtain w' where w': "ReadFully_loop (Some (p, off + m)) (n - m) (acc @ take k (drop off c)) w1 =
          ((Some ((acc @ take k (drop off c)) @ take (n - m) (drop (off + m) c)),
            Some (p, off + m + min (n - m) (length c - (off + m)))), w')" "reliable w'" by auto
      have "take k (drop off c) @ take (n - m) (drop (off + m) c) = take n (drop off c)"
      proof -
        have "take k (drop off c) = take m (drop off c)" by (simp add: m_def min_def)
        moreover have "drop (off + m) c = drop m (drop off c)" by (simp add: add.commute)
        moreover have "take m (drop off c) @ take (n - m) (drop m (drop off c)) = take n (drop off c)"
          using m(2) take_add [of m "n - m" "drop off c"] by simp
        ultimately show ?thesis by simp
      qed
      moreover have "off + m + min (n - m) (length c - (off + m)) = off + min n (length c - off)"
        using m by (simp add: diff_diff_left [symmetric] min_diff del: diff_diff_left)
      ultimately show ?thesis using run w' by simp
    qed
  qed
qed

lemma ReadFully_V4_done [simp]:
  assumes "reliable w" "content w p = Some c"
  shows "fst (ReadFully_V4 (Some (p, off)) n w) =
      (Some (take n (drop off c)), Some (p, off + min n (length c - off)))"
    and "reliable (snd (ReadFully_V4 (Some (p, off)) n w))"
  using ReadFully_loop_done [OF assms, of off n "[]"] assms(1) by (auto simp: ReadFully_V4_def)

lemma ReadFully_V4_frame [simp]:
  "content (snd (ReadFully_V4 fd n w)) = content w"
  "is_dir (snd (ReadFully_V4 fd n w)) = is_dir w"
  "s_LockingFiles (snd (ReadFully_V4 fd n w)) = s_LockingFiles w"
  "wf_world w \<Longrightarrow> wf_world (snd (ReadFully_V4 fd n w))"
  using ReadFully_loop_frame [of fd n "[]" w] by (simp_all add: ReadFully_V4_def)

text \<open>Whatever the schedule, a read that does not fail returns consecutive bytes of the file.\<close>

abbreviation data :: "world \<Rightarrow> path \<Rightarrow> bytes" where
  "data w p \<equiv> (case content w p of None \<Rightarrow> [] | Some c \<Rightarrow> c)"

lemma ReadFully_loop_any:
  assumes "ReadFully_loop (Some (p, off)) n acc w = ((Some r, fd'), w')"
  shows "\<exists>k \<le> n. r = acc @ take k (drop off (data w p)) \<and>
           fd' = Some (p, off + length (take k (drop off (data w p))))"
  using assms
proof (induction n arbitrary: off acc w rule: less_induct)
  case (less n)
  show ?case
  proof (cases "n = 0")
    case True
    with less.prems show ?thesis by (auto simp: ReadFully_loop.simps [of _ 0])
  next
    case False
    obtain r1 fd1 w1 where rd: "sys_read (Some (p, off)) n w = ((r1, fd1), w1)" by (metis surj_pair)
    obtain bs where r1: "r1 = Some bs"
      using less.prems rd False by (cases r1) (auto simp: ReadFully_loop.simps [of _ n])
    have "\<exists>k \<le> n. bs = take k (drop off (data w p)) \<and> fd1 = Some (p, off + length bs) \<and> content w1 = content w"
      by (rule sys_read_cases [OF rd]) (auto simp: r1 min.commute)
    then obtain k where k: "k \<le> n" "bs = take k (drop off (data w p))" "fd1 = Some (p, off + length bs)"
      "content w1 = content w" by blast
    show ?thesis
    proof (cases "bs = []")
      case True
      with less.prems rd r1 k False show ?thesis
        by (auto simp: ReadFully_loop.simps [of _ n] intro!: exI [of _ 0])
    next
      case ne: False
      have run: "ReadFully_loop (Some (p, off + length bs)) (n - length bs) (acc @ bs) w1 = ((Some r, fd'), w')"
        using less.prems rd r1 k(3) False ne by (simp add: ReadFully_loop.simps [of _ n])
      have "n - length bs < n" using False ne by simp
      from less.IH [OF this run] k(4) obtain j where j: "j \<le> n - length bs"
        "r = (acc @ bs) @ take j (drop (off + length bs) (data w p))"
        "fd' = Some (p, off + length bs + length (take j (drop (off + length bs) (data w p))))" by auto
      let ?d = "drop off (data w p)"
      have tk: "take (length bs) ?d = bs" unfolding k(2) by (simp add: min_def)
      have dr: "drop (off + length bs) (data w p) = drop (length bs) ?d" by (simp add: add.commute)
      have cat: "bs @ take j (drop (length bs) ?d) = take (length bs + j) ?d"
        using take_add [of "length bs" j ?d] unfolding tk by simp
      have "length bs \<le> n" using k(1,2) by simp
      then have le: "length bs + j \<le> n" using j(1) by linarith
      have "r = acc @ take (length bs + j) ?d"
        using j(2) unfolding dr append_assoc cat .
      moreover have "fd' = Some (p, off + length (take (length bs + j) ?d))"
        using j(3) unfolding dr cat [symmetric] by simp
      ultimately show ?thesis using le by blast
    qed
  qed
qed

lemma ReadFully_V4_any:
  assumes "ReadFully_V4 (Some (p, off)) n w = ((Some r, fd'), w')"
  shows "\<exists>k \<le> n. r = take k (drop off (data w p)) \<and> fd' = Some (p, off + length r)"
  using assms ReadFully_loop_any [of p off n "[]" w r fd' w']
  by (auto simp: ReadFully_V4_def split: if_splits)

subsection \<open>FileUtils\<close>

declare Exist_def [simp] Open_def [simp]

lemma Unlink_frame [simp]:
  "is_dir (snd (Unlink p w)) = is_dir w"
  "s_LockingFiles (snd (Unlink p w)) = s_LockingFiles w"
  "wf_world w \<Longrightarrow> wf_world (snd (Unlink p w))"
  "reliable w \<Longrightarrow> reliable (snd (Unlink p w))"
  by (simp_all add: Unlink_def split_beta split: bool.split)

lemma Unlink_done [simp]:
  assumes "reliable w"
  shows "fst (Unlink p w) = (\<not> is_dir w p)"
    and "content (snd (Unlink p w)) = (if is_dir w p then content w else (content w)(p := None))"
  using assms by (auto simp: Unlink_def split_beta fun_upd_idem_iff split: bool.split)

lemma Unlink_any_schedule:
  "content (snd (Unlink p w)) = content w \<or> content (snd (Unlink p w)) = (content w)(p := None)"
proof -
  have "content (snd (sys_unlink p w)) = content w \<or> content (snd (sys_unlink p w)) = (content w)(p := None)" for w
    by (auto simp: sys_unlink_def syscall_def split: list.splits sysev.splits option.splits)
  then show ?thesis by (simp add: Unlink_def split_beta split: bool.split) (metis content_sys(1))
qed

lemma GetFileSize_frame [simp]:
  "content (snd (GetFileSize p w)) = content w"
  "is_dir (snd (GetFileSize p w)) = is_dir w"
  "s_LockingFiles (snd (GetFileSize p w)) = s_LockingFiles w"
  "wf_world w \<Longrightarrow> wf_world (snd (GetFileSize p w))"
  "reliable w \<Longrightarrow> reliable (snd (GetFileSize p w))"
  by (simp_all add: GetFileSize_def split_beta split: option.split file_stat.split)

lemma GetFileSize_done [simp]:
  "reliable w \<Longrightarrow> fst (GetFileSize p w) = (if is_dir w p then Some 0 else map_option length (content w p))"
  by (simp add: GetFileSize_def split_beta split: option.split file_stat.split)

lemma GetFileSize_fd_frame [simp]:
  "content (snd (GetFileSize_fd fd w)) = content w"
  "is_dir (snd (GetFileSize_fd fd w)) = is_dir w"
  "s_LockingFiles (snd (GetFileSize_fd fd w)) = s_LockingFiles w"
  "wf_world w \<Longrightarrow> wf_world (snd (GetFileSize_fd fd w))"
  "reliable w \<Longrightarrow> reliable (snd (GetFileSize_fd fd w))"
  by (simp_all add: GetFileSize_fd_def)

lemma GetFileSize_fd_done [simp]:
  "reliable w \<Longrightarrow> fst (GetFileSize_fd (Some (p, off)) w) =
     Some (length (case content w p of None \<Rightarrow> [] | Some c \<Rightarrow> c))"
  by (simp add: GetFileSize_fd_def)

lemma CollectFileChildren_loop_frame:
  "content (snd (CollectFileChildren_loop ps flt rs w)) = content w \<and>
   is_dir (snd (CollectFileChildren_loop ps flt rs w)) = is_dir w \<and>
   (wf_world w \<longrightarrow> wf_world (snd (CollectFileChildren_loop ps flt rs w))) \<and>
   (reliable w \<longrightarrow> reliable (snd (CollectFileChildren_loop ps flt rs w)))"
  by (induction ps arbitrary: rs w) (simp_all add: split_beta split: option.split file_stat.split)

lemma CollectFileChildren_loop_done:
  assumes "reliable w" "\<forall>p \<in> set ps. is_dir w p \<or> content w p \<noteq> None"
  shows "fst (CollectFileChildren_loop ps flt rs w) = (ENONE, rs @ filter (\<lambda>p. \<not> is_dir w p \<and> flt p) ps)"
  using assms
  by (induction ps arbitrary: rs w) (auto simp: split_beta split: option.split)

lemma CollectFileChildren_frame [simp]:
  "content (snd (CollectFileChildren d flt w)) = content w"
  "is_dir (snd (CollectFileChildren d flt w)) = is_dir w"
  "wf_world w \<Longrightarrow> wf_world (snd (CollectFileChildren d flt w))"
  "reliable w \<Longrightarrow> reliable (snd (CollectFileChildren d flt w))"
  by (simp_all add: CollectFileChildren_def split_beta CollectFileChildren_loop_frame split: option.split)

lemma parent_Nil [simp]: "parent [] = []"
  by (simp add: parent_def)

text \<open>On a reliable schedule the collected children are exactly the matching regular files.\<close>

lemma CollectFileChildren_done:
  assumes "reliable w" "wf_world w" "is_dir w d"
  shows "\<exists>rs. fst (CollectFileChildren d flt w) = (ENONE, rs) \<and> distinct rs \<and>
           set rs = {p. content w p \<noteq> None \<and> parent p = d \<and> flt p}"
proof -
  let ?ps = "filter (\<lambda>p. parent p = d) (map fst (w_files w) @ w_dirs w)"
  let ?rs = "filter (\<lambda>p. \<not> is_dir w p \<and> flt p) ?ps"
  have d: "d \<noteq> []" using assms(3) by (simp add: is_dir_def)
  have dom: "content w p \<noteq> None \<longleftrightarrow> p \<in> set (map fst (w_files w))" for p
    by (simp add: content_def map_of_eq_None_iff del: not_None_eq)
  have dirs: "p \<in> set (w_dirs w) \<Longrightarrow> parent p = d \<Longrightarrow> is_dir w p" for p
    using d by (auto simp: is_dir_def)
  have all: "\<forall>p \<in> set ?ps. is_dir w p \<or> content w p \<noteq> None"
    using dirs dom by auto
  have "fst (CollectFileChildren d flt w) = (ENONE, ?rs)"
    using assms all CollectFileChildren_loop_done [of "snd (sys_readdir d w)" ?ps flt "[]"]
    by (simp add: CollectFileChildren_def split_beta del: filter_append)
  moreover have "?rs = filter (\<lambda>p. parent p = d \<and> \<not> is_dir w p \<and> flt p) (map fst (w_files w))"
    using dirs by (auto simp: filter_empty_conv intro!: filter_cong)
  moreover have "p \<in> set (map fst (w_files w)) \<Longrightarrow> \<not> is_dir w p" for p
    using assms(2) dom unfolding wf_world_def by blast
  ultimately show ?thesis
    using assms(2) dom by (auto simp: wf_world_def)
qed

subsection \<open>Steps that leave the disk alone\<close>

definition quiet :: "world \<Rightarrow> world \<Rightarrow> bool" where
  "quiet w w' = (content w' = content w \<and> is_dir w' = is_dir w \<and>
    (reliable w \<longrightarrow> reliable w') \<and> (wf_world w \<longrightarrow> wf_world w'))"

lemma quiet_refl [simp]: "quiet w w"
  by (simp add: quiet_def)

lemma quiet_trans [trans]: "quiet w w' \<Longrightarrow> quiet w' w'' \<Longrightarrow> quiet w w''"
  by (simp add: quiet_def)

lemma quietD:
  assumes "quiet w w'"
  shows "content w' = content w" "is_dir w' = is_dir w" "reliable w \<Longrightarrow> reliable w'" "wf_world w \<Longrightarrow> wf_world w'"
  using assms by (simp_all add: quiet_def)

lemma quiet_sys [simp]:
  "quiet w (snd (sys_access p w))" "quiet w (snd (sys_stat p w))" "quiet w (snd (sys_lseek fd i w))"
  "quiet w (snd (sys_lseek_cur fd n w))" "quiet w (snd (sys_fstat_size fd w))" "quiet w (snd (sys_close fd w))"
  "quiet w (snd (sys_fdatasync fd w))" "quiet w (snd (ReadAllString p w))" "quiet w (snd (GetFileSize p w))"
  "quiet w (snd (GetFileSize_fd fd w))" "quiet w (snd (CollectFileChildren d flt w))" "quiet w (set_errno e w)"
  by (simp_all add: quiet_def)

lemma quiet_ReadFully_V4 [simp]:
  "content w p \<noteq> None \<Longrightarrow> quiet w (snd (ReadFully_V4 (Some (p, off)) n w))"
  by (auto simp: quiet_def)

lemma quiet_open_existing:
  "reliable w \<Longrightarrow> content w p \<noteq> None \<Longrightarrow> quiet w (snd (sys_open p cr False w))"
  by (auto simp: quiet_def)

lemma parent_append: "CHR ''/'' \<notin> set s \<Longrightarrow> parent (d @ ''/'' @ s) = d"
  unfolding parent_def by (simp, subst dropWhile_append2) auto

subsection \<open>A directory that is already there\<close>

definition dir_ready :: "world \<Rightarrow> path \<Rightarrow> bool" where
  "dir_ready w root =
    (path_buffer root = root \<and> is_dir w root \<and> (\<forall>d \<in> set (dir_prefixes root). is_dir w d))"

lemma CreateDir_existing:
  assumes "reliable w" "is_dir w d"
  shows "fst (CreateDir d w)" "content (snd (CreateDir d w)) = content w"
    "is_dir (snd (CreateDir d w)) = is_dir w" "reliable (snd (CreateDir d w))"
    "wf_world w \<Longrightarrow> wf_world (snd (CreateDir d w))"
  using assms by (simp_all add: CreateDir_def split_beta)

lemma CreateDir_all_existing:
  assumes "reliable w" "\<forall>d \<in> set ds. is_dir w d"
  shows "fst (CreateDir_all ds w) \<and> content (snd (CreateDir_all ds w)) = content w \<and>
    is_dir (snd (CreateDir_all ds w)) = is_dir w \<and> reliable (snd (CreateDir_all ds w)) \<and>
    (wf_world w \<longrightarrow> wf_world (snd (CreateDir_all ds w)))"
  using assms
proof (induction ds arbitrary: w)
  case (Cons d ds)
  have d: "is_dir w d" using Cons.prems by simp
  note e = CreateDir_existing [OF Cons.prems(1) d]
  have "\<forall>d' \<in> set ds. is_dir (snd (CreateDir d w)) d'" using Cons.prems e by simp
  from Cons.IH [OF e(4) this] e show ?case by (simp add: split_beta)
qed simp

lemma CreateDirPath_ready:
  assumes "reliable w" "dir_ready w root"
  shows "fst (CreateDirPath root w)" "content (snd (CreateDirPath root w)) = content w"
    "is_dir (snd (CreateDirPath root w)) = is_dir w" "reliable (snd (CreateDirPath root w))"
    "wf_world w \<Longrightarrow> wf_world (snd (CreateDirPath root w))"
proof -
  have pb: "path_buffer root = root" and dir: "is_dir w root" and pre: "\<forall>d \<in> set (dir_prefixes root). is_dir w d"
    using assms(2) by (auto simp: dir_ready_def)
  let ?w = "snd (CreateDir_all (dir_prefixes root) w)"
  note a = CreateDir_all_existing [OF assms(1) pre]
  have "reliable ?w" "is_dir ?w root" using a dir by simp_all
  note e = CreateDir_existing [OF this]
  from a e pb show "fst (CreateDirPath root w)" "content (snd (CreateDirPath root w)) = content w"
    "is_dir (snd (CreateDirPath root w)) = is_dir w" "reliable (snd (CreateDirPath root w))"
    "wf_world w \<Longrightarrow> wf_world (snd (CreateDirPath root w))"
    by (simp_all add: CreateDirPath_def split_beta Let_def)
qed

end
