(* ===== verification/Entry.thy ===== *)
theory Entry
  imports Prelude
begin

text \<open>
  The interface of the entries the log and the checkpoint store (common/ientry.h), as a record of the
  client's functions.
\<close>

text \<open>
  The entry interface (common/ientry.h): \<open>Encode\<close> fails with None; \<open>Create\<close> is the client's
  EntryCreateHandler, which sees the memory from the content on and may return a null pointer
  (None); \<open>Decode\<close> fills a created entry from the content.
\<close>

record 'e entry_ops =
  Encode :: "'e \<Rightarrow> bytes option"
  Create :: "bytes \<Rightarrow> 'e option"
  Decode :: "'e \<Rightarrow> bytes \<Rightarrow> 'e option"

text \<open>The creator may look at the type byte of the content only.\<close>

definition create_local :: "'e entry_ops \<Rightarrow> bool" where
  "create_local ops = (\<forall>m m'. m \<noteq> [] \<longrightarrow> m' \<noteq> [] \<longrightarrow> hd m = hd m' \<longrightarrow> Create ops m = Create ops m')"

lemma create_localD: "create_local ops \<Longrightarrow> m \<noteq> [] \<Longrightarrow> Create ops (m @ m') = Create ops m"
  unfolding create_local_def by (elim allE [of _ "m @ m'"] allE [of _ m]) simp

definition decode_entry :: "'e entry_ops \<Rightarrow> bytes \<Rightarrow> 'e option" where
  "decode_entry ops cnt = (case Create ops cnt of None \<Rightarrow> None | Some b \<Rightarrow> Decode ops b cnt)"

text \<open>What a stored entry comes back as: the entry Decode builds from the bytes Encode gave.\<close>

definition stored :: "'e entry_ops \<Rightarrow> 'e \<Rightarrow> 'e" where
  "stored ops e = (case Encode ops e of None \<Rightarrow> e | Some cnt \<Rightarrow> (case decode_entry ops cnt of None \<Rightarrow> e | Some d \<Rightarrow> d))"

text \<open>What the readers of log and checkpoint rely on.\<close>

locale local_entries =
  fixes ops :: "'e entry_ops"
  assumes local_creator: "create_local ops"

text \<open>Entries that are their own encoding: the instance the examples use.\<close>

definition plain_ops :: "bytes entry_ops" where
  "plain_ops = \<lparr>Encode = Some, Create = (\<lambda>_. Some []), Decode = (\<lambda>_ c. Some c)\<rparr>"

lemma plain_local: "create_local plain_ops"
  by (simp add: create_local_def plain_ops_def)

end
