(* ===== verification/Wal.thy ===== *)
theory Wal
  imports Codec NumText FileLaws Entry
begin

text \<open>
  The write-ahead log of wal/wals/log-clean-wal.cc: the object's members as a record, one
  definition per method, the entry codec of the client as a record of functions.  Methods take the
  object and the world and return the result code, the object and the world after the call.
\<close>

subsection \<open>Result codes, constants, entries\<close>

text \<open>
  The codes of wal/errors.h.  \<open>W_Undefined\<close> is not a code of the source: it marks the runs in which
  the C++ code has no defined result (it reads outside a buffer, dereferences a null entry, or loops
  without end).
\<close>

datatype wal_code = W_OK | W_Uninited | W_Unloaded | W_FileCorrupt | W_FileMameCorrupt
  | W_FileSystemError | W_EncodeEntryError | W_DecodeEntryError | W_EntryBytesSizeOverflow
  | W_InvalidEntryId | W_Undefined

definition LOGCLEAN_WAL_MAGIC_NO :: u32 where "LOGCLEAN_WAL_MAGIC_NO = 0x736d6c67"
definition LOGCLEAN_WAL_SEGMENT_PREFIX_NAME :: string where
  "LOGCLEAN_WAL_SEGMENT_PREFIX_NAME = ''lclog.segment''"
definition LOGCLEAN_WAL_TRUNC_OK_NAME :: string where
  "LOGCLEAN_WAL_TRUNC_OK_NAME = ''lclog.trunc.ok''"
definition LOGCLEAN_WAL_TRUNC_META_NAME :: string where
  "LOGCLEAN_WAL_TRUNC_META_NAME = ''lclog.truncmeta''"

abbreviation (input) LOGCLEAN_WAL_MAGIC_NO_LEN :: nat where "LOGCLEAN_WAL_MAGIC_NO_LEN \<equiv> 4"
abbreviation (input) LOGCLEAN_WAL_START_POS_LEN :: nat where "LOGCLEAN_WAL_START_POS_LEN \<equiv> 4"
abbreviation (input) LOGCLEAN_WAL_ENTRY_ID_OFFSET :: nat where "LOGCLEAN_WAL_ENTRY_ID_OFFSET \<equiv> 5"
abbreviation (input) LOGCLEAN_WAL_ENTRY_HEADER_LEN :: nat where "LOGCLEAN_WAL_ENTRY_HEADER_LEN \<equiv> 13"
abbreviation (input) LOGCLEAN_WAL_CONTENT_OFFSET :: nat where "LOGCLEAN_WAL_CONTENT_OFFSET \<equiv> 13"
abbreviation (input) LOGCLEAN_WAL_ENTRY_EXTRA_FIELDS_SIZE :: nat where
  "LOGCLEAN_WAL_ENTRY_EXTRA_FIELDS_SIZE \<equiv> 17"

record LogCleanWalConfig =
  RootDirPath :: path
  WriteEntryVersion :: byte
  MaxSegmentSize :: u32
  ReadBatchSize :: u32

record LogCleanWal =
  m_sRootDir :: path
  m_mpEntriesIdSegId :: "u64 \<rightharpoonup> u64"
  m_lastTruncMaxIdx :: u64
  m_currentEntryIdx :: u64
  m_currentSegFd :: fd
  m_currentSegFilePath :: path
  m_curSegFileSize :: u32
  m_bLoaded :: bool
  m_bInited :: bool
  m_currentSegmentId :: u64
  m_minSegmentId :: u64
  m_sTruncOKFlagFilePath :: path
  m_sTruncInfoFilePath :: path
  m_vInitSegments :: "(u64 \<times> path) list"
  m_writeEntryVersion :: byte
  m_segmentMaxSize :: u32
  m_batchReadSize :: u32
  m_maxEntrySize :: u32

text \<open>The constructor; None is the abort of the fatal log message.\<close>

definition LogCleanWal_ctor :: "LogCleanWalConfig \<Rightarrow> LogCleanWal option" where
  "LogCleanWal_ctor pc =
    (if MaxSegmentSize pc < 17 then None
     else if ReadBatchSize pc < 17 then None
     else Some \<lparr>m_sRootDir = RootDirPath pc, m_mpEntriesIdSegId = Map.empty, m_lastTruncMaxIdx = 1,
       m_currentEntryIdx = 1, m_currentSegFd = None, m_currentSegFilePath = [], m_curSegFileSize = 0,
       m_bLoaded = False, m_bInited = False, m_currentSegmentId = 0, m_minSegmentId = 0,
       m_sTruncOKFlagFilePath = RootDirPath pc @ ''/'' @ LOGCLEAN_WAL_TRUNC_OK_NAME,
       m_sTruncInfoFilePath = RootDirPath pc @ ''/'' @ LOGCLEAN_WAL_TRUNC_META_NAME,
       m_vInitSegments = [], m_writeEntryVersion = WriteEntryVersion pc,
       m_segmentMaxSize = MaxSegmentSize pc, m_batchReadSize = ReadBatchSize pc,
       m_maxEntrySize = ReadBatchSize pc - 17\<rparr>)"

text \<open>The destructor closes the current segment.\<close>

definition LogCleanWal_dtor :: "LogCleanWal \<Rightarrow> world \<Rightarrow> LogCleanWal \<times> world" where
  "LogCleanWal_dtor st w =
    (if m_currentSegFd st \<noteq> None
     then let (_, w) = sys_close (m_currentSegFd st) w in (st\<lparr>m_currentSegFd := None\<rparr>, w)
     else (st, w))"

text \<open>
  \<open>for (uint64_t i = a; i <= b; ++i)\<close>: the values of \<open>i\<close>; None when the loop has no end.
\<close>

definition u64_range :: "u64 \<Rightarrow> u64 \<Rightarrow> u64 list option" where
  "u64_range a b = (if b = -1 then None else Some (map word_of_nat [unat a ..< Suc (unat b)]))"

subsection \<open>File names\<close>

definition generate_segment_file_path :: "LogCleanWal \<Rightarrow> u64 \<Rightarrow> path" where
  "generate_segment_file_path st i =
    m_sRootDir st @ ''/'' @ LOGCLEAN_WAL_SEGMENT_PREFIX_NAME @ ''.'' @ ToString i"

text \<open>\<open>p.find(pat) != npos\<close> and \<open>c.substr(c.rfind('.') + 1)\<close>.\<close>

fun str_find :: "string \<Rightarrow> string \<Rightarrow> bool" where
  "str_find pat [] = (pat = [])"
| "str_find pat (c # cs) = (take (length pat) (c # cs) = pat \<or> str_find pat cs)"

definition after_last_dot :: "string \<Rightarrow> string" where
  "after_last_dot c = rev (takeWhile (\<lambda>x. x \<noteq> CHR ''.'') (rev c))"

fun parse_segment_ids :: "path list \<Rightarrow> errno \<Rightarrow> (u64 \<times> path) list option \<times> errno" where
  "parse_segment_ids [] er = (Some [], er)"
| "parse_segment_ids (c # cs) er =
    (case ToUint46_t (after_last_dot c) er of
       ((False, _), er) \<Rightarrow> (None, er)
     | ((True, i), er) \<Rightarrow>
         (case parse_segment_ids cs er of
            (None, er) \<Rightarrow> (None, er)
          | (Some rs, er) \<Rightarrow> (Some ((i, c) # rs), er)))"

definition list_segments_asc :: "LogCleanWal \<Rightarrow> world \<Rightarrow> (wal_code + (u64 \<times> path) list) \<times> world" where
  "list_segments_asc st w =
    (let ((rc, children), w) =
        CollectFileChildren (m_sRootDir st) (str_find LOGCLEAN_WAL_SEGMENT_PREFIX_NAME) w
     in if rc \<noteq> ENONE then (Inl W_FileSystemError, w)
        else case parse_segment_ids children (w_errno w) of
            (None, er) \<Rightarrow> (Inl W_FileMameCorrupt, set_errno er w)
          | (Some rs, er) \<Rightarrow> (Inr (sort_key fst rs), set_errno er w))"

definition get_uncompleted_trunc_segments_max_id :: "LogCleanWal \<Rightarrow> world \<Rightarrow> u64 \<times> world" where
  "get_uncompleted_trunc_segments_max_id st w =
    (let (ok_flag, w) = Exist (m_sTruncOKFlagFilePath st) w in
     if ok_flag then (0, w)
     else let (info, w) = Exist (m_sTruncInfoFilePath st) w in
     if \<not> info then (0, w)
     else let (idStr, w) = ReadAllString (m_sTruncInfoFilePath st) w in
     if idStr = [] then (0, w)
     else case ToUint46_t idStr (w_errno w) of
         ((False, _), er) \<Rightarrow> (0, set_errno er w)
       | ((True, entryId), er) \<Rightarrow> (entryId, set_errno er w))"

definition clean_trunc_status :: "LogCleanWal \<Rightarrow> world \<Rightarrow> wal_code \<times> world" where
  "clean_trunc_status st w =
    (let (e1, w) = Exist (m_sTruncInfoFilePath st) w;
         (r1, w) = (if e1 then sys_unlink (m_sTruncInfoFilePath st) w else (True, w))
     in if \<not> r1 then (W_FileSystemError, w)
        else let (e2, w) = Exist (m_sTruncOKFlagFilePath st) w;
                 (r2, w) = (if e2 then sys_unlink (m_sTruncOKFlagFilePath st) w else (True, w))
             in if \<not> r2 then (W_FileSystemError, w) else (W_OK, w))"

subsection \<open>Segments\<close>

definition create_new_segment_file :: "LogCleanWal \<Rightarrow> world \<Rightarrow> wal_code \<times> LogCleanWal \<times> world" where
  "create_new_segment_file st w =
    (let (closed, w) = (if m_currentSegFd st \<noteq> None then sys_close (m_currentSegFd st) w else (True, w))
     in if \<not> closed then (W_FileSystemError, st, w)
        else
          let st = st\<lparr>m_currentSegmentId := m_currentSegmentId st + 1\<rparr>;
              fp = generate_segment_file_path st (m_currentSegmentId st);
              (fd, w) = Open fp True False w;
              st = st\<lparr>m_currentSegFd := fd, m_currentSegFilePath := fp\<rparr>
          in if fd = None then (W_FileSystemError, st, w)
             else
               let header = WriteUInt32 (replicate LOGCLEAN_WAL_MAGIC_NO_LEN 0) LOGCLEAN_WAL_MAGIC_NO;
                   ((n, fd), w) = WriteFully fd header w;
                   st = st\<lparr>m_currentSegFd := fd\<rparr>
               in if n = None then (W_FileSystemError, st, w)
                  else (W_OK, st\<lparr>m_curSegFileSize := 4\<rparr>, w))"

definition create_trunc_info :: "LogCleanWal \<Rightarrow> u64 \<Rightarrow> world \<Rightarrow> wal_code \<times> world" where
  "create_trunc_info st segId w =
    (let (fd, w) = Open (m_sTruncInfoFilePath st) True True w
     in if fd = None then (W_FileSystemError, w)
        else
          let ((n, fd), w) = WriteFully fd (bytes_of_string (ToString segId)) w;
              (_, w) = sys_close fd w
          in if n = None then (W_FileSystemError, w) else (W_OK, w))"

definition create_trunc_ok_flag :: "LogCleanWal \<Rightarrow> world \<Rightarrow> wal_code \<times> world" where
  "create_trunc_ok_flag st w =
    (let (fd, w) = Open (m_sTruncOKFlagFilePath st) True False w
     in if fd = None then (W_FileSystemError, w)
        else let (closed, w) = sys_close fd w
             in if closed then (W_OK, w) else (W_FileSystemError, w))"

text \<open>The deletion loop of Init over the segments of an uncompleted truncation.\<close>

fun unlink_segments :: "LogCleanWal \<Rightarrow> u64 list \<Rightarrow> world \<Rightarrow> bool \<times> world" where
  "unlink_segments st [] w = (True, w)"
| "unlink_segments st (i # is) w =
    (case Unlink (generate_segment_file_path st i) w of
       (False, w) \<Rightarrow> (False, w)
     | (True, w) \<Rightarrow> unlink_segments st is w)"

subsection \<open>Init\<close>

text \<open>
  The deletion of the segments of an uncompleted truncation (the branch of Init under
  \<open>LOGCLEAN_WAL_INVALID_SEGMENT_ID != maxTruncUncompletedSegId\<close>).  With no segment left the code
  cleans the truncation state and then still reads \<open>Segments[0]\<close>.
\<close>

definition Init_finish_trunc ::
    "LogCleanWal \<Rightarrow> u64 \<Rightarrow> (u64 \<times> path) list \<Rightarrow> world \<Rightarrow> (wal_code + (u64 \<times> path) list) \<times> world" where
  "Init_finish_trunc st maxId segs w =
    (if maxId = 0 then (Inr segs, w)
     else if segs = [] then
       (case clean_trunc_status st w of
          (W_OK, w) \<Rightarrow> (Inl W_Undefined, w)
        | (rc, w) \<Rightarrow> (Inl rc, w))
     else case u64_range (fst (hd segs)) maxId of
         None \<Rightarrow> (Inl W_Undefined, w)
       | Some is \<Rightarrow>
           (case unlink_segments st is w of
              (False, w) \<Rightarrow> (Inl W_FileSystemError, w)
            | (True, w) \<Rightarrow> (Inr (filter (\<lambda>s. \<not> fst s \<le> maxId) segs), w)))"

text \<open>The last part of Init: choose the current segment, open it and seek to its end.\<close>

definition Init_open_current ::
    "LogCleanWal \<Rightarrow> (u64 \<times> path) list \<Rightarrow> world \<Rightarrow> wal_code \<times> LogCleanWal \<times> world" where
  "Init_open_current st segs w =
    (let (rc, st, w) =
        (if segs = []
         then create_new_segment_file (st\<lparr>m_minSegmentId := 1, m_currentSegmentId := 0\<rparr>) w
         else (W_OK, st\<lparr>m_minSegmentId := fst (hd segs), m_currentSegmentId := fst (last segs)\<rparr>, w))
     in if rc \<noteq> W_OK then (rc, st, w)
        else
          let st = st\<lparr>m_vInitSegments := segs\<rparr>;
              fp = generate_segment_file_path st (m_currentSegmentId st);
              (fd, w) = Open fp True False w
          in if fd = None then (W_FileSystemError, st, w)
             else
               let st = st\<lparr>m_currentSegFd := fd, m_currentSegFilePath := fp\<rparr>;
                   (sz, w) = GetFileSize_fd fd w;
                   ((ok, fd), w) = sys_lseek fd (case sz of None \<Rightarrow> -1 | Some n \<Rightarrow> int n) w;
                   st = st\<lparr>m_currentSegFd := fd\<rparr>
               in if ok then (W_OK, st, w) else (W_FileSystemError, st, w))"

text \<open>Every return of Init sets \<open>m_bInited\<close> (the scope guard), whatever the result.\<close>

definition Init :: "LogCleanWal \<Rightarrow> world \<Rightarrow> wal_code \<times> LogCleanWal \<times> world" where
  "Init st w =
    (let st = st\<lparr>m_bInited := True\<rparr>;
         (dir, w) = CreateDirPath (m_sRootDir st) w
     in if \<not> dir then (W_FileSystemError, st, w)
        else
          let (maxId, w) = get_uncompleted_trunc_segments_max_id st w;
              (lsa, w) = list_segments_asc st w
          in case lsa of
               Inl rc \<Rightarrow> (rc, st, w)
             | Inr segs \<Rightarrow>
                 (case Init_finish_trunc st maxId segs w of
                    (Inl rc, w) \<Rightarrow> (rc, st, w)
                  | (Inr segs, w) \<Rightarrow>
                      (case clean_trunc_status st w of
                         (W_OK, w) \<Rightarrow> Init_open_current st segs w
                       | (rc, w) \<Rightarrow> (rc, st, w))))"

subsection \<open>AppendEntry\<close>

text \<open>The bytes AppendEntry puts into the buffer \<open>wb\<close>, front to back.\<close>

definition wal_entry_bytes :: "byte \<Rightarrow> u64 \<Rightarrow> bytes \<Rightarrow> u32 \<Rightarrow> bytes" where
  "wal_entry_bytes version i cnt startPos =
    WriteUInt32 (replicate 4 0) (word_of_nat (length cnt)) @ [version] @
    WriteUInt64 (replicate 8 0) i @ cnt @ WriteUInt32 (replicate 4 0) startPos"

definition AppendEntry ::
    "'e entry_ops \<Rightarrow> LogCleanWal \<Rightarrow> 'e \<Rightarrow> world \<Rightarrow> (wal_code + u64) \<times> LogCleanWal \<times> world" where
  "AppendEntry ops st e w =
    (if \<not> m_bInited st then (Inl W_Uninited, st, w)
     else if \<not> m_bLoaded st then (Inl W_Unloaded, st, w)
     else case Encode ops e of
         None \<Rightarrow> (Inl W_EncodeEntryError, st, w)
       | Some eb \<Rightarrow>
           let walEntryStartOffset = m_curSegFileSize st;
               rawEntrySize = (word_of_nat (length eb) :: u32);
               walEntrySize = rawEntrySize + 17
           in if 2 ^ 32 \<le> length eb + 17 then (Inl W_Undefined, st, w)
              else if walEntrySize > m_maxEntrySize st then (Inl W_EntryBytesSizeOverflow, st, w)
              else
                let st = st\<lparr>m_currentEntryIdx := m_currentEntryIdx st + 1\<rparr>;
                    wb = wal_entry_bytes (m_writeEntryVersion st) (m_currentEntryIdx st) eb walEntryStartOffset;
                    ((n, fd), w) = WriteFully (m_currentSegFd st) wb w;
                    st = st\<lparr>m_currentSegFd := fd\<rparr>
                in if n = None then (Inl W_FileSystemError, st, w)
                   else
                     let (synced, w) = sys_fdatasync fd w
                     in if \<not> synced then (Inl W_FileSystemError, st, w)
                        else
                          let st = st\<lparr>m_curSegFileSize := m_curSegFileSize st + walEntrySize,
                                m_mpEntriesIdSegId :=
                                  (m_mpEntriesIdSegId st)(m_currentEntryIdx st \<mapsto> m_currentSegmentId st)\<rparr>
                          in if m_curSegFileSize st \<ge> m_segmentMaxSize st
                             then case create_new_segment_file st w of
                                 (W_OK, st, w) \<Rightarrow> (Inr (m_currentEntryIdx st), st, w)
                               | (rc, st, w) \<Rightarrow> (Inl rc, st, w)
                             else (Inr (m_currentEntryIdx st), st, w))"

subsection \<open>Truncate and Size\<close>

definition load_segment_max_entry_id :: "path \<Rightarrow> world \<Rightarrow> (wal_code + u64) \<times> world" where
  "load_segment_max_entry_id fp w =
    (let (fd, w) = Open fp False False w
     in if fd = None then (Inl W_FileSystemError, w)
        else
          let (fileSize, w) = GetFileSize_fd fd w;
              ((ok, fd), w) = sys_lseek fd ((case fileSize of None \<Rightarrow> -1 | Some n \<Rightarrow> int n) - 4) w
          in if \<not> ok then (Inl W_FileSystemError, snd (sys_close fd w))
             else
               let ((n, fd), w) = ReadFully_V4 fd LOGCLEAN_WAL_START_POS_LEN w
               in case n of None \<Rightarrow> (Inl W_FileSystemError, snd (sys_close fd w)) | Some b4 \<Rightarrow>
               let startPos = ReadUInt32 (zero_filled 4 b4);
                   ((ok, fd), w) = sys_lseek fd (uint startPos) w
               in if \<not> ok then (Inl W_FileSystemError, snd (sys_close fd w))
                  else
                    let ((n, fd), w) = ReadFully_V4 fd LOGCLEAN_WAL_ENTRY_HEADER_LEN w
                    in case n of None \<Rightarrow> (Inl W_FileSystemError, snd (sys_close fd w)) | Some hb \<Rightarrow>
                    let buffer = zero_filled LOGCLEAN_WAL_ENTRY_HEADER_LEN hb;
                        contentSize = ReadUInt32 buffer;
                        entryId = ReadUInt64 (drop LOGCLEAN_WAL_ENTRY_ID_OFFSET buffer);
                        ((ok, fd), w) = sys_lseek_cur fd (unat contentSize) w
                    in if \<not> ok then (Inl W_FileSystemError, snd (sys_close fd w))
                       else
                         let ((n, fd), w) = ReadFully_V4 fd LOGCLEAN_WAL_START_POS_LEN w;
                             w = snd (sys_close fd w)
                         in case n of None \<Rightarrow> (Inl W_FileSystemError, w) | Some b4 \<Rightarrow>
                            if startPos = ReadUInt32 (zero_filled 4 b4) then (Inr entryId, w)
                            else (Inl W_FileCorrupt, w))"

text \<open>
  The deletion loop of Truncate: before the last segment of the range is unlinked, its highest
  entry id is read.
\<close>

fun Truncate_loop :: "LogCleanWal \<Rightarrow> u64 \<Rightarrow> u64 list \<Rightarrow> u64 \<Rightarrow> world \<Rightarrow> (wal_code + u64) \<times> world" where
  "Truncate_loop st maxSeg [] maxClean w = (Inr maxClean, w)"
| "Truncate_loop st maxSeg (i # is) maxClean w =
    (let fp = generate_segment_file_path st i;
         (lrs, w) = (if i = maxSeg then load_segment_max_entry_id fp w else (Inr maxClean, w))
     in case lrs of
          Inl rc \<Rightarrow> (Inl rc, w)
        | Inr maxClean \<Rightarrow>
            (case Unlink fp w of
               (False, w) \<Rightarrow> (Inl W_FileSystemError, w)
             | (True, w) \<Rightarrow> Truncate_loop st maxSeg is maxClean w))"

definition erase_entries :: "u64 list \<Rightarrow> (u64 \<rightharpoonup> u64) \<Rightarrow> (u64 \<rightharpoonup> u64)" where
  "erase_entries is m = fold (\<lambda>i m. m(i := None)) is m"

text \<open>The end of Truncate, after the deletion loop.\<close>

definition Truncate_finish ::
    "LogCleanWal \<Rightarrow> u64 \<Rightarrow> u64 \<Rightarrow> world \<Rightarrow> wal_code \<times> LogCleanWal \<times> world" where
  "Truncate_finish st maxSeg maxClean w =
    (if maxClean = 0 then (W_OK, st\<lparr>m_minSegmentId := 1\<rparr>, w)
     else case u64_range (m_lastTruncMaxIdx st) maxClean of
         None \<Rightarrow> (W_Undefined, st, w)
       | Some is \<Rightarrow>
           let st = st\<lparr>m_mpEntriesIdSegId := erase_entries is (m_mpEntriesIdSegId st),
                 m_lastTruncMaxIdx := maxClean + 1, m_minSegmentId := maxSeg + 1\<rparr>
           in case create_trunc_ok_flag st w of
                (W_OK, w) \<Rightarrow> (let (rc, w) = clean_trunc_status st w in (rc, st, w))
              | (rc, w) \<Rightarrow> (rc, st, w))"

definition Truncate :: "LogCleanWal \<Rightarrow> u64 \<Rightarrow> world \<Rightarrow> wal_code \<times> LogCleanWal \<times> world" where
  "Truncate st i w =
    (if \<not> m_bInited st then (W_Uninited, st, w)
     else if \<not> m_bLoaded st then (W_Unloaded, st, w)
     else case m_mpEntriesIdSegId st i of
         None \<Rightarrow> (W_InvalidEntryId, st, w)
       | Some seg \<Rightarrow>
           let (rc, w) = create_trunc_info st i w
           in if rc \<noteq> W_OK then (rc, st, w)
              else
                let maxSeg = (if seg = m_currentSegmentId st then seg - 1 else seg);
                    (nextSegSize, w) = GetFileSize (generate_segment_file_path st (maxSeg + 1)) w
                in case nextSegSize of
                     None \<Rightarrow> (W_FileSystemError, st, w)
                   | Some n \<Rightarrow>
                       let maxSeg = (if n = LOGCLEAN_WAL_MAGIC_NO_LEN then maxSeg - 1 else maxSeg)
                       in case u64_range (m_minSegmentId st) maxSeg of
                            None \<Rightarrow> (W_Undefined, st, w)
                          | Some is \<Rightarrow>
                              (case Truncate_loop st maxSeg is 0 w of
                                 (Inl rc, w) \<Rightarrow> (rc, st, w)
                               | (Inr maxClean, w) \<Rightarrow> Truncate_finish st maxSeg maxClean w))"

fun Size_loop :: "(u64 \<times> path) list \<Rightarrow> u64 \<Rightarrow> world \<Rightarrow> (wal_code + u64) \<times> world" where
  "Size_loop [] acc w = (Inr acc, w)"
| "Size_loop (s # ss) acc w =
    (case GetFileSize (snd s) w of
       (None, w) \<Rightarrow> (Inl W_FileSystemError, w)
     | (Some n, w) \<Rightarrow> Size_loop ss (acc + word_of_nat n) w)"

definition Size :: "LogCleanWal \<Rightarrow> world \<Rightarrow> (wal_code + u64) \<times> world" where
  "Size st w =
    (case list_segments_asc st w of
       (Inl rc, w) \<Rightarrow> (Inl rc, w)
     | (Inr segs, w) \<Rightarrow> if segs = [] then (Inr 0, w) else Size_loop segs 0 w)"

subsection \<open>Loading a segment\<close>

text \<open>
  The inner loop of load_segment on the unread part \<open>rest\<close> of the buffer (leftover of the previous
  batch followed by the bytes just read).  \<open>ok\<close> tells that the file may have more bytes;
  \<open>segOff\<close> is \<open>segmentEntryOffset\<close>.  The result is an error, or the bytes left over for the next
  batch with the new offset; the entries of the batch and the object come with it.
\<close>

definition note_entry :: "u64 \<Rightarrow> u64 \<Rightarrow> LogCleanWal \<Rightarrow> LogCleanWal" where
  "note_entry segId entryId st =
    (let st = st\<lparr>m_mpEntriesIdSegId := (m_mpEntriesIdSegId st)(entryId \<mapsto> segId)\<rparr>;
         lastEntryId = entryId - 1;
         st = (if m_lastTruncMaxIdx st > lastEntryId then st\<lparr>m_lastTruncMaxIdx := lastEntryId\<rparr> else st)
     in st\<lparr>m_currentEntryIdx := entryId\<rparr>)"

function load_batch ::
    "'e entry_ops \<Rightarrow> u64 \<Rightarrow> bool \<Rightarrow> bytes \<Rightarrow> u32 \<Rightarrow> (u64 \<times> 'e) list \<Rightarrow> LogCleanWal
      \<Rightarrow> (wal_code + bytes \<times> u32) \<times> (u64 \<times> 'e) list \<times> LogCleanWal" where
  "load_batch ops segId ok rest segOff ents st =
    (if rest = [] then (Inr ([], segOff), ents, st)
     else
       let len = (if length rest < LOGCLEAN_WAL_ENTRY_HEADER_LEN then 0 else ReadUInt32 rest);
           walEntryLen = 17 + len;
           notEnoughOneEntry =
             (length rest < LOGCLEAN_WAL_ENTRY_HEADER_LEN \<or> length rest < unat walEntryLen)
       in if notEnoughOneEntry
          then (if \<not> ok then (Inl W_FileCorrupt, ents, st) else (Inr (rest, segOff), ents, st))
          else
            let startPosOffset = unat (13 + len)
            in if length rest < startPosOffset + 4 then (Inl W_Undefined, ents, st)
               else if ReadUInt32 (drop startPosOffset rest) \<noteq> segOff then (Inl W_FileCorrupt, ents, st)
               else if length rest < 17 + unat len \<or> 2 ^ 31 \<le> unat len then (Inl W_Undefined, ents, st)
               else
                 let entryId = ReadUInt64 (drop LOGCLEAN_WAL_ENTRY_ID_OFFSET rest);
                     mem = drop LOGCLEAN_WAL_CONTENT_OFFSET rest
                 in case Create ops mem of
                      None \<Rightarrow> (Inl W_Undefined, ents, st)
                    | Some blank \<Rightarrow>
                        (case Decode ops blank (take (unat len) mem) of
                           None \<Rightarrow> (Inl W_DecodeEntryError, ents, st)
                         | Some e \<Rightarrow>
                             load_batch ops segId ok (drop (unat (len + 17)) rest) (segOff + (len + 17))
                               (ents @ [(entryId, e)]) (note_entry segId entryId st)))"
  by pat_completeness auto
termination
proof (relation "measure (\<lambda>(ops, segId, ok, rest, segOff, ents, st). length rest)", goal_cases)
  case 1
  then show ?case by simp
next
  case (2 ops segId ok rest segOff ents st len walEntryLen notEnough startPosOffset entryId mem blank e)
  have "unat len < 2 ^ 31" using 2 by simp
  then have "unat (len + 17) = unat len + 17" by (intro unat_plus_no_wrap [of len 17, simplified]) simp
  with 2 show ?case by simp
qed

declare load_batch.simps [simp del]

text \<open>
  The outer loop of load_segment: read a batch behind the leftover bytes, parse it, hand the entries
  to the callback.  The callback's invocations are returned as the list of batches.
\<close>

function load_loop ::
    "'e entry_ops \<Rightarrow> u64 \<Rightarrow> path \<times> nat \<Rightarrow> bytes \<Rightarrow> u32 \<Rightarrow> (u64 \<times> 'e) list list \<Rightarrow> LogCleanWal \<Rightarrow> world
      \<Rightarrow> wal_code \<times> (u64 \<times> 'e) list list \<times> LogCleanWal \<times> world" where
  "load_loop ops segId (p, off) left segOff batches st w =
    (if 2 ^ 32 \<le> unat (m_batchReadSize st) + length left then (W_Undefined, batches, st, w)
     else
       case ReadFully_V4 (Some (p, off)) (unat (m_batchReadSize st)) w of
         ((None, _), w) \<Rightarrow> (W_FileSystemError, batches, st, w)
       | ((Some bs, fd), w) \<Rightarrow>
           if bs = [] then
             (if left \<noteq> [] then (W_FileCorrupt, batches, st, w) else (W_OK, batches, st, w))
           else
             let ok = (length bs = unat (m_batchReadSize st))
             in case load_batch ops segId ok (left @ bs) segOff [] st of
                  (Inl rc, _, st) \<Rightarrow> (rc, batches, st, w)
                | (Inr (left, segOff), ents, st) \<Rightarrow>
                    if ok then load_loop ops segId (p, off + length bs) left segOff (batches @ [ents]) st w
                    else (W_OK, batches @ [ents], st, w))"
  by pat_completeness auto
termination
proof (relation "measure (\<lambda>(ops, segId, (p, off), left, segOff, batches, st, w). length (data w p) - off)", goal_cases)
  case 1
  then show ?case by simp
next
  case (2 ops segId p off left segOff batches st w res w' r fd bs ok x y x2 left' segOff' ents st')
  have run: "ReadFully_V4 (Some (p, off)) (unat (m_batchReadSize st)) w = ((Some bs, fd), w')"
    using 2 by simp
  from ReadFully_V4_any [OF this] obtain k where k: "bs = take k (drop off (data w p))" by blast
  have "content w' = content w"
    using ReadFully_V4_frame(1) [of "Some (p, off)" "unat (m_batchReadSize st)" w] run by simp
  moreover have "bs \<noteq> []" using 2 by simp
  ultimately show ?case using k by (cases "off < length (data w p)") auto
qed

declare load_loop.simps [simp del]

definition load_segment ::
    "'e entry_ops \<Rightarrow> LogCleanWal \<Rightarrow> path \<Rightarrow> u64 \<Rightarrow> world
      \<Rightarrow> (wal_code + u32) \<times> (u64 \<times> 'e) list list \<times> LogCleanWal \<times> world" where
  "load_segment ops st filePath segId w =
    (let (fd, w) = Open filePath False False w
     in if fd = None then (Inl W_FileSystemError, [], st, w)
        else
          let (fileSize, w) = GetFileSize_fd fd w
          in case fileSize of
               None \<Rightarrow> (Inl W_FileCorrupt, [], st, snd (sys_close fd w))
             | Some fileSize \<Rightarrow>
                 if fileSize < LOGCLEAN_WAL_MAGIC_NO_LEN
                 then (Inl W_FileCorrupt, [], st, snd (sys_close fd w))
                 else
                   (case ReadFully_V4 fd LOGCLEAN_WAL_MAGIC_NO_LEN w of
                      ((None, fd), w) \<Rightarrow> (Inl W_FileSystemError, [], st, snd (sys_close fd w))
                    | ((Some header, fd), w) \<Rightarrow>
                        if ReadUInt32 (zero_filled 4 header) \<noteq> LOGCLEAN_WAL_MAGIC_NO
                        then (Inl W_FileCorrupt, [], st, snd (sys_close fd w))
                        else
                          let (rc, batches, st, w) = load_loop ops segId (the fd) [] 4 [] st w;
                              w = snd (sys_close fd w)
                          in if rc = W_OK then (Inr (word_of_nat fileSize), batches, st, w)
                             else (Inl rc, batches, st, w)))"

text \<open>Load: the segments found by Init in order; every return sets \<open>m_bLoaded\<close>.\<close>

fun Load_loop ::
    "'e entry_ops \<Rightarrow> (u64 \<times> path) list \<Rightarrow> (u64 \<times> 'e) list list \<Rightarrow> LogCleanWal \<Rightarrow> world
      \<Rightarrow> wal_code \<times> (u64 \<times> 'e) list list \<times> LogCleanWal \<times> world" where
  "Load_loop ops [] batches st w = (W_OK, batches, st, w)"
| "Load_loop ops (s # ss) batches st w =
    (case load_segment ops st (snd s) (fst s) w of
       (Inl rc, bs, st, w) \<Rightarrow> (rc, batches @ bs, st, w)
     | (Inr sz, bs, st, w) \<Rightarrow>
         Load_loop ops ss (batches @ bs) (if ss = [] then st\<lparr>m_curSegFileSize := sz\<rparr> else st) w)"

definition Load ::
    "'e entry_ops \<Rightarrow> LogCleanWal \<Rightarrow> world \<Rightarrow> wal_code \<times> (u64 \<times> 'e) list list \<times> LogCleanWal \<times> world" where
  "Load ops st w =
    (if \<not> m_bInited st then (W_Uninited, [], st, w)
     else
       let st = st\<lparr>m_bLoaded := True\<rparr>
       in if m_vInitSegments st = [] then (W_OK, [], st, w)
          else Load_loop ops (m_vInitSegments st) []
                 (st\<lparr>m_minSegmentId := fst (hd (m_vInitSegments st))\<rparr>) w)"

end
