(* ===== verification/BatchRead.thy ===== *)
theory BatchRead
  imports FileLaws Codec Entry
begin

text \<open>
  Reading a file of entries in batches.  The write-ahead log and the checkpoint share the scheme: read
  a fixed number of bytes behind the bytes left over from the previous batch, take entries off the
  front as long as there is a whole one, carry the rest over.  The contract of such a reader and that
  it computes, for every batch size, what parsing the whole file at once computes.
\<close>

text \<open>The verdict on the entry at the head of the unread bytes; Got comes with the bytes it takes.\<close>

datatype ('c, 'x) step = Done | Short | Bad 'c | Got 'x nat

text \<open>The reference parser: entries off the front until the bytes are used up.\<close>

function parse_all :: "(u32 \<Rightarrow> bytes \<Rightarrow> ('c, 'x) step) \<Rightarrow> 'c \<Rightarrow> bytes \<Rightarrow> u32 \<Rightarrow> 'c + 'x list" where
  "parse_all one corrupt rest off =
    (case one off rest of
       Done \<Rightarrow> Inr []
     | Short \<Rightarrow> Inl corrupt
     | Bad c \<Rightarrow> Inl c
     | Got x n \<Rightarrow>
         if 0 < n \<and> rest \<noteq> []
         then map_sum id (Cons x) (parse_all one corrupt (drop n rest) (off + word_of_nat n))
         else Inl corrupt)"
  by pat_completeness auto
termination
  by (relation "measure (\<lambda>(one, corrupt, rest, off). length rest)") auto

declare parse_all.simps [simp del]

definition loop_code :: "'c \<Rightarrow> 'c + 'a \<Rightarrow> 'c" where
  "loop_code okc r = (case r of Inl c \<Rightarrow> c | Inr _ \<Rightarrow> okc)"

locale batch_reader =
  fixes one :: "u32 \<Rightarrow> bytes \<Rightarrow> ('c, 'x) step"
    and note1 :: "'x \<Rightarrow> 's \<Rightarrow> 's"
    and bsize :: "'s \<Rightarrow> nat"
    and batch :: "bool \<Rightarrow> bytes \<Rightarrow> u32 \<Rightarrow> 'x list \<Rightarrow> 's \<Rightarrow> ('c + bytes \<times> u32) \<times> 'x list \<times> 's"
    and loop :: "path \<times> nat \<Rightarrow> bytes \<Rightarrow> u32 \<Rightarrow> 'x list list \<Rightarrow> 's \<Rightarrow> world \<Rightarrow> 'c \<times> 'x list list \<times> 's \<times> world"
    and okc :: 'c and corrupt :: 'c and fserr :: 'c and undef :: 'c
  assumes one_Got: "one o1 rest = Got x n \<Longrightarrow> 0 < n \<and> n \<le> length rest"
    and one_Done: "one o1 rest = Done \<longleftrightarrow> rest = []"
    and one_append: "length (a @ b) < 2 ^ 32 \<Longrightarrow> one o1 a \<noteq> Done \<Longrightarrow> one o1 a \<noteq> Short \<Longrightarrow> one o1 (a @ b) = one o1 a"
    and bsize_note: "bsize (note1 x s) = bsize s"
    and batch_step: "batch ok rest o1 xs s =
      (case one o1 rest of
         Done \<Rightarrow> (Inr ([], o1), xs, s)
       | Short \<Rightarrow> (if ok then (Inr (rest, o1), xs, s) else (Inl corrupt, xs, s))
       | Bad c \<Rightarrow> (Inl c, xs, s)
       | Got x n \<Rightarrow> batch ok (drop n rest) (o1 + word_of_nat n) (xs @ [x]) (note1 x s))"
    and loop_step: "loop (p, off) left o1 bs s w =
      (if 2 ^ 32 \<le> bsize s + length left then (undef, bs, s, w)
       else
         case ReadFully_V4 (Some (p, off)) (bsize s) w of
           ((None, _), w) \<Rightarrow> (fserr, bs, s, w)
         | ((Some d, fd), w) \<Rightarrow>
             if d = [] then (if left \<noteq> [] then (corrupt, bs, s, w) else (okc, bs, s, w))
             else
               case batch (length d = bsize s) (left @ d) o1 [] s of
                 (Inl rc, _, s) \<Rightarrow> (rc, bs, s, w)
               | (Inr (left, o1), xs, s') \<Rightarrow>
                   if length d = bsize s then loop (p, off + length d) left o1 (bs @ [xs]) s' w
                   else (okc, bs @ [xs], s', w))"
begin

lemma Got_shrinks: "one o1 rest = Got x n \<Longrightarrow> length (drop n rest) < length rest"
  using one_Got [of o1 rest x n] by auto

lemma one_Nil [simp]: "one o1 [] = Done"
  by (simp add: one_Done)

lemma batch_acc:
  "batch ok rest o1 xs s = (case batch ok rest o1 [] s of (r, ys, s') \<Rightarrow> (r, xs @ ys, s'))"
proof (induction "length rest" arbitrary: rest o1 xs s rule: less_induct)
  case less
  show ?case
  proof (cases "one o1 rest")
    case (Got x n)
    note dec = Got_shrinks [OF Got]
    from less [OF dec, of "o1 + word_of_nat n" "xs @ [x]" "note1 x s"]
      less [OF dec, of "o1 + word_of_nat n" "[x]" "note1 x s"] Got
    show ?thesis by (simp add: batch_step [of ok rest] split: prod.splits)
  qed (simp_all add: batch_step [of ok rest])
qed

lemma batch_leftover:
  assumes "batch ok rest o1 xs s = (Inr (left, o2), ys, s')"
  shows "(left = [] \<or> ok \<and> one o2 left = Short) \<and> length left \<le> length rest \<and> bsize s' = bsize s"
  using assms
proof (induction "length rest" arbitrary: rest o1 xs s rule: less_induct)
  case less
  show ?case
  proof (cases "one o1 rest")
    case (Got x n)
    from less.hyps [OF Got_shrinks [OF Got]] less.prems Got show ?thesis
      by (fastforce simp: batch_step [of ok rest] bsize_note)
  qed (use less.prems in \<open>auto simp: batch_step [of ok rest] split: if_splits\<close>)
qed

text \<open>Parsing a batch and then the leftover with the rest of the file is parsing the file at once.\<close>

lemma batch_append:
  assumes "length (a @ b) < 2 ^ 32" and "batch True a o1 xs s = (r, ys, s')"
  shows "batch False (a @ b) o1 xs s =
    (case r of Inl c \<Rightarrow> (Inl c, ys, s') | Inr (left, o2) \<Rightarrow> batch False (left @ b) o2 ys s')"
  using assms
proof (induction "length a" arbitrary: a o1 xs s rule: less_induct)
  case less
  show ?case
  proof (cases "one o1 a")
    case (Got x n)
    then have ab: "one o1 (a @ b) = Got x n" using one_append [OF less.prems(1)] by simp
    have n: "n \<le> length a" using one_Got [OF Got] by simp
    have "batch True (drop n a) (o1 + word_of_nat n) (xs @ [x]) (note1 x s) = (r, ys, s')"
      using less.prems(2) Got by (simp add: batch_step [of True a])
    from less.hyps [OF Got_shrinks [OF Got] _ this] less.prems(1) n ab show ?thesis
      by (simp add: batch_step [of False "a @ b"])
  next
    case (Bad c)
    then have "one o1 (a @ b) = Bad c" using one_append [OF less.prems(1)] by simp
    with Bad less.prems(2) show ?thesis by (auto simp: batch_step [of True a] batch_step [of False "a @ b"])
  next
    case Done
    with less.prems(2) show ?thesis by (auto simp: batch_step [of True a] one_Done)
  next
    case Short
    with less.prems(2) show ?thesis by (auto simp: batch_step [of True a])
  qed
qed

text \<open>The run of the loop, read off the parse of the whole rest of the file.\<close>

lemma loop_parse:
  assumes "reliable w" "content w p = Some c" "0 < bsize s"
    and "bsize s + length left + (length c - off) < 2 ^ 32" "left = [] \<or> one o1 left = Short"
    and "batch False (left @ drop off c) o1 [] s = (r, xs, s')"
  shows "\<exists>bs' w'. loop (p, off) left o1 bs s w = (loop_code okc r, bs', s', w') \<and>
           (\<forall>x. r = Inr x \<longrightarrow> concat bs' = concat bs @ xs) \<and>
           content w' = content w \<and> is_dir w' = is_dir w \<and> reliable w' \<and> (wf_world w \<longrightarrow> wf_world w')"
  using assms
proof (induction "length c - off" arbitrary: off left o1 bs s w xs rule: less_induct)
  case less
  let ?B = "bsize s"
  note B = less.prems(3)
  let ?d = "take ?B (drop off c)"
  obtain w1 where rd: "ReadFully_V4 (Some (p, off)) ?B w = ((Some ?d, Some (p, off + min ?B (length c - off))), w1)"
    using ReadFully_V4_done(1) [OF less.prems(1,2), of off ?B] by (metis prod.collapse)
  have w1: "content w1 = content w" "is_dir w1 = is_dir w" "reliable w1" "wf_world w \<longrightarrow> wf_world w1"
    using ReadFully_V4_frame(1-3) [of "Some (p, off)" ?B w] ReadFully_V4_frame(4) [of w "Some (p, off)" ?B]
      ReadFully_V4_done(2) [OF less.prems(1,2), of off ?B] rd
    by simp_all
  have small: "\<not> 2 ^ 32 \<le> ?B + length left" using less.prems(4) by simp
  note run = loop_step [of p off left o1 bs s w]
  show ?case
  proof (cases "drop off c = []")
    case True
    with less.prems(5,6) have "loop_code okc r = (if left = [] then okc else corrupt)"
      "s' = s" "\<forall>x. r = Inr x \<longrightarrow> xs = []"
      by (auto simp: batch_step [of False left] batch_step [of False "[]"] loop_code_def)
    with True rd small w1 show ?thesis by (auto simp: run)
  next
    case False
    then have ne: "?d \<noteq> []" using B by simp
    let ?ok = "length ?d = ?B"
    obtain r1 xs1 s1 where b1: "batch ?ok (left @ ?d) o1 [] s = (r1, xs1, s1)" by (metis surj_pair)
    show ?thesis
    proof (cases ?ok)
      case ok: True
      have whole: "left @ drop off c = (left @ ?d) @ drop (off + ?B) c"
        by (metis append_assoc append_take_drop_id drop_drop add.commute)
      have len: "length ((left @ ?d) @ drop (off + ?B) c) < 2 ^ 32"
        using less.prems(4) by (simp flip: whole)
      have app: "(r, xs, s') = (case r1 of Inl c \<Rightarrow> (Inl c, xs1, s1)
          | Inr (left, o2) \<Rightarrow> batch False (left @ drop (off + ?B) c) o2 xs1 s1)"
        using batch_append [OF len, of o1 "[]" s r1 xs1 s1] b1 ok less.prems(6) by (simp add: whole)
      show ?thesis
      proof (cases r1)
        case (Inl e)
        with app rd small ne b1 ok w1 show ?thesis by (auto simp: run loop_code_def)
      next
        case (Inr x)
        obtain left1 o2 where x: "x = (left1, o2)" by (cases x)
        have lo: "left1 = [] \<or> one o2 left1 = Short" "length left1 \<le> length (left @ ?d)" "bsize s1 = bsize s"
          using batch_leftover [OF b1 [unfolded Inr x]] by auto
        obtain xs2 where b2: "batch False (left1 @ drop (off + ?B) c) o2 [] s1 = (r, xs2, s')" "xs = xs1 @ xs2"
          using app Inr x batch_acc [of False "left1 @ drop (off + ?B) c" o2 xs1 s1] by (auto split: prod.splits)
        have dec: "length c - (off + ?B) < length c - off" using False B by simp
        have len2: "bsize s1 + length left1 + (length c - (off + ?B)) < 2 ^ 32"
          using lo(2,3) less.prems(4) ok by simp
        have "0 < bsize s1" "content w1 p = Some c" using lo less.prems(2,3) w1 by simp_all
        from less.hyps [OF dec w1(3) this(2,1) len2 lo(1) b2(1), of "bs @ [xs1]"]
        show ?thesis using rd small ne b1 ok w1 Inr x b2(2) by (auto simp: run)
      qed
    next
      case notok: False
      then have "?d = drop off c" by (auto simp: min_def split: if_splits)
      with less.prems(6) b1 notok have "r1 = r" "xs1 = xs" "s1 = s'" by auto
      with rd small ne b1 notok w1 show ?thesis by (cases r) (auto simp: run loop_code_def)
    qed
  qed
qed

lemma batch_parse_all:
  "case parse_all one corrupt rest o1 of
     Inl c \<Rightarrow> (\<exists>ys s'. batch False rest o1 xs s = (Inl c, ys, s'))
   | Inr ys \<Rightarrow> (\<exists>o2. batch False rest o1 xs s = (Inr ([], o2), xs @ ys, fold note1 ys s))"
proof (induction "length rest" arbitrary: rest o1 xs s rule: less_induct)
  case less
  show ?case
  proof (cases "one o1 rest")
    case (Got x n)
    moreover have "0 < n" "rest \<noteq> []" using one_Got [OF Got] by auto
    moreover note less [OF Got_shrinks [OF Got], of "o1 + word_of_nat n" "xs @ [x]" "note1 x s"]
    ultimately show ?thesis
      by (simp add: parse_all.simps [of one corrupt rest] batch_step [of False rest] split: sum.splits)
  qed (simp_all add: parse_all.simps [of one corrupt rest] batch_step [of False rest])
qed

text \<open>The whole: the loop from the start of the body of a file.\<close>

lemma loop_is_parse:
  assumes "reliable w" "content w p = Some c" "0 < bsize s" "bsize s + (length c - off) < 2 ^ 32"
  shows "\<exists>rc bs s' w'. loop (p, off) [] o1 [] s w = (rc, bs, s', w') \<and>
    (case parse_all one corrupt (drop off c) o1 of
       Inl e \<Rightarrow> rc = e
     | Inr xs \<Rightarrow> rc = okc \<and> concat bs = xs \<and> s' = fold note1 xs s) \<and>
    content w' = content w \<and> is_dir w' = is_dir w \<and> reliable w' \<and> (wf_world w \<longrightarrow> wf_world w')"
proof -
  obtain r xs s' where b: "batch False ([] @ drop off c) o1 [] s = (r, xs, s')" by (metis surj_pair)
  have len: "bsize s + length [] + (length c - off) < 2 ^ 32" using assms(4) by simp
  obtain bs w' where l: "loop (p, off) [] o1 [] s w = (loop_code okc r, bs, s', w')" "\<forall>x. r = Inr x \<longrightarrow> concat bs = xs"
    "content w' = content w" "is_dir w' = is_dir w" "reliable w'" "wf_world w \<longrightarrow> wf_world w'"
    using loop_parse [OF assms(1-3) len disjI1 [OF refl] b, of "[]"] by auto
  show ?thesis
    using l b batch_parse_all [of "drop off c" o1 "[]" s]
    by (cases "parse_all one corrupt (drop off c) o1") (auto simp: loop_code_def)
qed

end

subsection \<open>One entry\<close>

text \<open>
  The layout both files use: the length of the content (4 bytes), a header up to \<open>h\<close> bytes in all, the
  content, and the offset of the entry in the file (4 bytes).  All offsets are 32-bit sums in the
  code; \<open>undef\<close> marks the runs in which such a sum wraps and the code reads outside the buffer.
  \<open>mk\<close> makes the item from the bytes and the decoded content.
\<close>

definition entry_one ::
    "nat \<Rightarrow> 'c \<Rightarrow> 'c \<Rightarrow> 'c \<Rightarrow> (bytes \<Rightarrow> 'e \<Rightarrow> 'x) \<Rightarrow> 'e entry_ops \<Rightarrow> u32 \<Rightarrow> bytes \<Rightarrow> ('c, 'x) step" where
  "entry_one h undef corrupt decerr mk ops off rest =
    (if rest = [] then Done
     else if length rest < h then Short
     else
       let len = ReadUInt32 rest
       in if length rest < unat (word_of_nat (h + 4) + len) then Short
          else if length rest < unat (word_of_nat h + len) + 4 then Bad undef
          else if ReadUInt32 (drop (unat (word_of_nat h + len)) rest) \<noteq> off then Bad corrupt
          else if length rest < h + 4 + unat len \<or> 2 ^ 31 \<le> unat len then Bad undef
          else case Create ops (drop h rest) of
              None \<Rightarrow> Bad undef
            | Some blank \<Rightarrow>
                (case Decode ops blank (take (unat len) (drop h rest)) of
                   None \<Rightarrow> Bad decerr
                 | Some e \<Rightarrow> Got (mk rest e) (h + 4 + unat len)))"

text \<open>The bytes of an entry in this layout, with the header fields \<open>hdr\<close> behind the length.\<close>

definition framed :: "bytes \<Rightarrow> bytes \<Rightarrow> u32 \<Rightarrow> bytes" where
  "framed hdr cnt off = enc32 (word_of_nat (length cnt)) @ hdr @ cnt @ enc32 off"

lemma length_framed [simp]: "length (framed hdr cnt off) = 8 + length hdr + length cnt"
  by (simp add: framed_def)

lemma unat_word_plus:
  "h < 2 ^ 32 \<Longrightarrow> unat (word_of_nat h + len) = (if h + unat len < 2 ^ 32 then h + unat len else h + unat len - 2 ^ 32)"
  for len :: u32
  using unat_plus_if' [of "word_of_nat h" len] unsigned_less [of len, where 'a = nat] by (simp add: unat_word_of_nat)

lemma entry_one_Got:
  assumes "entry_one h undef corrupt decerr mk ops off rest = Got x n"
  shows "0 < n" "n \<le> length rest"
  using assms by (auto simp: entry_one_def Let_def split: if_splits option.splits)

lemma entry_one_Done: "entry_one h undef corrupt decerr mk ops off rest = Done \<longleftrightarrow> rest = []"
  by (auto simp: entry_one_def Let_def split: if_splits option.splits)

lemma entry_one_Bad:
  "entry_one h undef corrupt decerr mk ops off rest = Bad c \<Longrightarrow> c \<in> {undef, corrupt, decerr}"
  by (auto simp: entry_one_def Let_def split: if_splits option.splits)

text \<open>A verdict on a prefix, other than "not enough bytes", is the verdict on the whole.\<close>

lemma entry_one_append:
  assumes "create_local ops" and h: "4 \<le> h" "h < 1000" and mk: "\<And>a b e. h \<le> length a \<Longrightarrow> mk (a @ b) e = mk a e"
    and small: "length (a @ b) < 2 ^ 32"
    and one: "entry_one h undef corrupt decerr mk ops off a \<noteq> Done" "entry_one h undef corrupt decerr mk ops off a \<noteq> Short"
  shows "entry_one h undef corrupt decerr mk ops off (a @ b) = entry_one h undef corrupt decerr mk ops off a"
proof -
  define len where "len = ReadUInt32 a"
  have a: "a \<noteq> []" "\<not> length a < h" "\<not> length a < unat (word_of_nat (h + 4) + len)"
    using one by (auto simp: entry_one_def len_def Let_def split: if_splits)
  have len': "ReadUInt32 (a @ b) = len" using a(2) h(1) by (simp add: len_def ReadUInt32_append)
  have u: "unat (word_of_nat (h + 4) + len) = (if h + 4 + unat len < 2 ^ 32 then h + 4 + unat len else h + 4 + unat len - 2 ^ 32)"
    "unat (word_of_nat h + len) = (if h + unat len < 2 ^ 32 then h + unat len else h + unat len - 2 ^ 32)"
    by (rule unat_word_plus; use h(2) in simp)+
  have len32: "unat len < 2 ^ 32" using unsigned_less [of len, where 'a = nat] by simp
  define p4 where "p4 = unat (word_of_nat (h + 4) + len)"
  define p where "p = unat (word_of_nat h + len)"
  note defs = entry_one_def len_def [symmetric] len' Let_def p4_def [symmetric] p_def [symmetric]
  have ab: "\<not> length (a @ b) < h" "\<not> length (a @ b) < p4" "a @ b \<noteq> []" using a by (simp_all add: p4_def)
  show ?thesis
  proof (cases "length a < p + 4")
    case True
    (* then h + len did not wrap while h + 4 + len did *)
    have "2 ^ 32 \<le> p + 4" using True a(3) len32 unfolding p_def u by (simp split: if_split_asm)
    then have "length (a @ b) < p + 4" using small by linarith
    with True a ab show ?thesis by (simp add: defs)
  next
    case False
    have sp: "ReadUInt32 (drop p (a @ b)) = ReadUInt32 (drop p a)" using False by (simp add: ReadUInt32_append)
    have F': "\<not> length (a @ b) < p + 4" using False by simp
    show ?thesis
    proof (cases "length a < h + 4 + unat len")
      case True
      have "2 ^ 32 \<le> h + 4 + unat len" using True a(3) unfolding u by (simp split: if_split_asm)
      then have "length (a @ b) < h + 4 + unat len" using small by linarith
      with True False F' a ab sp show ?thesis by (simp add: defs)
    next
      case enough: False
      have cr: "Create ops (drop h (a @ b)) = Create ops (drop h a)"
        using create_localD [OF assms(1), of "drop h a" b] enough by simp
      have tk: "take (unat len) (drop h (a @ b)) = take (unat len) (drop h a)" using enough by simp
      have en': "\<not> length (a @ b) < h + 4 + unat len" using enough by simp
      have m: "mk (a @ b) e = mk a e" for e using a(2) by (intro mk) simp
      show ?thesis
        using False enough a ab F' en'
        by (simp add: defs sp cr tk m del: drop_append take_append length_append of_nat_add cong: option.case_cong)
    qed
  qed
qed

lemma entry_one_framed:
  assumes "create_local ops" "cnt \<noteq> []" "length cnt < 2 ^ 31" "decode_entry ops cnt = Some e"
    and h: "h = 4 + length hdr" "h < 1000"
  shows "entry_one h undef corrupt decerr mk ops off (framed hdr cnt off @ rest) =
    Got (mk (framed hdr cnt off @ rest) e) (h + 4 + length cnt)"
proof -
  let ?x = "framed hdr cnt off @ rest" and ?len = "word_of_nat (length cnt) :: u32"
  have len: "unat ?len = length cnt" using assms(3) by (simp add: unat_word_of_nat)
  have n: "unat (word_of_nat h + ?len) = h + length cnt" "unat (word_of_nat (h + 4) + ?len) = h + 4 + length cnt"
    using unat_word_plus [of h ?len] unat_word_plus [of "h + 4" ?len] assms(3) h(2) len by (simp_all del: of_nat_add)
  have r: "ReadUInt32 ?x = ?len" by (simp add: framed_def)
  have dh: "drop h ?x = cnt @ enc32 off @ rest" by (simp add: framed_def h(1))
  have "drop (h + length cnt) ?x = drop (length cnt) (drop h ?x)" unfolding drop_drop by (simp only: add.commute)
  then have pos: "ReadUInt32 (drop (h + length cnt) ?x) = off" unfolding dh by simp
  have cr: "Create ops (cnt @ enc32 off @ rest) = Create ops cnt" by (rule create_localD [OF assms(1,2)])
  have lx: "length ?x = h + 4 + length cnt + length rest" by (simp add: h(1))
  obtain b where be: "Create ops cnt = Some b" "Decode ops b cnt = Some e"
    using assms(4) by (auto simp: decode_entry_def split: option.splits)
  have nn: "?x \<noteq> []" using lx by (metis add_is_0 list.size(3) zero_neq_numeral)
  show ?thesis
    unfolding entry_one_def r Let_def n pos dh len lx cr be using assms(3) nn by (simp add: be)
qed

text \<open>A cut entry is "not enough bytes".\<close>

lemma entry_one_torn:
  assumes "length cnt < 2 ^ 31" "0 < k" "k < 8 + length hdr + length cnt" and h: "h = 4 + length hdr" "h < 1000"
  shows "entry_one h undef corrupt decerr mk ops off (take k (framed hdr cnt off)) = Short"
proof (cases "k < h")
  case True
  with assms show ?thesis by (auto simp: entry_one_def framed_def enc32_def)
next
  case False
  let ?len = "word_of_nat (length cnt) :: u32"
  have "ReadUInt32 (take k (framed hdr cnt off)) = ReadUInt32 (framed hdr cnt off)"
    using False h(1) by (intro ReadUInt32_cong) (auto simp: min_def)
  also have "\<dots> = ?len" by (simp add: framed_def)
  finally have r: "ReadUInt32 (take k (framed hdr cnt off)) = ?len" .
  have "unat ?len = length cnt" using assms(1) by (simp add: unat_word_of_nat)
  then have "unat (word_of_nat (h + 4) + ?len) = h + 4 + length cnt"
    using unat_word_plus [of "h + 4" ?len] assms(1) h(2) by (simp del: of_nat_add)
  moreover have "framed hdr cnt off \<noteq> []" by (simp add: framed_def enc32_def)
  ultimately show ?thesis using False assms r by (auto simp: entry_one_def Let_def)
qed

end
