(* ===== verification/WalParse.thy ===== *)
theory WalParse
  imports Wal BatchRead
begin

text \<open>
  The parser of a log segment, independent of batching: what one entry at the head of the unread
  bytes is, what a whole segment body is, and that the batched loop of load_segment computes it for
  every batch size.
\<close>

subsection \<open>One entry\<close>

definition parse_one :: "'e entry_ops \<Rightarrow> u32 \<Rightarrow> bytes \<Rightarrow> (wal_code, u64 \<times> 'e) step" where
  "parse_one = entry_one 13 W_Undefined W_FileCorrupt W_DecodeEntryError (\<lambda>rest e. (ReadUInt64 (drop 5 rest), e))"

lemma parse_one_unfold:
  "parse_one ops segOff rest =
    (if rest = [] then Done
     else if length rest < 13 then Short
     else
       let len = ReadUInt32 rest
       in if length rest < unat (17 + len) then Short
          else if length rest < unat (13 + len) + 4 then Bad W_Undefined
          else if ReadUInt32 (drop (unat (13 + len)) rest) \<noteq> segOff then Bad W_FileCorrupt
          else if length rest < 17 + unat len \<or> 2 ^ 31 \<le> unat len then Bad W_Undefined
          else case Create ops (drop 13 rest) of
              None \<Rightarrow> Bad W_Undefined
            | Some blank \<Rightarrow>
                (case Decode ops blank (take (unat len) (drop 13 rest)) of
                   None \<Rightarrow> Bad W_DecodeEntryError
                 | Some e \<Rightarrow> Got (ReadUInt64 (drop 5 rest), e) (17 + unat len)))"
  by (simp add: parse_one_def entry_one_def Let_def cong: option.case_cong)

lemma unat_17_plus: "unat len < 2 ^ 31 \<Longrightarrow> unat (17 + len) = 17 + unat len" for len :: u32
  using unat_plus_no_wrap [of 17 len] by simp

lemma load_batch_step:
  "load_batch ops segId ok rest segOff ents st =
    (case parse_one ops segOff rest of
       Done \<Rightarrow> (Inr ([], segOff), ents, st)
     | Short \<Rightarrow> (if ok then (Inr (rest, segOff), ents, st) else (Inl W_FileCorrupt, ents, st))
     | Bad c \<Rightarrow> (Inl c, ents, st)
     | Got x n \<Rightarrow> load_batch ops segId ok (drop n rest) (segOff + word_of_nat n)
                    (ents @ [x]) (note_entry segId (fst x) st))"
proof (cases "rest = [] \<or> length rest < 13")
  case True
  then show ?thesis
    by (subst load_batch.simps) (auto simp: parse_one_unfold)
next
  case False
  then have ne: "rest \<noteq> []" "\<not> length rest < 13" by auto
  define len where "len = ReadUInt32 rest"
  show ?thesis
  proof (cases "2 ^ 31 \<le> unat len")
    case True
    with ne show ?thesis
      by (subst load_batch.simps) (simp add: parse_one_unfold len_def [symmetric] Let_def)
  next
    case False
    then have n: "unat (17 + len) = 17 + unat len" "unat (len + 17) = 17 + unat len"
      using unat_17_plus [of len] by (simp_all add: add.commute)
    have w: "segOff + (len + 17) = segOff + word_of_nat (17 + unat len)" by (simp add: add.commute)
    show ?thesis
      using ne False
      by (subst load_batch.simps)
        (simp add: parse_one_unfold len_def [symmetric] Let_def n w del: of_nat_add split: option.split)
  qed
qed

lemma parse_one_Got: "parse_one ops segOff rest = Got x n \<Longrightarrow> 0 < n \<and> n \<le> length rest"
  unfolding parse_one_def by (auto dest: entry_one_Got)

lemma parse_one_empty [simp]: "parse_one ops segOff [] = Done"
  by (simp add: parse_one_unfold)

lemma parse_one_Bad: "parse_one ops segOff rest = Bad c \<Longrightarrow> c \<noteq> W_OK"
  unfolding parse_one_def by (drule entry_one_Bad) auto

subsection \<open>Batches\<close>

lemma note_entry_config [simp]:
  "m_batchReadSize (note_entry s i st) = m_batchReadSize st"
  "m_sRootDir (note_entry s i st) = m_sRootDir st"
  by (simp_all add: note_entry_def Let_def)

text \<open>The loops of load_segment are a batch reader, for entry types whose creator is local.\<close>

sublocale local_entries \<subseteq> wb: batch_reader "parse_one ops" "\<lambda>x. note_entry segId (fst x)"
    "\<lambda>st. unat (m_batchReadSize st)" "load_batch ops segId" "load_loop ops segId"
    W_OK W_FileCorrupt W_FileSystemError W_Undefined for segId
proof (unfold_locales, goal_cases)
  case (1 o1 rest x n)
  then show ?case by (rule parse_one_Got)
next
  case (2 o1 rest)
  show ?case by (simp add: parse_one_def entry_one_Done)
next
  case (3 a b o1)
  then show ?case unfolding parse_one_def
    by (intro entry_one_append [OF local_creator]) (simp_all add: ReadUInt64_append)
next
  case (4 x s)
  show ?case by simp
next
  case (5 ok rest o1 xs s)
  show ?case by (rule load_batch_step)
next
  case (6 p off left o1 bs s w)
  show ?case by (subst load_loop.simps) (simp add: Let_def split: option.split prod.split sum.split)
qed

context local_entries
begin

lemmas load_loop_is_parse = wb.loop_is_parse

end

subsection \<open>The reference parser\<close>

definition parse_body :: "'e entry_ops \<Rightarrow> bytes \<Rightarrow> u32 \<Rightarrow> wal_code + (u64 \<times> 'e) list" where
  "parse_body ops rest segOff = parse_all (parse_one ops) W_FileCorrupt rest segOff"

lemma parse_body_step:
  "parse_body ops rest segOff =
    (case parse_one ops segOff rest of
       Done \<Rightarrow> Inr []
     | Short \<Rightarrow> Inl W_FileCorrupt
     | Bad c \<Rightarrow> Inl c
     | Got x n \<Rightarrow> map_sum id (Cons x) (parse_body ops (drop n rest) (segOff + word_of_nat n)))"
  unfolding parse_body_def
  by (subst parse_all.simps) (auto split: step.split dest: parse_one_Got)

definition parse_segment :: "'e entry_ops \<Rightarrow> bytes \<Rightarrow> wal_code + (u64 \<times> 'e) list" where
  "parse_segment ops c =
    (if length c < 4 \<or> ReadUInt32 c \<noteq> LOGCLEAN_WAL_MAGIC_NO then Inl W_FileCorrupt
     else parse_body ops (drop 4 c) 4)"

definition note_entries :: "u64 \<Rightarrow> u64 list \<Rightarrow> LogCleanWal \<Rightarrow> LogCleanWal" where
  "note_entries segId ids st = fold (note_entry segId) ids st"

lemma parse_body_error: "parse_body ops rest segOff \<noteq> Inl W_OK"
proof (induction "length rest" arbitrary: rest segOff rule: less_induct)
  case less
  show ?case
  proof (cases "parse_one ops segOff rest")
    case (Got x n)
    from parse_one_Got [OF Got] have "length (drop n rest) < length rest" by auto
    from less [OF this, of "segOff + word_of_nat n"] Got show ?thesis
      by (cases "parse_body ops (drop n rest) (segOff + word_of_nat n)") (simp_all add: parse_body_step [of ops rest])
  qed (auto simp: parse_body_step [of ops rest] dest: parse_one_Bad)
qed

lemma note_entries_fold: "fold (\<lambda>x. note_entry segId (fst x)) es st = note_entries segId (map fst es) st"
  by (simp add: note_entries_def fold_map comp_def)

lemma load_segment_parse:
  assumes "create_local ops" "reliable w" "wf_world w" "content w fp = Some c" "0 < m_batchReadSize st"
    and "unat (m_batchReadSize st) + length c < 2 ^ 32"
  shows "\<exists>res bs st' w'. load_segment ops st fp segId w = (res, bs, st', w') \<and>
      (case parse_segment ops c of
         Inl e \<Rightarrow> res = Inl e
       | Inr es \<Rightarrow> res = Inr (word_of_nat (length c)) \<and> concat bs = es \<and>
                   st' = note_entries segId (map fst es) st) \<and>
      content w' = content w \<and> is_dir w' = is_dir w \<and> reliable w' \<and> wf_world w'"
proof -
  define w1 where "w1 = snd (sys_open fp False False w)"
  define w2 where "w2 = snd (GetFileSize_fd (Some (fp, 0)) w1)"
  define w3 where "w3 = snd (ReadFully_V4 (Some (fp, 0)) 4 w2)"
  have nd: "\<not> is_dir w fp" using assms(3,4) by (rule wf_world_content)
  have w1: "content w1 = content w" "is_dir w1 = is_dir w" "reliable w1" "wf_world w1"
    using assms nd by (simp_all add: w1_def)
  have w2: "content w2 = content w" "is_dir w2 = is_dir w" "reliable w2" "wf_world w2"
    using w1 by (simp_all add: w2_def)
  have w3: "content w3 = content w" "is_dir w3 = is_dir w" "reliable w3" "wf_world w3"
    using w2 assms(4) by (simp_all add: w3_def)
  have op: "sys_open fp False False w = (Some (fp, 0), w1)"
    using assms nd by (simp add: w1_def prod_eq_iff)
  have sz: "GetFileSize_fd (Some (fp, 0)) w1 = (Some (length c), w2)"
    using w1 assms(4) by (simp add: w2_def prod_eq_iff)
  have rd: "ReadFully_V4 (Some (fp, 0)) 4 w2 = ((Some (take 4 c), Some (fp, min 4 (length c))), w3)"
    using w2 assms(4) ReadFully_V4_done(1) [of w2 fp c 0 4] by (simp add: w3_def prod_eq_iff)
  show ?thesis
  proof (cases "length c < 4 \<or> ReadUInt32 c \<noteq> LOGCLEAN_WAL_MAGIC_NO")
    case True
    have hd: "4 \<le> length c \<Longrightarrow> ReadUInt32 (zero_filled 4 (take 4 c)) = ReadUInt32 c"
      by (rule ReadUInt32_cong) (auto simp: zero_filled_def)
    have "parse_segment ops c = Inl W_FileCorrupt" using True by (simp add: parse_segment_def)
    then show ?thesis
      using True hd op sz rd w2 w3 by (auto simp: load_segment_def)
  next
    case False
    have hd: "ReadUInt32 (zero_filled 4 (take 4 c)) = ReadUInt32 c"
      using False by (intro ReadUInt32_cong) (auto simp: zero_filled_def)
    have c3: "content w3 fp = Some c" using w3 assms(4) by simp
    have len: "0 < unat (m_batchReadSize st)" "unat (m_batchReadSize st) + (length c - 4) < 2 ^ 32"
      using assms(5,6) by (simp_all add: word_less_nat_alt)
    have pb: "parse_segment ops c = parse_all (parse_one ops) W_FileCorrupt (drop 4 c) 4"
      using False by (simp add: parse_segment_def parse_body_def)
    from local_entries.load_loop_is_parse [OF local_entries.intro [OF assms(1)] w3(3) c3 len, of segId 4]
    obtain rc bs st' w' where lo: "load_loop ops segId (fp, 4) [] 4 [] st w3 = (rc, bs, st', w')"
      "case parse_segment ops c of Inl e \<Rightarrow> rc = e
        | Inr xs \<Rightarrow> rc = W_OK \<and> concat bs = xs \<and> st' = note_entries segId (map fst xs) st"
      "content w' = content w" "is_dir w' = is_dir w" "reliable w'" "wf_world w'"
      unfolding pb [symmetric] note_entries_fold using w3 by auto
    have m: "min 4 (length c) = 4" using False by simp
    have run: "load_segment ops st fp segId w =
        (if rc = W_OK then Inr (word_of_nat (length c)) else Inl rc, bs, st', snd (sys_close (Some (fp, 4)) w'))"
      using False hd op sz rd lo(1) m by (auto simp: load_segment_def)
    have "parse_segment ops c \<noteq> Inl W_OK"
      using parse_body_error [of ops "drop 4 c" 4] by (simp add: pb parse_body_def)
    with run lo(2-6) show ?thesis by (cases "parse_segment ops c") auto
  qed
qed

subsection \<open>What AppendEntry writes is what the parser reads\<close>

type_synonym log_entry = "byte \<times> u64 \<times> bytes"

text \<open>The size of an entry on disk, and the bytes of a sequence of entries from an offset on.\<close>

definition entry_size :: "log_entry \<Rightarrow> nat" where
  "entry_size x = (case x of (v, i, cnt) \<Rightarrow> 17 + length cnt)"

fun body_bytes :: "u32 \<Rightarrow> log_entry list \<Rightarrow> bytes" where
  "body_bytes off [] = []"
| "body_bytes off ((v, i, cnt) # es) =
    wal_entry_bytes v i cnt off @ body_bytes (off + word_of_nat (17 + length cnt)) es"

definition segment_bytes :: "log_entry list \<Rightarrow> bytes" where
  "segment_bytes es = WriteUInt32 (replicate 4 0) LOGCLEAN_WAL_MAGIC_NO @ body_bytes 4 es"

definition entry_ok :: "'e entry_ops \<Rightarrow> log_entry \<Rightarrow> bool" where
  "entry_ok ops x =
    (case x of (v, i, cnt) \<Rightarrow> cnt \<noteq> [] \<and> length cnt < 2 ^ 31 \<and> decode_entry ops cnt \<noteq> None)"

definition decoded :: "'e entry_ops \<Rightarrow> log_entry list \<Rightarrow> (u64 \<times> 'e) list" where
  "decoded ops es = map (\<lambda>(v, i, cnt). (i, the (decode_entry ops cnt))) es"

lemma wal_entry_bytes_enc:
  "wal_entry_bytes v i cnt off = enc32 (word_of_nat (length cnt)) @ [v] @ enc64 i @ cnt @ enc32 off"
  by (simp add: wal_entry_bytes_def WriteUInt32_enc WriteUInt64_enc)

lemma length_wal_entry_bytes [simp]: "length (wal_entry_bytes v i cnt off) = 17 + length cnt"
  by (simp add: wal_entry_bytes_enc)

lemma wal_entry_bytes_not_Nil [simp]: "wal_entry_bytes v i cnt off \<noteq> []"
  by (simp add: wal_entry_bytes_enc enc32_def)

lemma length_body_bytes: "length (body_bytes off es) = sum_list (map entry_size es)"
  by (induction off es rule: body_bytes.induct) (simp_all add: entry_size_def)

lemma length_segment_bytes: "length (segment_bytes es) = 4 + sum_list (map entry_size es)"
  by (simp add: segment_bytes_def WriteUInt32_enc length_body_bytes)

lemma body_bytes_append:
  "body_bytes off (es @ fs) = body_bytes off es @ body_bytes (off + word_of_nat (sum_list (map entry_size es))) fs"
  by (induction off es rule: body_bytes.induct) (simp_all add: entry_size_def add.assoc)

lemma segment_bytes_snoc:
  "segment_bytes (es @ [(v, i, cnt)]) =
     segment_bytes es @ wal_entry_bytes v i cnt (word_of_nat (length (segment_bytes es)))"
  by (simp add: segment_bytes_def body_bytes_append length_body_bytes WriteUInt32_enc)

lemma wal_entry_framed: "wal_entry_bytes v i cnt off = framed ([v] @ enc64 i) cnt off"
  by (simp add: wal_entry_bytes_enc framed_def)

lemma parse_one_entry:
  assumes "create_local ops" "entry_ok ops (v, i, cnt)"
  shows "parse_one ops off (wal_entry_bytes v i cnt off @ rest) =
           Got (i, the (decode_entry ops cnt)) (17 + length cnt)"
proof -
  obtain e where "decode_entry ops cnt = Some e" "cnt \<noteq> []" "length cnt < 2 ^ 31"
    using assms(2) by (auto simp: entry_ok_def)
  then show ?thesis
    unfolding parse_one_def wal_entry_framed
    by (subst entry_one_framed [OF assms(1)]) (auto simp: framed_def enc32_def)
qed

lemma parse_body_append:
  assumes "create_local ops" "\<forall>x \<in> set es. entry_ok ops x"
  shows "parse_body ops (body_bytes off es @ tail) off =
    map_sum id (append (decoded ops es)) (parse_body ops tail (off + word_of_nat (sum_list (map entry_size es))))"
  using assms(2)
proof (induction off es rule: body_bytes.induct)
  case (1 off)
  show ?case by (simp add: decoded_def map_sum.identity map_sum.id flip: id_def)
next
  case (2 off v i cnt es)
  let ?off = "off + word_of_nat (17 + length cnt)"
  have "parse_one ops off (wal_entry_bytes v i cnt off @ body_bytes ?off es @ tail) =
          Got (i, the (decode_entry ops cnt)) (17 + length cnt)"
    using 2 by (intro parse_one_entry [OF assms(1)]) simp
  then show ?case
    using 2 by (simp add: parse_body_step [of ops "wal_entry_bytes v i cnt off @ _"] decoded_def
        entry_size_def sum.map_comp comp_def ac_simps)
qed

lemma parse_segment_bytes:
  assumes "create_local ops" "\<forall>x \<in> set es. entry_ok ops x"
  shows "parse_segment ops (segment_bytes es) = Inr (decoded ops es)"
  using parse_body_append [OF assms, of 4 "[]"]
  by (simp add: parse_segment_def segment_bytes_def WriteUInt32_enc parse_body_step [of ops "[]"])

text \<open>A cut entry at the end makes the parser reject the segment.\<close>

lemma parse_one_torn:
  assumes "length cnt < 2 ^ 31" "0 < k" "k < 17 + length cnt"
  shows "parse_one ops off (take k (wal_entry_bytes v i cnt off)) = Short"
  unfolding parse_one_def wal_entry_framed using assms by (intro entry_one_torn) simp_all

lemma parse_segment_torn:
  assumes "create_local ops" "\<forall>x \<in> set es. entry_ok ops x"
    and "length cnt < 2 ^ 31" "0 < k" "k < 17 + length cnt"
  shows "parse_segment ops (segment_bytes es @
           take k (wal_entry_bytes v i cnt (word_of_nat (length (segment_bytes es))))) = Inl W_FileCorrupt"
proof -
  let ?off = "(4 :: u32) + word_of_nat (sum_list (map entry_size es))"
  have off: "word_of_nat (length (segment_bytes es)) = ?off"
    by (simp add: length_segment_bytes)
  have "parse_body ops (take k (wal_entry_bytes v i cnt ?off)) ?off = Inl W_FileCorrupt"
    by (subst parse_body_step) (simp only: parse_one_torn [OF assms(3-5)] step.simps)
  with parse_body_append [OF assms(1,2), of 4 "take k (wal_entry_bytes v i cnt ?off)"]
  show ?thesis
    by (simp add: parse_segment_def segment_bytes_def WriteUInt32_enc off [unfolded segment_bytes_def]
        length_body_bytes)
qed

end
