(* ===== verification/WalLog.thy ===== *)
theory WalLog
  imports WalParse "HOL-Library.Multiset"
begin

text \<open>
  The log on disk as a list of segments, the invariant that ties the LogCleanWal object to it, and
  what Init, Load, AppendEntry and Truncate do to it on a reliable schedule.
\<close>

subsection \<open>Segment file names\<close>

definition seg_path :: "path \<Rightarrow> u64 \<Rightarrow> path" where
  "seg_path root i = root @ ''/'' @ LOGCLEAN_WAL_SEGMENT_PREFIX_NAME @ ''.'' @ ToString i"

lemma generate_segment_file_path [simp]: "generate_segment_file_path st i = seg_path (m_sRootDir st) i"
  by (simp add: generate_segment_file_path_def seg_path_def)

lemma seg_path_inject [simp]: "seg_path root i = seg_path root j \<longleftrightarrow> i = j"
  by (simp add: seg_path_def)

lemma seg_path_not_Nil [simp]: "seg_path root i \<noteq> []"
  by (simp add: seg_path_def)

lemma ToString_no_sep: "CHR ''/'' \<notin> set (ToString i)" "CHR ''.'' \<notin> set (ToString i)"
  using ToString_chars [of _ i] is_digit_facts(5,6) by blast+

lemma parent_seg_path [simp]: "parent (seg_path root i) = root"
  unfolding seg_path_def
  by (rule parent_append) (simp add: LOGCLEAN_WAL_SEGMENT_PREFIX_NAME_def ToString_no_sep)

lemma str_find_append: "str_find pat (a @ pat @ b)"
proof (induction a)
  case Nil
  have "take (length pat) (pat @ b) = pat" by simp
  then show ?case by (cases "pat @ b") auto
qed auto

lemma str_find_seg_path [simp]: "str_find LOGCLEAN_WAL_SEGMENT_PREFIX_NAME (seg_path root i)"
  using str_find_append [of LOGCLEAN_WAL_SEGMENT_PREFIX_NAME "root @ ''/''" "''.'' @ ToString i"]
  by (simp add: seg_path_def)

lemma after_last_dot_append: "CHR ''.'' \<notin> set s \<Longrightarrow> after_last_dot (a @ ''.'' @ s) = s"
proof -
  assume "CHR ''.'' \<notin> set s"
  then have "takeWhile (\<lambda>x. x \<noteq> CHR ''.'') (rev s @ CHR ''.'' # rev a) = rev s"
    by (subst takeWhile_append2) auto
  then show ?thesis by (simp add: after_last_dot_def)
qed

lemma after_last_dot_seg_path [simp]: "after_last_dot (seg_path root i) = ToString i"
  using after_last_dot_append [OF ToString_no_sep(2), of "root @ ''/'' @ LOGCLEAN_WAL_SEGMENT_PREFIX_NAME" i]
  by (simp add: seg_path_def)

definition trunc_info_path :: "path \<Rightarrow> path" where
  "trunc_info_path root = root @ ''/'' @ LOGCLEAN_WAL_TRUNC_META_NAME"

definition trunc_ok_path :: "path \<Rightarrow> path" where
  "trunc_ok_path root = root @ ''/'' @ LOGCLEAN_WAL_TRUNC_OK_NAME"

lemma trunc_paths_distinct [simp]:
  "seg_path root i \<noteq> trunc_info_path root" "seg_path root i \<noteq> trunc_ok_path root"
  "trunc_info_path root \<noteq> seg_path root i" "trunc_ok_path root \<noteq> seg_path root i"
  "trunc_info_path root \<noteq> trunc_ok_path root" "trunc_ok_path root \<noteq> trunc_info_path root"
  by (simp_all add: seg_path_def trunc_info_path_def trunc_ok_path_def LOGCLEAN_WAL_SEGMENT_PREFIX_NAME_def
      LOGCLEAN_WAL_TRUNC_META_NAME_def LOGCLEAN_WAL_TRUNC_OK_NAME_def)

lemma parent_trunc_paths [simp]: "parent (trunc_info_path root) = root" "parent (trunc_ok_path root) = root"
  unfolding trunc_info_path_def trunc_ok_path_def
  by (rule parent_append; simp add: LOGCLEAN_WAL_TRUNC_META_NAME_def LOGCLEAN_WAL_TRUNC_OK_NAME_def)+

subsection \<open>The log on disk\<close>

text \<open>
  \<open>seg_ids m L\<close> are the segment numbers of a log of segments \<open>L\<close> whose first segment has number
  \<open>m\<close>; \<open>log_files\<close> says that the log directory holds exactly these segments and no trace of a
  truncation in progress.
\<close>

definition seg_id :: "nat \<Rightarrow> nat \<Rightarrow> u64" where
  "seg_id m k = word_of_nat (m + k)"

definition log_segments :: "world \<Rightarrow> path \<Rightarrow> nat \<Rightarrow> log_entry list list \<Rightarrow> bool" where
  "log_segments w root m L =
    (1 \<le> m \<and> m + length L < 2 ^ 64 - 1 \<and>
     (\<forall>k < length L. content w (seg_path root (seg_id m k)) = Some (segment_bytes (L ! k))) \<and>
     (\<forall>p. content w p \<noteq> None \<longrightarrow> parent p = root \<longrightarrow> str_find LOGCLEAN_WAL_SEGMENT_PREFIX_NAME p \<longrightarrow>
        (\<exists>k < length L. p = seg_path root (seg_id m k))))"

definition no_trunc_files :: "world \<Rightarrow> path \<Rightarrow> bool" where
  "no_trunc_files w root =
    (content w (trunc_info_path root) = None \<and> content w (trunc_ok_path root) = None \<and>
     \<not> is_dir w (trunc_info_path root) \<and> \<not> is_dir w (trunc_ok_path root))"

definition log_world :: "world \<Rightarrow> path \<Rightarrow> bool" where
  "log_world w root = (reliable w \<and> wf_world w \<and> dir_ready w root \<and> (\<forall>i. \<not> is_dir w (seg_path root i)))"

text \<open>All of these depend only on the files and directories.\<close>

lemma log_segments_cong: "content w' = content w \<Longrightarrow> log_segments w' root m L = log_segments w root m L"
  by (simp add: log_segments_def)

lemma no_trunc_files_cong:
  "content w' = content w \<Longrightarrow> is_dir w' = is_dir w \<Longrightarrow> no_trunc_files w' root = no_trunc_files w root"
  by (simp add: no_trunc_files_def)

lemma log_world_step:
  "log_world w root \<Longrightarrow> is_dir w' = is_dir w \<Longrightarrow> reliable w' \<Longrightarrow> wf_world w' \<Longrightarrow> log_world w' root"
  by (simp add: log_world_def dir_ready_def)

lemma log_worldD:
  assumes "log_world w root"
  shows "reliable w" "wf_world w" "dir_ready w root" "is_dir w root" "\<not> is_dir w (seg_path root i)"
  using assms by (auto simp: log_world_def dir_ready_def)

lemma unat_seg_id: "m + k < 2 ^ 64 \<Longrightarrow> unat (seg_id m k) = m + k"
  unfolding seg_id_def by (rule unat_word_of_nat_u64)

lemma seg_id_eq: "m + j < 2 ^ 64 \<Longrightarrow> m + k < 2 ^ 64 \<Longrightarrow> seg_id m j = seg_id m k \<longleftrightarrow> j = k"
  by (metis unat_seg_id add_left_imp_eq)

lemma seg_id_bounds:
  assumes "1 \<le> m" "m + k < 2 ^ 64 - 1"
  shows "seg_id m k \<noteq> 0" "unat (seg_id m k) \<noteq> ULONG_MAX"
  using assms unat_seg_id [of m k] by (auto simp: ULONG_MAX_def)

subsection \<open>Listing the segments\<close>

definition segment_list :: "path \<Rightarrow> nat \<Rightarrow> nat \<Rightarrow> (u64 \<times> path) list" where
  "segment_list root m n = map (\<lambda>k. (seg_id m k, seg_path root (seg_id m k))) [0..<n]"

lemma parse_segment_ids_ok:
  assumes "\<forall>p \<in> set ps. \<exists>k. m + k < 2 ^ 64 - 1 \<and> p = seg_path root (seg_id m k)" "1 \<le> m"
  shows "\<exists>rs. parse_segment_ids ps er = (Some rs, er) \<and> map snd rs = ps \<and>
           (\<forall>x \<in> set rs. snd x = seg_path root (fst x))"
  using assms
proof (induction ps)
  case (Cons p ps)
  then obtain k where k: "m + k < 2 ^ 64 - 1" "p = seg_path root (seg_id m k)" by auto
  have "ToUint46_t (ToString (seg_id m k)) er = ((True, seg_id m k), er)"
    by (rule ToString_parse) (use seg_id_bounds [OF Cons.prems(2) k(1)] in auto)
  moreover obtain rs where "parse_segment_ids ps er = (Some rs, er)" "map snd rs = ps"
    "\<forall>x \<in> set rs. snd x = seg_path root (fst x)" using Cons by auto
  ultimately show ?case using k by simp
qed simp

lemma sort_key_segments:
  assumes "distinct ps" "set ps = {seg_path root (seg_id m k) | k. k < n}" "m + n < 2 ^ 64"
    and "map snd rs = ps" "\<forall>x \<in> set rs. snd x = seg_path root (fst x)"
  shows "sort_key fst rs = segment_list root m n"
proof (rule sort_key_inj_key_eq)
  have rs: "rs = map (\<lambda>p. (THE i. p = seg_path root i, p)) ps"
  proof -
    have "x = (THE i. snd x = seg_path root i, snd x)" if "x \<in> set rs" for x
    proof -
      have "snd x = seg_path root (fst x)" using assms(5) that by blast
      then have "(THE i. snd x = seg_path root i) = fst x" by simp
      then show ?thesis by (metis prod.collapse)
    qed
    then have "rs = map (\<lambda>x. (THE i. snd x = seg_path root i, snd x)) rs" by (simp add: map_idI)
    then show ?thesis unfolding assms(4) [symmetric] by (simp add: comp_def)
  qed
  have dl: "distinct (segment_list root m n)"
    using assms(3) by (auto simp: segment_list_def distinct_map inj_on_def seg_id_eq)
  have dr: "distinct rs" using assms(1,4) by (metis distinct_map)
  have "set ps = (\<lambda>k. seg_path root (seg_id m k)) ` {0..<n}" unfolding assms(2) by auto
  then have "set rs = set (segment_list root m n)"
    by (simp add: rs segment_list_def image_image)
  then show "mset rs = mset (segment_list root m n)"
    using dl dr by (simp add: set_eq_iff_mset_eq_distinct)
  show "inj_on fst (set rs)"
    using assms(5) by (metis inj_onI prod_eq_iff)
  show "sorted (map fst (segment_list root m n))"
    using assms(3) by (auto simp: segment_list_def sorted_iff_nth_mono word_le_nat_alt unat_seg_id comp_def)
qed

lemma list_segments_asc_done:
  assumes "log_world w (m_sRootDir st)" "log_segments w (m_sRootDir st) m L"
  shows "\<exists>w'. list_segments_asc st w = (Inr (segment_list (m_sRootDir st) m (length L)), w') \<and>
           content w' = content w \<and> is_dir w' = is_dir w \<and> log_world w' (m_sRootDir st)"
proof -
  let ?root = "m_sRootDir st" and ?f = "str_find LOGCLEAN_WAL_SEGMENT_PREFIX_NAME"
  note lw = log_worldD [OF assms(1)]
  have ls: "1 \<le> m" "m + length L < 2 ^ 64 - 1"
    "\<And>k. k < length L \<Longrightarrow> content w (seg_path ?root (seg_id m k)) = Some (segment_bytes (L ! k))"
    "\<And>p. content w p \<noteq> None \<Longrightarrow> parent p = ?root \<Longrightarrow> ?f p \<Longrightarrow> \<exists>k < length L. p = seg_path ?root (seg_id m k)"
    using assms(2) unfolding log_segments_def by blast+
  obtain ps where ps: "fst (CollectFileChildren ?root ?f w) = (ENONE, ps)" "distinct ps"
    "set ps = {p. content w p \<noteq> None \<and> parent p = ?root \<and> ?f p}"
    using CollectFileChildren_done [OF lw(1,2,4), of ?f] by blast
  define w1 where "w1 = snd (CollectFileChildren ?root ?f w)"
  have run: "CollectFileChildren ?root ?f w = ((ENONE, ps), w1)" using ps(1) by (simp add: w1_def prod_eq_iff)
  have set_ps: "set ps = {seg_path ?root (seg_id m k) | k. k < length L}"
  proof (intro set_eqI iffI)
    fix p assume "p \<in> set ps"
    then show "p \<in> {seg_path ?root (seg_id m k) | k. k < length L}"
      unfolding ps(3) using ls(4) [of p] by blast
  next
    fix p assume "p \<in> {seg_path ?root (seg_id m k) | k. k < length L}"
    then obtain k where "k < length L" "p = seg_path ?root (seg_id m k)" by blast
    with ls(3) [of k] show "p \<in> set ps" unfolding ps(3) by simp
  qed
  have ex: "\<forall>p \<in> set ps. \<exists>k. m + k < 2 ^ 64 - 1 \<and> p = seg_path ?root (seg_id m k)"
  proof
    fix p assume "p \<in> set ps"
    then obtain k where "k < length L" "p = seg_path ?root (seg_id m k)" unfolding set_ps by blast
    moreover from this(1) have "m + k < 2 ^ 64 - 1" using ls(2) by linarith
    ultimately show "\<exists>k. m + k < 2 ^ 64 - 1 \<and> p = seg_path ?root (seg_id m k)" by blast
  qed
  from parse_segment_ids_ok [OF ex ls(1)] obtain rs where rs:
    "parse_segment_ids ps (w_errno w1) = (Some rs, w_errno w1)" "map snd rs = ps"
    "\<forall>x \<in> set rs. snd x = seg_path ?root (fst x)" by blast
  have "sort_key fst rs = segment_list ?root m (length L)"
    by (rule sort_key_segments [OF ps(2) set_ps _ rs(2,3)]) (use ls(2) in simp)
  moreover have "set_errno (w_errno w1) w1 = w1" by (simp add: set_errno_def)
  moreover have "content w1 = content w" "is_dir w1 = is_dir w" "reliable w1" "wf_world w1"
    using lw by (simp_all add: w1_def)
  ultimately show ?thesis
    using run rs(1) log_world_step [OF assms(1)] by (simp add: list_segments_asc_def)
qed

lemma log_world_quiet: "log_world w root \<Longrightarrow> quiet w w' \<Longrightarrow> log_world w' root"
  by (rule log_world_step) (auto simp: quiet_def log_world_def)

subsection \<open>Init on a log with no truncation in progress\<close>

definition wal_paths :: "LogCleanWal \<Rightarrow> bool" where
  "wal_paths st = (m_sTruncOKFlagFilePath st = trunc_ok_path (m_sRootDir st) \<and>
                   m_sTruncInfoFilePath st = trunc_info_path (m_sRootDir st))"

lemma get_uncompleted_none:
  assumes "reliable w" "no_trunc_files w (m_sRootDir st)" "wal_paths st"
  shows "fst (get_uncompleted_trunc_segments_max_id st w) = 0"
    and "quiet w (snd (get_uncompleted_trunc_segments_max_id st w))"
  using assms
  by (auto simp: get_uncompleted_trunc_segments_max_id_def no_trunc_files_def wal_paths_def split_beta Let_def
      intro: quiet_trans [OF quiet_sys(1) quiet_sys(1)])

lemma clean_trunc_status_none:
  assumes "reliable w" "no_trunc_files w (m_sRootDir st)" "wal_paths st"
  shows "fst (clean_trunc_status st w) = W_OK" and "quiet w (snd (clean_trunc_status st w))"
  using assms
  by (auto simp: clean_trunc_status_def no_trunc_files_def wal_paths_def split_beta Let_def
      intro: quiet_trans [OF quiet_sys(1) quiet_sys(1)])

lemma segment_list_simps:
  "segment_list root m n = [] \<longleftrightarrow> n = 0"
  "0 < n \<Longrightarrow> hd (segment_list root m n) = (seg_id m 0, seg_path root (seg_id m 0))"
  "0 < n \<Longrightarrow> last (segment_list root m n) = (seg_id m (n - 1), seg_path root (seg_id m (n - 1)))"
  by (simp_all add: segment_list_def hd_map last_map)

text \<open>Opening the current segment of a non-empty log.\<close>

lemma Init_open_current_existing:
  assumes "log_world w (m_sRootDir st)" "log_segments w (m_sRootDir st) m L" "L \<noteq> []"
  shows "\<exists>w'. Init_open_current st (segment_list (m_sRootDir st) m (length L)) w =
     (W_OK, st\<lparr>m_minSegmentId := seg_id m 0, m_currentSegmentId := seg_id m (length L - 1),
        m_vInitSegments := segment_list (m_sRootDir st) m (length L),
        m_currentSegFilePath := seg_path (m_sRootDir st) (seg_id m (length L - 1)),
        m_currentSegFd := Some (seg_path (m_sRootDir st) (seg_id m (length L - 1)),
                                length (segment_bytes (last L)))\<rparr>, w') \<and> quiet w w'"
proof -
  let ?p = "seg_path (m_sRootDir st) (seg_id m (length L - 1))"
  have c: "content w ?p = Some (segment_bytes (last L))"
    using assms(2,3) by (simp add: log_segments_def last_conv_nth)
  have nd: "\<not> is_dir w ?p" and rel: "reliable w" using assms(1) by (auto dest: log_worldD)
  define w1 where "w1 = snd (sys_open ?p True False w)"
  define w2 where "w2 = snd (GetFileSize_fd (Some (?p, 0)) w1)"
  define w3 where "w3 = snd (sys_lseek (Some (?p, 0)) (int (length (segment_bytes (last L)))) w2)"
  have op: "sys_open ?p True False w = (Some (?p, 0), w1)" using rel nd c by (simp add: w1_def prod_eq_iff)
  have q1: "quiet w w1" using quiet_open_existing [OF rel, of ?p True] c by (simp add: w1_def)
  have sz: "GetFileSize_fd (Some (?p, 0)) w1 = (Some (length (segment_bytes (last L))), w2)"
    using quietD [OF q1] rel c by (simp add: w2_def prod_eq_iff)
  have q2: "quiet w1 w2" by (simp add: w2_def)
  have rel2: "reliable w2" using quietD(3) [OF quiet_trans [OF q1 q2] rel] .
  have sk: "sys_lseek (Some (?p, 0)) (int (length (segment_bytes (last L)))) w2 =
      ((True, Some (?p, length (segment_bytes (last L)))), w3)"
    using rel2 by (simp add: w3_def prod_eq_iff)
  have q3: "quiet w2 w3" by (simp add: w3_def)
  show ?thesis
    using assms(3) op sz sk quiet_trans [OF quiet_trans [OF q1 q2] q3]
    by (simp add: Init_open_current_def segment_list_simps Let_def)
qed

text \<open>With no truncation in progress, Init lists the segments and opens the last one.\<close>

lemma Init_lists_segments:
  assumes "log_world w (m_sRootDir st)" "log_segments w (m_sRootDir st) m L"
    and "no_trunc_files w (m_sRootDir st)" "wal_paths st"
  shows "\<exists>w'. Init st w = Init_open_current (st\<lparr>m_bInited := True\<rparr>) (segment_list (m_sRootDir st) m (length L)) w' \<and>
           quiet w w'"
proof -
  let ?root = "m_sRootDir st" and ?st = "st\<lparr>m_bInited := True\<rparr>"
  note lw = log_worldD [OF assms(1)]
  define w1 where "w1 = snd (CreateDirPath ?root w)"
  have cd: "CreateDirPath ?root w = (True, w1)"
    using CreateDirPath_ready(1) [OF lw(1,3)] by (simp add: w1_def prod_eq_iff)
  have q1: "quiet w w1" using CreateDirPath_ready [OF lw(1,3)] by (simp add: w1_def quiet_def)
  define w2 where "w2 = snd (get_uncompleted_trunc_segments_max_id ?st w1)"
  have nt1: "no_trunc_files w1 ?root"
    using assms(3) quietD [OF q1] by (simp add: no_trunc_files_def)
  have st: "wal_paths ?st" "m_sRootDir ?st = ?root" using assms(4) by (simp_all add: wal_paths_def)
  have gu: "get_uncompleted_trunc_segments_max_id ?st w1 = (0, w2)" and q2: "quiet w1 w2"
    using get_uncompleted_none [of w1 ?st] nt1 st quietD(3) [OF q1 lw(1)]
    by (simp_all add: w2_def prod_eq_iff)
  have q12: "quiet w w2" by (rule quiet_trans [OF q1 q2])
  have "log_world w2 (m_sRootDir ?st)" "log_segments w2 (m_sRootDir ?st) m L"
    using log_world_quiet [OF assms(1) q12] assms(2) quietD [OF q12] by (simp_all add: log_segments_def)
  from list_segments_asc_done [OF this] obtain w3 where ls:
    "list_segments_asc ?st w2 = (Inr (segment_list ?root m (length L)), w3)"
    "content w3 = content w2" "is_dir w3 = is_dir w2" "log_world w3 ?root" by auto
  have q3: "quiet w w3" using ls quietD [OF q12] lw log_worldD(1,2) [OF ls(4)] by (simp add: quiet_def)
  have nt3: "no_trunc_files w3 ?root" using assms(3) quietD [OF q3] by (simp add: no_trunc_files_def)
  define w4 where "w4 = snd (clean_trunc_status ?st w3)"
  have ct: "clean_trunc_status ?st w3 = (W_OK, w4)" and q4: "quiet w3 w4"
    using clean_trunc_status_none [of w3 ?st] nt3 st log_worldD(1) [OF ls(4)]
    by (simp_all add: w4_def prod_eq_iff)
  show ?thesis
    using cd gu ls(1) ct quiet_trans [OF q3 q4] by (auto simp: Init_def Init_finish_trunc_def)
qed

lemma Init_existing:
  assumes "log_world w (m_sRootDir st)" "log_segments w (m_sRootDir st) m L" "L \<noteq> []"
    and "no_trunc_files w (m_sRootDir st)" "wal_paths st"
  shows "\<exists>w'. Init st w =
     (W_OK, st\<lparr>m_bInited := True, m_minSegmentId := seg_id m 0, m_currentSegmentId := seg_id m (length L - 1),
        m_vInitSegments := segment_list (m_sRootDir st) m (length L),
        m_currentSegFilePath := seg_path (m_sRootDir st) (seg_id m (length L - 1)),
        m_currentSegFd := Some (seg_path (m_sRootDir st) (seg_id m (length L - 1)),
                                length (segment_bytes (last L)))\<rparr>, w') \<and> quiet w w'"
proof -
  let ?st = "st\<lparr>m_bInited := True\<rparr>"
  obtain w1 where w1: "Init st w = Init_open_current ?st (segment_list (m_sRootDir st) m (length L)) w1"
    "quiet w w1" using Init_lists_segments [OF assms(1,2,4,5)] by blast
  have "log_world w1 (m_sRootDir ?st)" "log_segments w1 (m_sRootDir ?st) m L"
    using log_world_quiet [OF assms(1) w1(2)] assms(2) quietD [OF w1(2)] by (simp_all add: log_segments_def)
  from Init_open_current_existing [OF this assms(3)] w1 show ?thesis
    using quiet_trans by fastforce
qed

subsection \<open>A new segment file\<close>

lemma seg_paths_neq: "m + length L < 2 ^ 64 \<Longrightarrow> k < length L \<Longrightarrow>
    seg_path root (seg_id m k) \<noteq> seg_path root (seg_id m (length L))"
  by (simp add: seg_id_eq)

lemma create_new_segment_file_done:
  assumes "log_world w (m_sRootDir st)" "content w (seg_path (m_sRootDir st) (m_currentSegmentId st + 1)) = None"
  shows "\<exists>w'. create_new_segment_file st w =
     (W_OK, st\<lparr>m_currentSegmentId := m_currentSegmentId st + 1,
        m_currentSegFilePath := seg_path (m_sRootDir st) (m_currentSegmentId st + 1),
        m_currentSegFd := Some (seg_path (m_sRootDir st) (m_currentSegmentId st + 1), 4),
        m_curSegFileSize := 4\<rparr>, w') \<and>
     content w' = (content w)(seg_path (m_sRootDir st) (m_currentSegmentId st + 1) \<mapsto> segment_bytes []) \<and>
     is_dir w' = is_dir w \<and> log_world w' (m_sRootDir st)"
proof -
  let ?root = "m_sRootDir st" and ?hdr = "WriteUInt32 (replicate 4 0) LOGCLEAN_WAL_MAGIC_NO"
  let ?p = "seg_path ?root (m_currentSegmentId st + 1)"
  note lw = log_worldD [OF assms(1)]
  define w1 where "w1 = (if m_currentSegFd st \<noteq> None then snd (sys_close (m_currentSegFd st) w) else w)"
  have cl: "(if m_currentSegFd st \<noteq> None then sys_close (m_currentSegFd st) w else (True, w)) = (True, w1)"
    using lw(1) by (simp add: w1_def prod_eq_iff)
  have q1: "quiet w w1" by (simp add: w1_def)
  note q1D = quietD [OF q1]
  have rel1: "reliable w1" using q1D(3) lw(1) .
  define w2 where "w2 = snd (sys_open ?p True False w1)"
  have op: "sys_open ?p True False w1 = (Some (?p, 0), w2)"
    using rel1 q1D lw(4,5) assms(2) by (simp add: w2_def prod_eq_iff)
  have w2: "content w2 = (content w)(?p \<mapsto> [])" "is_dir w2 = is_dir w" "reliable w2" "wf_world w2"
    using rel1 q1D lw assms(2) by (simp_all add: w2_def)
  have hdr: "length ?hdr = 4" by (simp add: WriteUInt32_enc)
  define w3 where "w3 = snd (WriteFully (Some (?p, 0)) ?hdr w2)"
  have c2: "content w2 ?p = Some []" using w2 by simp
  have wr: "WriteFully (Some (?p, 0)) ?hdr w2 = ((Some 4, Some (?p, 4)), w3)"
    using WriteFully_done(1) [OF w2(3) c2, of 0 ?hdr] hdr by (simp add: w3_def prod_eq_iff)
  have w3: "content w3 = (content w)(?p \<mapsto> ?hdr)" "is_dir w3 = is_dir w" "reliable w3" "wf_world w3"
    using WriteFully_done(2,3) [OF w2(3) c2, of 0 ?hdr] w2 by (simp_all add: w3_def)
  show ?thesis
    using cl op wr w3 log_world_step [OF assms(1) w3(2-4)]
    by (simp add: create_new_segment_file_def segment_bytes_def Let_def)
qed

lemma log_segments_new:
  assumes "log_segments w root m L" "content w' = (content w)(seg_path root (seg_id m (length L)) \<mapsto> segment_bytes es)"
    and "m + length L + 1 < 2 ^ 64 - 1"
  shows "log_segments w' root m (L @ [es])"
  unfolding log_segments_def
proof (intro conjI allI impI)
  show "1 \<le> m" "m + length (L @ [es]) < 2 ^ 64 - 1" using assms by (simp_all add: log_segments_def)
  show "content w' (seg_path root (seg_id m k)) = Some (segment_bytes ((L @ [es]) ! k))"
    if "k < length (L @ [es])" for k
    using that assms by (cases "k = length L") (simp_all add: log_segments_def nth_append seg_id_eq)
  show "\<exists>k < length (L @ [es]). p = seg_path root (seg_id m k)"
    if "content w' p \<noteq> None" "parent p = root" "str_find LOGCLEAN_WAL_SEGMENT_PREFIX_NAME p" for p
  proof (cases "p = seg_path root (seg_id m (length L))")
    case False
    then have "content w p \<noteq> None" using that(1) assms(2) by simp
    with that assms(1) show ?thesis unfolding log_segments_def by (metis length_append_singleton less_SucI)
  qed auto
qed

text \<open>Init in an empty log directory creates segment 1.\<close>

lemma Init_open_current_empty:
  assumes "log_world w (m_sRootDir st)" "log_segments w (m_sRootDir st) m []" "m_currentSegFd st = None"
  shows "\<exists>w'. Init_open_current st [] w =
     (W_OK, st\<lparr>m_minSegmentId := 1, m_currentSegmentId := 1, m_vInitSegments := [],
        m_currentSegFilePath := seg_path (m_sRootDir st) 1,
        m_currentSegFd := Some (seg_path (m_sRootDir st) 1, 4), m_curSegFileSize := 4\<rparr>, w') \<and>
     content w' = (content w)(seg_path (m_sRootDir st) 1 \<mapsto> segment_bytes []) \<and>
     is_dir w' = is_dir w \<and> log_world w' (m_sRootDir st) \<and> log_segments w' (m_sRootDir st) 1 [[]]"
proof -
  let ?root = "m_sRootDir st" and ?p = "seg_path (m_sRootDir st) 1"
  let ?st2 = "st\<lparr>m_minSegmentId := 1, m_currentSegmentId := 0\<rparr>"
  have one: "log_segments w ?root 1 []" using assms(2) by (simp add: log_segments_def)
  have lw1: "log_world w (m_sRootDir ?st2)" using assms(1) by simp
  have "content w ?p = None"
    using assms(2) by (rule_tac ccontr) (auto simp: log_segments_def)
  then have "content w (seg_path (m_sRootDir ?st2) (m_currentSegmentId ?st2 + 1)) = None" by simp
  from create_new_segment_file_done [OF lw1 this] obtain w2 where w2:
    "create_new_segment_file ?st2 w = (W_OK, ?st2\<lparr>m_currentSegmentId := 1, m_currentSegFilePath := ?p,
        m_currentSegFd := Some (?p, 4), m_curSegFileSize := 4\<rparr>, w2)"
    "content w2 = (content w)(?p \<mapsto> segment_bytes [])" "is_dir w2 = is_dir w" "log_world w2 ?root"
    by auto
  note lw2 = log_worldD [OF w2(4)]
  have c2: "content w2 ?p = Some (segment_bytes [])" using w2(2) by simp
  define w3 where "w3 = snd (sys_open ?p True False w2)"
  have op: "sys_open ?p True False w2 = (Some (?p, 0), w3)" using lw2 c2 by (simp add: w3_def prod_eq_iff)
  have q3: "quiet w2 w3" using quiet_open_existing [OF lw2(1), of ?p True] c2 by (simp add: w3_def)
  define w4 where "w4 = snd (GetFileSize_fd (Some (?p, 0)) w3)"
  have sz: "GetFileSize_fd (Some (?p, 0)) w3 = (Some 4, w4)"
    using quietD [OF q3] lw2(1) c2 by (simp add: w4_def prod_eq_iff length_segment_bytes)
  have q4: "quiet w3 w4" by (simp add: w4_def)
  define w5 where "w5 = snd (sys_lseek (Some (?p, 0)) 4 w4)"
  have sk: "sys_lseek (Some (?p, 0)) 4 w4 = ((True, Some (?p, 4)), w5)"
    using quietD(3) [OF quiet_trans [OF q3 q4] lw2(1)] by (simp add: w5_def prod_eq_iff)
  have q5: "quiet w2 w5" using quiet_trans [OF quiet_trans [OF q3 q4]] by (simp add: w5_def)
  have "Init_open_current st [] w = (W_OK, st\<lparr>m_minSegmentId := 1, m_currentSegmentId := 1,
      m_vInitSegments := [], m_currentSegFilePath := ?p, m_currentSegFd := Some (?p, 4), m_curSegFileSize := 4\<rparr>, w5)"
    using w2(1) op sz sk by (simp add: Init_open_current_def Let_def)
  moreover have "log_segments w5 ?root 1 ([] @ [[]])"
    by (rule log_segments_new [OF one]) (use w2 quietD [OF q5] in \<open>simp_all add: seg_id_def\<close>)
  ultimately show ?thesis
    using w2 quietD [OF q5] log_world_quiet [OF w2(4) q5] by simp
qed

lemma Init_empty:
  assumes "log_world w (m_sRootDir st)" "log_segments w (m_sRootDir st) 1 []"
    and "no_trunc_files w (m_sRootDir st)" "wal_paths st" "m_currentSegFd st = None"
  shows "\<exists>w'. Init st w =
     (W_OK, st\<lparr>m_bInited := True, m_minSegmentId := 1, m_currentSegmentId := 1, m_vInitSegments := [],
        m_currentSegFilePath := seg_path (m_sRootDir st) 1,
        m_currentSegFd := Some (seg_path (m_sRootDir st) 1, 4), m_curSegFileSize := 4\<rparr>, w') \<and>
     content w' = (content w)(seg_path (m_sRootDir st) 1 \<mapsto> segment_bytes []) \<and>
     is_dir w' = is_dir w \<and> log_world w' (m_sRootDir st) \<and> log_segments w' (m_sRootDir st) 1 [[]]"
proof -
  let ?st = "st\<lparr>m_bInited := True\<rparr>"
  obtain w1 where w1: "Init st w = Init_open_current ?st [] w1" "quiet w w1"
    using Init_lists_segments [OF assms(1-4)] by (auto simp: segment_list_def)
  have "log_world w1 (m_sRootDir ?st)" "log_segments w1 (m_sRootDir ?st) 1 []" "m_currentSegFd ?st = None"
    using log_world_quiet [OF assms(1) w1(2)] assms(2,5) quietD [OF w1(2)] by (simp_all add: log_segments_def)
  from Init_open_current_empty [OF this] w1 quietD [OF w1(2)] show ?thesis by simp
qed

subsection \<open>The index of entries\<close>

text \<open>The pairs (entry id, segment id) of a log, in order.\<close>

fun log_pairs :: "nat \<Rightarrow> log_entry list list \<Rightarrow> (u64 \<times> u64) list" where
  "log_pairs m [] = []"
| "log_pairs m (es # L) = map (\<lambda>x. (fst (snd x), word_of_nat m)) es @ log_pairs (Suc m) L"

definition log_ids :: "log_entry list list \<Rightarrow> u64 list" where
  "log_ids L = map (\<lambda>x. fst (snd x)) (concat L)"

definition note_pairs :: "(u64 \<times> u64) list \<Rightarrow> LogCleanWal \<Rightarrow> LogCleanWal" where
  "note_pairs ps st = fold (\<lambda>(i, s). note_entry s i) ps st"

lemma map_fst_log_pairs: "map fst (log_pairs m L) = log_ids L"
  by (induction m L rule: log_pairs.induct) (simp_all add: log_ids_def comp_def)

lemma log_pairs_append: "log_pairs m (L @ M) = log_pairs m L @ log_pairs (m + length L) M"
  by (induction m L rule: log_pairs.induct) simp_all

lemma note_entries_pairs: "note_entries s ids st = note_pairs (map (\<lambda>i. (i, s)) ids) st"
  by (simp add: note_entries_def note_pairs_def fold_map comp_def)

lemma note_pairs_append: "note_pairs (ps @ qs) st = note_pairs qs (note_pairs ps st)"
  by (simp add: note_pairs_def)

lemma note_pairs_fields:
  "note_pairs ps st = st\<lparr>m_mpEntriesIdSegId := m_mpEntriesIdSegId st ++ map_of (rev ps),
     m_lastTruncMaxIdx := fold (\<lambda>i. min (i - 1)) (map fst ps) (m_lastTruncMaxIdx st),
     m_currentEntryIdx := (if ps = [] then m_currentEntryIdx st else fst (last ps))\<rparr>"
proof (induction ps arbitrary: st)
  case Nil
  show ?case by (simp add: note_pairs_def)
next
  case (Cons a ps)
  obtain i s where a: "a = (i, s)" by (cases a)
  have np: "note_pairs (a # ps) st = note_pairs ps (note_entry s i st)" by (simp add: note_pairs_def a)
  have ne: "note_entry s i st = st\<lparr>m_mpEntriesIdSegId := (m_mpEntriesIdSegId st)(i \<mapsto> s),
      m_lastTruncMaxIdx := min (i - 1) (m_lastTruncMaxIdx st), m_currentEntryIdx := i\<rparr>"
    by (simp add: note_entry_def Let_def min_def)
  have "(m_mpEntriesIdSegId st)(i \<mapsto> s) ++ map_of (rev ps) = m_mpEntriesIdSegId st ++ map_of (rev (a # ps))"
    by (simp add: a map_add_assoc [symmetric])
  then show ?case unfolding np Cons.IH ne by (simp add: a)
qed

end
