(* ===== verification/WalOps.thy ===== *)
theory WalOps
  imports WalLog
begin

text \<open>
  The invariant of a running LogCleanWal object and the effect of Load, AppendEntry and Truncate on
  the log it represents.
\<close>

subsection \<open>Load\<close>

definition loadable :: "'e entry_ops \<Rightarrow> u32 \<Rightarrow> log_entry list list \<Rightarrow> bool" where
  "loadable ops batch L =
    (\<forall>es \<in> set L. unat batch + length (segment_bytes es) < 2 ^ 32 \<and> (\<forall>x \<in> set es. entry_ok ops x))"

lemma seg_id_Suc: "seg_id m (Suc k) = seg_id (Suc m) k"
  by (simp add: seg_id_def)

lemma segment_list_Cons:
  "segment_list root m (Suc n) = (seg_id m 0, seg_path root (seg_id m 0)) # segment_list root (Suc m) n"
  unfolding segment_list_def seg_id_Suc [symmetric] by (simp add: upt_conv_Cons map_Suc_upt [symmetric] del: upt_Suc)

lemma decoded_append: "decoded ops (es @ fs) = decoded ops es @ decoded ops fs"
  by (simp add: decoded_def)

lemma decoded_ids: "map fst (decoded ops es) = map (\<lambda>x. fst (snd x)) es"
  by (simp add: decoded_def comp_def split_beta)

lemma Load_loop_done:
  assumes "create_local ops" "reliable w" "wf_world w" "0 < m_batchReadSize st" "L \<noteq> []"
    and "\<forall>k < length L. content w (seg_path root (seg_id m k)) = Some (segment_bytes (L ! k))"
    and "loadable ops (m_batchReadSize st) L"
  shows "\<exists>bs w'. Load_loop ops (segment_list root m (length L)) batches st w =
      (W_OK, bs, (note_pairs (log_pairs m L) st)\<lparr>m_curSegFileSize := word_of_nat (length (segment_bytes (last L)))\<rparr>, w') \<and>
      concat bs = concat batches @ decoded ops (concat L) \<and> quiet w w'"
  using assms(2-)
proof (induction L arbitrary: m batches st w)
  case (Cons es L)
  have c0: "content w (seg_path root (seg_id m 0)) = Some (segment_bytes es)" using Cons.prems(5) by fastforce
  have ok: "\<forall>x \<in> set es. entry_ok ops x" "unat (m_batchReadSize st) + length (segment_bytes es) < 2 ^ 32"
    using Cons.prems(6) by (auto simp: loadable_def)
  from load_segment_parse [OF assms(1) Cons.prems(1,2) c0 Cons.prems(3) ok(2), of "seg_id m 0"]
    parse_segment_bytes [OF assms(1) ok(1)]
  obtain bs1 w1 where s1: "load_segment ops st (seg_path root (seg_id m 0)) (seg_id m 0) w =
      (Inr (word_of_nat (length (segment_bytes es))), bs1, note_entries (seg_id m 0) (map fst (decoded ops es)) st, w1)"
    "concat bs1 = decoded ops es" "quiet w w1" by (auto simp: quiet_def)
  let ?st1 = "note_entries (seg_id m 0) (map fst (decoded ops es)) st"
  have st1: "?st1 = note_pairs (map (\<lambda>x. (fst (snd x), word_of_nat m)) es) st"
    by (simp add: note_entries_pairs decoded_ids comp_def seg_id_def)
  show ?case
  proof (cases "L = []")
    case True
    with s1 st1 show ?thesis by (auto simp: segment_list_Cons segment_list_def decoded_def)
  next
    case False
    have cfg: "m_batchReadSize ?st1 = m_batchReadSize st" by (simp add: st1 note_pairs_fields)
    have "\<forall>k < length L. content w1 (seg_path root (seg_id (Suc m) k)) = Some (segment_bytes (L ! k))"
      using Cons.prems(5) quietD(1) [OF s1(3)] by (auto simp flip: seg_id_Suc)
    moreover have "loadable ops (m_batchReadSize ?st1) L" using Cons.prems(6) cfg by (simp add: loadable_def)
    moreover have "0 < m_batchReadSize ?st1" using Cons.prems(3) cfg by simp
    ultimately obtain bs w' where "Load_loop ops (segment_list root (Suc m) (length L)) (batches @ bs1) ?st1 w1 =
      (W_OK, bs, (note_pairs (log_pairs (Suc m) L) ?st1)\<lparr>m_curSegFileSize := word_of_nat (length (segment_bytes (last L)))\<rparr>, w')"
      "concat bs = concat (batches @ bs1) @ decoded ops (concat L)" "quiet w1 w'"
      using Cons.IH [of w1 ?st1 "Suc m" "batches @ bs1"] quietD(3,4) [OF s1(3)] Cons.prems(1,2) False by blast
    with s1 st1 False quiet_trans [OF s1(3)] show ?thesis
      by (auto simp: segment_list_Cons segment_list_simps decoded_append note_pairs_append)
  qed
qed simp

subsection \<open>The invariant of a running log\<close>

text \<open>
  \<open>wal_conf\<close>: what the constructor establishes, with room in the 32-bit offsets for a full segment
  and a batch.  \<open>wal_ok ops st w m L\<close>: the object \<open>st\<close> runs on the log of segments \<open>L\<close> (first number
  \<open>m\<close>) in the world \<open>w\<close>.
\<close>

definition wal_conf :: "LogCleanWal \<Rightarrow> bool" where
  "wal_conf st = (17 \<le> unat (m_batchReadSize st) \<and> 17 \<le> unat (m_segmentMaxSize st) \<and>
    m_maxEntrySize st = m_batchReadSize st - 17 \<and>
    unat (m_segmentMaxSize st) + 2 * unat (m_batchReadSize st) < 2 ^ 32 \<and> wal_paths st)"

definition wal_sizes :: "LogCleanWal \<Rightarrow> log_entry list list \<Rightarrow> bool" where
  "wal_sizes st L =
    ((\<forall>es \<in> set L. length (segment_bytes es) < unat (m_segmentMaxSize st) + unat (m_batchReadSize st)) \<and>
     length (segment_bytes (last L)) < unat (m_segmentMaxSize st) \<and> (\<forall>es \<in> set (butlast L). es \<noteq> []))"

definition wal_ids :: "LogCleanWal \<Rightarrow> log_entry list list \<Rightarrow> bool" where
  "wal_ids st L =
    (sorted_wrt (<) (log_ids L) \<and> 1 \<le> m_currentEntryIdx st \<and>
     m_lastTruncMaxIdx st \<le> m_currentEntryIdx st \<and>
     (\<forall>i \<in> set (log_ids L). 1 < i \<and> i \<le> m_currentEntryIdx st \<and> m_lastTruncMaxIdx st \<le> i))"

definition wal_handle :: "LogCleanWal \<Rightarrow> nat \<Rightarrow> log_entry list list \<Rightarrow> bool" where
  "wal_handle st m L =
    (m_bInited st \<and> m_bLoaded st \<and> 1 \<le> unat (m_minSegmentId st) \<and> unat (m_minSegmentId st) \<le> m \<and>
     m_currentSegmentId st = seg_id m (length L - 1) \<and>
     m_currentSegFd st = Some (seg_path (m_sRootDir st) (seg_id m (length L - 1)), length (segment_bytes (last L))) \<and>
     m_curSegFileSize st = word_of_nat (length (segment_bytes (last L))) \<and>
     m_mpEntriesIdSegId st = map_of (log_pairs m L))"

definition wal_ok :: "'e entry_ops \<Rightarrow> LogCleanWal \<Rightarrow> world \<Rightarrow> nat \<Rightarrow> log_entry list list \<Rightarrow> bool" where
  "wal_ok ops st w m L =
    (create_local ops \<and> wal_conf st \<and> L \<noteq> [] \<and> log_world w (m_sRootDir st) \<and>
     log_segments w (m_sRootDir st) m L \<and> wal_handle st m L \<and> wal_sizes st L \<and> wal_ids st L \<and>
     (\<forall>es \<in> set L. \<forall>x \<in> set es. entry_ok ops x))"

lemma wal_ok_loadable: "wal_ok ops st w m L \<Longrightarrow> loadable ops (m_batchReadSize st) L"
  unfolding wal_ok_def loadable_def wal_sizes_def wal_conf_def by fastforce

lemma distinct_log_ids: "sorted_wrt (<) (log_ids L) \<Longrightarrow> distinct (log_ids L)"
  using strict_sorted_iff by blast

lemma map_of_rev_distinct: "distinct (map fst ps) \<Longrightarrow> map_of (rev ps) = map_of ps"
  by (rule map_of_inject_set [THEN iffD2]) (simp_all add: rev_map [symmetric])

lemma fold_min_le: "fold (\<lambda>i. min (i - 1)) is (x :: u64) \<le> x"
proof (induction "is" arbitrary: x)
  case (Cons j js)
  show ?case using Cons.IH [of "min (j - 1) x"] by simp
qed simp

lemma fold_min_le_id:
  "\<forall>i \<in> set is. 0 < i \<Longrightarrow> i \<in> set is \<Longrightarrow> fold (\<lambda>i. min (i - 1)) is (x :: u64) \<le> i"
proof (induction "is" arbitrary: x)
  case (Cons j js)
  have "fold (\<lambda>i. min (i - 1)) js (min (j - 1) x) \<le> min (j - 1) x" by (rule fold_min_le)
  moreover have "j - 1 \<le> j" using Cons.prems(1) by (simp add: word_gt_0 word_le_nat_alt unat_minus_one)
  ultimately show ?case using Cons by (auto intro: order_trans)
qed simp

subsection \<open>Restart\<close>

text \<open>What a client does at start-up (MiniKV::Start): Init, then Load.\<close>

definition wal_start ::
    "'e entry_ops \<Rightarrow> LogCleanWal \<Rightarrow> world \<Rightarrow> wal_code \<times> (u64 \<times> 'e) list list \<times> LogCleanWal \<times> world" where
  "wal_start ops st w =
    (case Init st w of
       (rc, st, w) \<Rightarrow> if rc = W_OK then Load ops st w else (rc, [], st, w))"

text \<open>The part of the invariant that lives on disk, for the sizes of a given configuration.\<close>

definition log_on_disk :: "'e entry_ops \<Rightarrow> LogCleanWal \<Rightarrow> world \<Rightarrow> nat \<Rightarrow> log_entry list list \<Rightarrow> bool" where
  "log_on_disk ops st w m L =
    (create_local ops \<and> wal_conf st \<and> L \<noteq> [] \<and> log_world w (m_sRootDir st) \<and>
     log_segments w (m_sRootDir st) m L \<and> wal_sizes st L \<and> sorted_wrt (<) (log_ids L) \<and>
     (\<forall>i \<in> set (log_ids L). 1 < i) \<and> (\<forall>es \<in> set L. \<forall>x \<in> set es. entry_ok ops x))"

lemma wal_ok_on_disk: "wal_ok ops st w m L \<Longrightarrow> log_on_disk ops st w m L"
  by (auto simp: wal_ok_def log_on_disk_def wal_ids_def)

lemma log_on_disk_loadable: "log_on_disk ops st w m L \<Longrightarrow> loadable ops (m_batchReadSize st) L"
  unfolding log_on_disk_def loadable_def wal_sizes_def wal_conf_def by fastforce

definition fresh_index :: "LogCleanWal \<Rightarrow> bool" where
  "fresh_index st = (m_mpEntriesIdSegId st = Map.empty \<and> m_lastTruncMaxIdx st = 1 \<and> m_currentEntryIdx st = 1)"

definition fresh_wal :: "LogCleanWal \<Rightarrow> bool" where
  "fresh_wal st = (fresh_index st \<and> m_currentSegFd st = None)"

lemma ctor_fresh: "LogCleanWal_ctor pc = Some st \<Longrightarrow> fresh_wal st \<and> wal_paths st \<and> m_sRootDir st = RootDirPath pc \<and>
    m_batchReadSize st = ReadBatchSize pc \<and> m_segmentMaxSize st = MaxSegmentSize pc \<and>
    m_maxEntrySize st = ReadBatchSize pc - 17 \<and> 17 \<le> unat (ReadBatchSize pc) \<and> 17 \<le> unat (MaxSegmentSize pc)"
  by (auto simp: LogCleanWal_ctor_def fresh_wal_def fresh_index_def wal_paths_def trunc_info_path_def
      trunc_ok_path_def word_less_nat_alt not_less split: if_splits)

lemma sorted_le_last: "sorted_wrt (<) xs \<Longrightarrow> x \<in> set xs \<Longrightarrow> x \<le> last xs" for x :: "'a::linorder"
  by (induction xs) (auto simp: less_imp_le)

lemma log_pairs_Nil: "log_pairs m L = [] \<longleftrightarrow> log_ids L = []"
  using map_fst_log_pairs [of m L] by (metis map_is_Nil_conv)

lemma log_pairs_last: "log_pairs m L \<noteq> [] \<Longrightarrow> fst (last (log_pairs m L)) = last (log_ids L)"
  using last_map [of "log_pairs m L" fst] by (simp add: map_fst_log_pairs)

lemma loaded_ids:
  assumes "sorted_wrt (<) (log_ids L)" "\<forall>i \<in> set (log_ids L). 1 < i" "fresh_index st"
  shows "wal_ids (note_pairs (log_pairs m L) st) L"
    and "m_mpEntriesIdSegId (note_pairs (log_pairs m L) st) = map_of (log_pairs m L)"
proof -
  have pos: "\<forall>i \<in> set (log_ids L). 0 < i" using assms(2) by (auto intro: order.strict_trans [of 0 1])
  show "wal_ids (note_pairs (log_pairs m L) st) L"
    using assms pos fold_min_le [of "log_ids L" 1] fold_min_le_id [OF pos] log_pairs_last [of m L] log_pairs_Nil [of m L]
      sorted_le_last [OF assms(1)]
    unfolding wal_ids_def note_pairs_fields
    by (auto simp: map_fst_log_pairs fresh_index_def less_imp_le)
  show "m_mpEntriesIdSegId (note_pairs (log_pairs m L) st) = map_of (log_pairs m L)"
    using assms(3) distinct_log_ids [OF assms(1)]
    by (simp add: note_pairs_fields fresh_index_def map_of_rev_distinct map_fst_log_pairs)
qed

text \<open>Load on the object Init leaves behind.\<close>

abbreviation (input) opened_wal :: "LogCleanWal \<Rightarrow> nat \<Rightarrow> log_entry list list \<Rightarrow> LogCleanWal" where
  "opened_wal st m L \<equiv>
    st\<lparr>m_bInited := True, m_minSegmentId := seg_id m 0, m_currentSegmentId := seg_id m (length L - 1),
        m_vInitSegments := segment_list (m_sRootDir st) m (length L),
        m_currentSegFilePath := seg_path (m_sRootDir st) (seg_id m (length L - 1)),
        m_currentSegFd := Some (seg_path (m_sRootDir st) (seg_id m (length L - 1)), length (segment_bytes (last L)))\<rparr>"

abbreviation (input) started_wal :: "LogCleanWal \<Rightarrow> nat \<Rightarrow> log_entry list list \<Rightarrow> LogCleanWal \<Rightarrow> bool" where
  "started_wal st m L st' \<equiv>
    m_sRootDir st' = m_sRootDir st \<and> m_currentEntryIdx st' = (if log_ids L = [] then 1 else last (log_ids L)) \<and>
    m_batchReadSize st' = m_batchReadSize st \<and> m_segmentMaxSize st' = m_segmentMaxSize st \<and>
    m_writeEntryVersion st' = m_writeEntryVersion st \<and> m_minSegmentId st' = seg_id m 0"

lemma Load_log:
  assumes "log_on_disk ops st w m L" "fresh_wal st"
  shows "\<exists>bs st' w'. Load ops (opened_wal st m L) w = (W_OK, bs, st', w') \<and> concat bs = decoded ops (concat L) \<and>
           wal_ok ops st' w' m L \<and> quiet w w' \<and> started_wal st m L st'"
proof -
  let ?root = "m_sRootDir st" and ?n = "length L - 1"
  have d: "create_local ops" "wal_conf st" "L \<noteq> []" "log_world w ?root" "log_segments w ?root m L" "wal_sizes st L"
    "sorted_wrt (<) (log_ids L)" "\<forall>i \<in> set (log_ids L). 1 < i" "\<forall>es \<in> set L. \<forall>x \<in> set es. entry_ok ops x"
    using assms(1) unfolding log_on_disk_def by blast+
  let ?st1 = "opened_wal st m L"
  let ?st2 = "?st1\<lparr>m_bLoaded := True, m_minSegmentId := seg_id m 0\<rparr>"
  note lw = log_worldD [OF d(4)]
  have m: "1 \<le> m" "m + length L < 2 ^ 64 - 1" using d(5) by (auto simp: log_segments_def)
  have segs: "\<forall>k < length L. content w (seg_path ?root (seg_id m k)) = Some (segment_bytes (L ! k))"
    using d(5) by (simp add: log_segments_def)
  have batch: "0 < m_batchReadSize ?st2" using d(2) by (auto simp: wal_conf_def word_less_nat_alt)
  have ld: "loadable ops (m_batchReadSize ?st2) L" using log_on_disk_loadable [OF assms(1)] by simp
  let ?st3 = "(note_pairs (log_pairs m L) ?st2)\<lparr>m_curSegFileSize := word_of_nat (length (segment_bytes (last L)))\<rparr>"
  obtain bs w2 where w2: "Load_loop ops (segment_list ?root m (length L)) [] ?st2 w = (W_OK, bs, ?st3, w2)"
    "concat bs = decoded ops (concat L)" "quiet w w2"
    using Load_loop_done [OF d(1) lw(1,2) batch d(3) segs ld, of "[]"] by auto
  have run: "Load ops ?st1 w = (W_OK, bs, ?st3, w2)"
    using w2(1) d(3) by (simp add: Load_def segment_list_simps)
  have ids: "wal_ids ?st3 L" "m_mpEntriesIdSegId ?st3 = map_of (log_pairs m L)"
    using loaded_ids [OF d(7,8), of ?st2 m] assms(2)
    by (simp_all add: wal_ids_def fresh_wal_def fresh_index_def)
  have "wal_handle ?st3 m L"
    using m ids(2) by (simp add: wal_handle_def note_pairs_fields unat_seg_id)
  moreover have "wal_conf ?st3" "wal_sizes ?st3 L" "m_sRootDir ?st3 = ?root"
    using d(2,6) by (simp_all add: wal_conf_def wal_sizes_def wal_paths_def note_pairs_fields)
  moreover have "log_world w2 ?root" "log_segments w2 ?root m L"
    using log_world_quiet [OF d(4) w2(3)] d(5) quietD(1) [OF w2(3)] by (simp_all add: log_segments_def)
  ultimately have "wal_ok ops ?st3 w2 m L" using d ids by (simp add: wal_ok_def)
  moreover have "m_currentEntryIdx ?st3 = (if log_ids L = [] then 1 else last (log_ids L))"
    using assms(2) log_pairs_last [of m L] log_pairs_Nil [of m L]
    by (simp add: note_pairs_fields fresh_wal_def fresh_index_def)
  ultimately show ?thesis using run w2(2,3) by (auto simp: note_pairs_fields)
qed

lemma log_on_disk_quiet: "log_on_disk ops st w m L \<Longrightarrow> quiet w w' \<Longrightarrow> log_on_disk ops st w' m L"
  using log_world_quiet [of w "m_sRootDir st" w'] quietD(1) [of w w'] by (auto simp: log_on_disk_def log_segments_def)

lemma wal_start_log:
  assumes "log_on_disk ops st w m L" "no_trunc_files w (m_sRootDir st)" "fresh_wal st"
  shows "\<exists>bs st' w'. wal_start ops st w = (W_OK, bs, st', w') \<and> concat bs = decoded ops (concat L) \<and>
           wal_ok ops st' w' m L \<and> quiet w w' \<and> started_wal st m L st'"
proof -
  have d: "wal_conf st" "L \<noteq> []" "log_world w (m_sRootDir st)" "log_segments w (m_sRootDir st) m L"
    using assms(1) unfolding log_on_disk_def by blast+
  have paths: "wal_paths st" using d(1) by (simp add: wal_conf_def)
  obtain w1 where w1: "Init st w = (W_OK, opened_wal st m L, w1)" "quiet w w1"
    using Init_existing [OF d(3,4,2) assms(2) paths] by blast
  from Load_log [OF log_on_disk_quiet [OF assms(1) w1(2)] assms(3)] quiet_trans [OF w1(2)] w1(1)
  show ?thesis unfolding wal_start_def by auto
qed

subsection \<open>AppendEntry\<close>

definition extend_last :: "log_entry list list \<Rightarrow> log_entry \<Rightarrow> log_entry list list" where
  "extend_last L x = butlast L @ [last L @ [x]]"

text \<open>An append extends the last segment and opens a new one when the segment is full.\<close>

definition append_log :: "nat \<Rightarrow> log_entry list list \<Rightarrow> log_entry \<Rightarrow> log_entry list list" where
  "append_log maxSize L x =
    (if maxSize \<le> length (segment_bytes (last L @ [x])) then extend_last L x @ [[]] else extend_last L x)"

lemma length_extend_last [simp]: "L \<noteq> [] \<Longrightarrow> length (extend_last L x) = length L"
  by (simp add: extend_last_def)

lemma last_extend_last [simp]: "last (extend_last L x) = last L @ [x]"
  by (simp add: extend_last_def)

lemma concat_extend_last [simp]: "L \<noteq> [] \<Longrightarrow> concat (extend_last L x) = concat L @ [x]"
  by (cases L rule: rev_cases) (simp_all add: extend_last_def)

lemma concat_append_log [simp]: "L \<noteq> [] \<Longrightarrow> concat (append_log n L x) = concat L @ [x]"
  by (simp add: append_log_def)

lemma log_ids_extend_last [simp]: "L \<noteq> [] \<Longrightarrow> log_ids (extend_last L x) = log_ids L @ [fst (snd x)]"
  by (simp add: log_ids_def)

lemma log_ids_append_log [simp]: "L \<noteq> [] \<Longrightarrow> log_ids (append_log n L x) = log_ids L @ [fst (snd x)]"
  by (simp add: log_ids_def)

lemma log_pairs_extend_last:
  "L \<noteq> [] \<Longrightarrow> log_pairs m (extend_last L x) = log_pairs m L @ [(fst (snd x), seg_id m (length L - 1))]"
  by (cases L rule: rev_cases) (simp_all add: extend_last_def log_pairs_append seg_id_def)

lemma log_segments_extend:
  assumes "log_segments w root m L" "L \<noteq> []"
    and "content w' = (content w)(seg_path root (seg_id m (length L - 1)) \<mapsto> segment_bytes (last L @ [x]))"
  shows "log_segments w' root m (extend_last L x)"
  unfolding log_segments_def
proof (intro conjI allI impI)
  have m: "1 \<le> m" "m + length L < 2 ^ 64 - 1" using assms(1) by (simp_all add: log_segments_def)
  then show "1 \<le> m" "m + length (extend_last L x) < 2 ^ 64 - 1" using assms(2) by simp_all
  show "content w' (seg_path root (seg_id m k)) = Some (segment_bytes (extend_last L x ! k))"
    if "k < length (extend_last L x)" for k
  proof (cases "k = length L - 1")
    case True
    with assms(2,3) show ?thesis by (simp add: extend_last_def nth_append)
  next
    case False
    with that assms(2) have k: "k < length L - 1" by simp
    then have "seg_id m k \<noteq> seg_id m (length L - 1)" using m by (subst seg_id_eq) auto
    moreover have "extend_last L x ! k = L ! k" using k by (simp add: extend_last_def nth_append nth_butlast)
    ultimately show ?thesis using assms(1,3) k by (simp add: log_segments_def)
  qed
  show "\<exists>k < length (extend_last L x). p = seg_path root (seg_id m k)"
    if "content w' p \<noteq> None" "parent p = root" "str_find LOGCLEAN_WAL_SEGMENT_PREFIX_NAME p" for p
  proof (cases "p = seg_path root (seg_id m (length L - 1))")
    case True
    then show ?thesis using assms(2) by (intro exI [of _ "length L - 1"]) simp
  next
    case False
    then have "content w p \<noteq> None" using that(1) assms(3) by simp
    with that assms(1,2) show ?thesis unfolding log_segments_def by simp
  qed
qed

text \<open>An entry that AppendEntry accepts and that can be read back.\<close>

definition appendable :: "'e entry_ops \<Rightarrow> LogCleanWal \<Rightarrow> nat \<Rightarrow> log_entry list list \<Rightarrow> 'e \<Rightarrow> bytes \<Rightarrow> bool" where
  "appendable ops st m L e bs =
    (Encode ops e = Some bs \<and> bs \<noteq> [] \<and> decode_entry ops bs \<noteq> None \<and> length bs < 2 ^ 31 \<and>
     length bs + 34 \<le> unat (m_batchReadSize st) \<and> Suc (unat (m_currentEntryIdx st)) < 2 ^ 64 \<and>
     m + length L + 1 < 2 ^ 64 - 1)"

abbreviation next_id :: "LogCleanWal \<Rightarrow> u64" where
  "next_id st \<equiv> m_currentEntryIdx st + 1"

lemma wal_ids_extend:
  assumes "wal_ids st L" "L \<noteq> []" "Suc (unat (m_currentEntryIdx st)) < 2 ^ 64"
    and "m_currentEntryIdx st' = next_id st" "m_lastTruncMaxIdx st' = m_lastTruncMaxIdx st"
    and "log_ids L' = log_ids L @ [next_id st]"
  shows "wal_ids st' L'"
proof -
  have up: "m_currentEntryIdx st < next_id st"
    using unat_suc_no_wrap [of "m_currentEntryIdx st"] assms(3) by (simp add: word_less_nat_alt)
  then have "\<forall>i \<in> set (log_ids L). i < next_id st" using assms(1) by (auto simp: wal_ids_def intro: le_less_trans)
  moreover have "1 < next_id st" using assms(1) up by (auto simp: wal_ids_def)
  ultimately show ?thesis
    using assms up by (auto simp: wal_ids_def sorted_wrt_append intro: less_imp_le)
qed

lemma map_of_snoc: "k \<notin> set (map fst ps) \<Longrightarrow> map_of (ps @ [(k, v)]) = (map_of ps)(k \<mapsto> v)"
  by (induction ps) (auto simp: fun_upd_twist)

text \<open>The write of the entry, before the possible change of segment.\<close>

lemma AppendEntry_writes:
  assumes "wal_ok ops st w m L" "appendable ops st m L e bs"
    and "x = (m_writeEntryVersion st, next_id st, bs)"
    and "wb = wal_entry_bytes (m_writeEntryVersion st) (next_id st) bs (m_curSegFileSize st)"
    and "p = seg_path (m_sRootDir st) (seg_id m (length L - 1))" "n = length (segment_bytes (last L))"
  shows "\<exists>w'. WriteFully (m_currentSegFd st) wb w = ((Some (length wb), Some (p, n + 17 + length bs)), w') \<and>
    content w' = (content w)(p \<mapsto> segment_bytes (last L @ [x])) \<and> is_dir w' = is_dir w \<and>
    log_world w' (m_sRootDir st) \<and> n + 17 + length bs = length (segment_bytes (last L @ [x]))"
proof -
  have ok: "L \<noteq> []" "log_world w (m_sRootDir st)" "log_segments w (m_sRootDir st) m L" "wal_handle st m L"
    using assms(1) by (auto simp: wal_ok_def)
  have fd: "m_currentSegFd st = Some (p, n)" "m_curSegFileSize st = word_of_nat n"
    using ok(4) assms(5,6) by (simp_all add: wal_handle_def)
  have c: "content w p = Some (segment_bytes (last L))"
    using ok(1,3) assms(5) by (simp add: log_segments_def last_conv_nth)
  note lw = log_worldD [OF ok(2)]
  have sb: "segment_bytes (last L) @ wb = segment_bytes (last L @ [x])"
    using segment_bytes_snoc [of "last L" "m_writeEntryVersion st" "next_id st" bs] assms(3,4,6) fd(2) by simp
  define w' where "w' = snd (WriteFully (Some (p, n)) wb w)"
  have "n \<le> length (segment_bytes (last L))" using assms(6) by simp
  note wd = WriteFully_done [OF lw(1) c this, of wb]
  have lwb: "length wb = 17 + length bs" by (simp add: assms(4))
  have "WriteFully (Some (p, n)) wb w = ((Some (length wb), Some (p, n + 17 + length bs)), w')"
    using wd(1) lwb by (simp add: w'_def prod_eq_iff)
  moreover have "content w' = (content w)(p \<mapsto> segment_bytes (last L @ [x]))"
    using wd(2) sb assms(6) by (simp add: w'_def)
  moreover have dir: "is_dir w' = is_dir w" "reliable w'" "wf_world w'"
    using wd(3) lw(2) by (simp_all add: w'_def)
  moreover have "n + 17 + length bs = length (segment_bytes (last L @ [x]))"
    using sb lwb assms(6) by (metis length_append add.assoc)
  ultimately show ?thesis using fd(1) log_world_step [OF ok(2) dir] by simp
qed

lemma next_segment_missing:
  assumes "log_segments w root m L" "m + length L + 1 < 2 ^ 64 - 1"
  shows "content w (seg_path root (seg_id m (length L))) = None"
proof (rule ccontr)
  assume "content w (seg_path root (seg_id m (length L))) \<noteq> None"
  with assms(1) obtain k where "k < length L" "seg_id m (length L) = seg_id m k"
    unfolding log_segments_def by (metis parent_seg_path str_find_seg_path seg_path_inject)
  moreover from this(1) have "m + k < 2 ^ 64" "m + length L < 2 ^ 64" using assms(2) by linarith+
  ultimately show False by (metis seg_id_eq less_irrefl)
qed

lemma entry_fits:
  assumes "wal_conf st" "length bs < 2 ^ 31" "length bs + 34 \<le> unat (m_batchReadSize st)"
  shows "\<not> word_of_nat (length bs) + 17 > m_maxEntrySize st"
proof -
  have b: "17 \<le> m_batchReadSize st" using assms(1) by (simp add: wal_conf_def word_le_nat_alt)
  have "unat (word_of_nat (length bs) + 17 :: u32) = length bs + 17"
    using assms(2) unat_plus_no_wrap [of "word_of_nat (length bs) :: u32" 17] by (simp add: unat_word_of_nat)
  moreover have "unat (m_maxEntrySize st) = unat (m_batchReadSize st) - 17"
    using assms(1) unat_sub [OF b] by (simp add: wal_conf_def)
  ultimately show ?thesis using assms(3) by (simp add: word_less_nat_alt)
qed

definition same_conf :: "LogCleanWal \<Rightarrow> LogCleanWal \<Rightarrow> bool" where
  "same_conf st st' = (m_sRootDir st' = m_sRootDir st \<and> m_batchReadSize st' = m_batchReadSize st \<and>
    m_segmentMaxSize st' = m_segmentMaxSize st \<and> m_writeEntryVersion st' = m_writeEntryVersion st)"

lemma AppendEntry_done:
  assumes ok: "wal_ok ops st w m L" and app: "appendable ops st m L e bs"
    and x: "x = (m_writeEntryVersion st, next_id st, bs)"
  shows "\<exists>st' w'. AppendEntry ops st e w = (Inr (next_id st), st', w') \<and>
    wal_ok ops st' w' m (append_log (unat (m_segmentMaxSize st)) L x) \<and>
    m_currentEntryIdx st' = next_id st \<and> same_conf st st' \<and> is_dir w' = is_dir w \<and>
    (\<forall>p. (\<forall>i. p \<noteq> seg_path (m_sRootDir st) i) \<longrightarrow> content w' p = content w p)"
proof -
  let ?root = "m_sRootDir st" and ?cur = "seg_id m (length L - 1)"
  define n where "n = length (segment_bytes (last L))"
  define n' where "n' = n + 17 + length bs"
  define p where "p = seg_path ?root ?cur"
  define wb where "wb = wal_entry_bytes (m_writeEntryVersion st) (next_id st) bs (m_curSegFileSize st)"
  have o: "create_local ops" "wal_conf st" "L \<noteq> []" "log_world w ?root" "log_segments w ?root m L" "wal_handle st m L"
    "wal_sizes st L" "wal_ids st L" "\<forall>es \<in> set L. \<forall>x \<in> set es. entry_ok ops x"
    using ok unfolding wal_ok_def by blast+
  have a: "Encode ops e = Some bs" "bs \<noteq> []" "decode_entry ops bs \<noteq> None" "length bs < 2 ^ 31"
    "length bs + 34 \<le> unat (m_batchReadSize st)" "Suc (unat (m_currentEntryIdx st)) < 2 ^ 64" "m + length L + 1 < 2 ^ 64 - 1"
    using app unfolding appendable_def by blast+
  obtain w1 where w1: "WriteFully (m_currentSegFd st) wb w = ((Some (length wb), Some (p, n')), w1)"
    "content w1 = (content w)(p \<mapsto> segment_bytes (last L @ [x]))" "is_dir w1 = is_dir w" "log_world w1 ?root"
    "n' = length (segment_bytes (last L @ [x]))"
    using AppendEntry_writes [OF ok app x wb_def p_def n_def] unfolding n'_def by blast
  define w2 where "w2 = snd (sys_fdatasync (Some (p, n')) w1)"
  have sync: "sys_fdatasync (Some (p, n')) w1 = (True, w2)"
    using log_worldD(1) [OF w1(4)] by (simp add: w2_def prod_eq_iff)
  have q2: "quiet w1 w2" by (simp add: w2_def)
  note q2D = quietD [OF q2]
  have lw2: "log_world w2 ?root" by (rule log_world_quiet [OF w1(4) q2])
  define st3 where "st3 = st\<lparr>m_currentEntryIdx := next_id st, m_currentSegFd := Some (p, n'),
      m_curSegFileSize := word_of_nat n', m_mpEntriesIdSegId := (m_mpEntriesIdSegId st)(next_id st \<mapsto> ?cur)\<rparr>"
  have h: "m_bInited st" "m_bLoaded st" "m_currentSegmentId st = ?cur" "m_curSegFileSize st = word_of_nat n"
    "m_mpEntriesIdSegId st = map_of (log_pairs m L)"
    using o(6) by (simp_all add: wal_handle_def n_def)
  have sz: "m_curSegFileSize st + (word_of_nat (length bs) + 17) = word_of_nat n'" by (simp add: h(4) n'_def)
  have n'32: "n' < 2 ^ 32" using o(2,7) a(5) unfolding wal_sizes_def wal_conf_def n'_def n_def by linarith
  have full: "word_of_nat n' \<ge> m_segmentMaxSize st \<longleftrightarrow> unat (m_segmentMaxSize st) \<le> n'"
    using n'32 by (simp add: word_le_nat_alt unat_word_of_nat)
  have run: "AppendEntry ops st e w =
      (if unat (m_segmentMaxSize st) \<le> n'
       then case create_new_segment_file st3 w2 of
           (W_OK, st, w) \<Rightarrow> (Inr (m_currentEntryIdx st), st, w) | (rc, st, w) \<Rightarrow> (Inl rc, st, w)
       else (Inr (next_id st), st3, w2))"
    using h(1,2) a(1,4) entry_fits [OF o(2) a(4,5)] w1(1) sync
    by (simp add: AppendEntry_def wb_def [symmetric] sz full h(3) st3_def Let_def)
  (* the log with the entry in its last segment *)
  let ?L1 = "extend_last L x"
  have seg1: "log_segments w2 ?root m ?L1"
    by (rule log_segments_extend [OF o(5,3)]) (use w1(2) q2D(1) in \<open>simp add: p_def\<close>)
  have new_id: "next_id st \<notin> set (log_ids L)"
    using wal_ids_extend [OF o(8,3) a(6), of "st3" ?L1] o(3) x by (auto simp: wal_ids_def st3_def sorted_wrt_append)
  have map3: "m_mpEntriesIdSegId st3 = map_of (log_pairs m ?L1)"
    using map_of_snoc [of "next_id st" "log_pairs m L" ?cur] new_id o(3) x
    by (simp add: st3_def h(5) log_pairs_extend_last map_fst_log_pairs)
  have ids3: "wal_ids st3 (append_log (unat (m_segmentMaxSize st)) L x)"
    by (rule wal_ids_extend [OF o(8,3) a(6)]) (use o(3) x in \<open>simp_all add: st3_def\<close>)
  have ent: "\<forall>es \<in> set ?L1. \<forall>x \<in> set es. entry_ok ops x"
    using o(3,9) a x by (auto simp: extend_last_def entry_ok_def dest: in_set_butlastD)
  have sizes: "\<forall>es \<in> set ?L1. length (segment_bytes es) < unat (m_segmentMaxSize st) + unat (m_batchReadSize st)"
    using o(3,7) w1(5) a(5) unfolding n'_def n_def wal_sizes_def extend_last_def
    by (auto dest: in_set_butlastD)
  have filled: "\<forall>es \<in> set (butlast L). es \<noteq> []" using o(7) by (simp add: wal_sizes_def)
  have filled1: "\<forall>es \<in> set ?L1. es \<noteq> []" using filled by (auto simp: extend_last_def)
  have conf3: "wal_conf st3" "same_conf st st3" using o(2) by (simp_all add: wal_conf_def wal_paths_def same_conf_def st3_def)
  have frame2: "\<forall>q. (\<forall>i. q \<noteq> seg_path ?root i) \<longrightarrow> content w2 q = content w q"
    using w1(2) q2D(1) by (simp add: p_def)
  show ?thesis
  proof (cases "unat (m_segmentMaxSize st) \<le> n'")
    case False
    have L': "append_log (unat (m_segmentMaxSize st)) L x = ?L1" using False w1(5) by (simp add: append_log_def)
    have "wal_handle st3 m ?L1"
      using o(3,6) map3 w1(5) by (simp add: wal_handle_def st3_def p_def)
    moreover have "wal_sizes st3 ?L1" using sizes False w1(5) filled by (simp add: wal_sizes_def st3_def extend_last_def)
    ultimately have "wal_ok ops st3 w2 m ?L1"
      using o(1,3) conf3 lw2 seg1 ids3 ent unfolding wal_ok_def L' by (simp add: st3_def extend_last_def)
    then show ?thesis
      using run False L' conf3(2) frame2 w1(3) q2D(2) by (auto simp: st3_def)
  next
    case True
    have L': "append_log (unat (m_segmentMaxSize st)) L x = ?L1 @ [[]]" using True w1(5) by (simp add: append_log_def)
    have nxt: "m_currentSegmentId st3 + 1 = seg_id m (length L)"
      using o(3) h(3) by (simp add: st3_def seg_id_def of_nat_diff Suc_le_eq)
    have r3: "m_sRootDir st3 = ?root" by (simp add: st3_def)
    have miss: "content w2 (seg_path (m_sRootDir st3) (m_currentSegmentId st3 + 1)) = None"
      using next_segment_missing [OF seg1] a(7) o(3) nxt r3 by simp
    obtain w3 where w3: "create_new_segment_file st3 w2 =
       (W_OK, st3\<lparr>m_currentSegmentId := seg_id m (length L),
          m_currentSegFilePath := seg_path ?root (seg_id m (length L)),
          m_currentSegFd := Some (seg_path ?root (seg_id m (length L)), 4), m_curSegFileSize := 4\<rparr>, w3)"
      "content w3 = (content w2)(seg_path ?root (seg_id m (length L)) \<mapsto> segment_bytes [])"
      "is_dir w3 = is_dir w2" "log_world w3 ?root"
      using create_new_segment_file_done [of w2 st3] lw2 miss nxt r3 by auto
    let ?st4 = "st3\<lparr>m_currentSegmentId := seg_id m (length L),
          m_currentSegFilePath := seg_path ?root (seg_id m (length L)),
          m_currentSegFd := Some (seg_path ?root (seg_id m (length L)), 4), m_curSegFileSize := 4\<rparr>"
    have seg3: "log_segments w3 ?root m (?L1 @ [[]])"
      by (rule log_segments_new [OF seg1]) (use w3(2) o(3) a(7) in simp_all)
    have "wal_handle ?st4 m (?L1 @ [[]])"
      using o(3,6) map3 by (simp add: wal_handle_def st3_def log_pairs_append length_segment_bytes)
    moreover have "wal_sizes ?st4 (?L1 @ [[]])"
      using sizes o(2) filled1 by (auto simp: wal_sizes_def st3_def length_segment_bytes wal_conf_def)
    moreover have "wal_ids ?st4 (?L1 @ [[]])" using ids3 unfolding L' by (simp add: wal_ids_def)
    ultimately have "wal_ok ops ?st4 w3 m (?L1 @ [[]])"
      using o(1,3) conf3 w3(4) seg3 ent unfolding wal_ok_def
      by (simp add: st3_def wal_conf_def wal_paths_def)
    then show ?thesis
      using run True L' conf3(2) frame2 w1(3) q2D(2) w3 by (auto simp: same_conf_def st3_def)
  qed
qed

end
