(* ===== verification/WalDurable.thy ===== *)
theory WalDurable
  imports WalOps
begin

text \<open>
  The contract a client relies on (a durable log: appended entries come back, in order, after a
  restart) as a locale, and LogCleanWal as an implementation of it.
\<close>

subsection \<open>The contract\<close>

text \<open>Appending a sequence of entries; None when an append is refused.\<close>

fun append_seq :: "('s \<Rightarrow> 'e \<Rightarrow> (wal_code + u64) \<times> 's) \<Rightarrow> 's \<Rightarrow> 'e list \<Rightarrow> u64 list option \<times> 's" where
  "append_seq app s [] = (Some [], s)"
| "append_seq app s (e # es) =
    (case app s e of
       (Inl rc, s) \<Rightarrow> (None, s)
     | (Inr i, s) \<Rightarrow> (case append_seq app s es of (None, s) \<Rightarrow> (None, s) | (Some is, s) \<Rightarrow> (Some (i # is), s)))"

locale durable_log =
  fixes repr :: "'s \<Rightarrow> (u64 \<times> 'e) list \<Rightarrow> bool"
    and good :: "'e \<Rightarrow> bool"
    and kept :: "'e \<Rightarrow> 'e"
    and room :: "'s \<Rightarrow> nat \<Rightarrow> bool"
    and append :: "'s \<Rightarrow> 'e \<Rightarrow> (wal_code + u64) \<times> 's"
    and restart :: "'s \<Rightarrow> (wal_code \<times> (u64 \<times> 'e) list) \<times> 's"
  assumes append_law: "repr s log \<Longrightarrow> good e \<Longrightarrow> room s (Suc n) \<Longrightarrow>
      \<exists>i s'. append s e = (Inr i, s') \<and> repr s' (log @ [(i, kept e)]) \<and> room s' n"
    and restart_law: "repr s log \<Longrightarrow> \<exists>s'. restart s = ((W_OK, log), s') \<and> repr s' log"
    and increasing: "repr s log \<Longrightarrow> sorted_wrt (<) (map fst log)"
begin

lemma append_seq_durable:
  assumes "repr s log" "\<forall>e \<in> set es. good e" "room s (length es)"
  shows "\<exists>is s' s''. append_seq append s es = (Some is, s') \<and> length is = length es \<and>
           restart s' = ((W_OK, log @ zip is (map kept es)), s'') \<and> repr s'' (log @ zip is (map kept es))"
  using assms
proof (induction es arbitrary: s log)
  case Nil
  then show ?case using restart_law [of s log] by auto
next
  case (Cons e es)
  obtain i s1 where s1: "append s e = (Inr i, s1)" "repr s1 (log @ [(i, kept e)])" "room s1 (length es)"
    using append_law [of s log e "length es"] Cons.prems by auto
  from Cons.IH [OF s1(2) _ s1(3)] Cons.prems(2) obtain "is" s' s'' where
    "append_seq append s1 es = (Some is, s')" "length is = length es"
    "restart s' = ((W_OK, (log @ [(i, kept e)]) @ zip is (map kept es)), s'')" "repr s'' ((log @ [(i, kept e)]) @ zip is (map kept es))" by auto
  with s1 show ?case by auto
qed

lemma restart_twice:
  assumes "repr s log" "restart s = (r, s')"
  shows "r = (W_OK, log) \<and> fst (restart s') = (W_OK, log)"
  using assms restart_law by (metis fst_conv prod.inject)

end

subsection \<open>LogCleanWal implements it\<close>

text \<open>The states are pairs of the object and the world.\<close>

definition wal_append :: "'e entry_ops \<Rightarrow> LogCleanWal \<times> world \<Rightarrow> 'e \<Rightarrow> (wal_code + u64) \<times> LogCleanWal \<times> world" where
  "wal_append ops s e = AppendEntry ops (fst s) e (snd s)"

text \<open>A restart forgets the object, constructs a new one from the configuration, and starts it.\<close>

definition wal_restart ::
    "'e entry_ops \<Rightarrow> LogCleanWalConfig \<Rightarrow> LogCleanWal \<times> world \<Rightarrow>
      (wal_code \<times> (u64 \<times> 'e) list) \<times> LogCleanWal \<times> world" where
  "wal_restart ops pc s =
    (case LogCleanWal_ctor pc of
       None \<Rightarrow> ((W_Undefined, []), s)
     | Some st \<Rightarrow> (case wal_start ops st (snd s) of (rc, bs, st', w') \<Rightarrow> ((rc, concat bs), st', w')))"

definition wal_good :: "'e entry_ops \<Rightarrow> LogCleanWalConfig \<Rightarrow> 'e \<Rightarrow> bool" where
  "wal_good ops pc e =
    (case Encode ops e of
       None \<Rightarrow> False
     | Some bs \<Rightarrow> bs \<noteq> [] \<and> decode_entry ops bs \<noteq> None \<and> length bs < 2 ^ 31 \<and>
                 length bs + 34 \<le> unat (ReadBatchSize pc))"

definition wal_room :: "LogCleanWal \<times> world \<Rightarrow> nat \<Rightarrow> bool" where
  "wal_room s n = (unat (m_currentEntryIdx (fst s)) + n < 2 ^ 64 \<and>
                   unat (m_currentSegmentId (fst s)) + n + 1 < 2 ^ 64 - 1)"

definition wal_configured :: "LogCleanWalConfig \<Rightarrow> LogCleanWal \<Rightarrow> bool" where
  "wal_configured pc st =
    (case LogCleanWal_ctor pc of None \<Rightarrow> False | Some st0 \<Rightarrow> same_conf st0 st \<and> wal_conf st0)"

definition wal_repr ::
    "'e entry_ops \<Rightarrow> LogCleanWalConfig \<Rightarrow> LogCleanWal \<times> world \<Rightarrow> (u64 \<times> 'e) list \<Rightarrow> bool" where
  "wal_repr ops pc s log =
    (\<exists>m L. wal_ok ops (fst s) (snd s) m L \<and> no_trunc_files (snd s) (m_sRootDir (fst s)) \<and>
       wal_configured pc (fst s) \<and> log = decoded ops (concat L))"

lemma length_append_log: "L \<noteq> [] \<Longrightarrow> length (append_log n L x) \<le> Suc (length L)"
  by (simp add: append_log_def)

lemma wal_current_segment:
  assumes "wal_ok ops st w m L"
  shows "unat (m_currentSegmentId st) = m + length L - 1" "L \<noteq> []"
proof -
  have ne: "L \<noteq> []" and "m + length L < 2 ^ 64 - 1" "m_currentSegmentId st = seg_id m (length L - 1)"
    using assms by (auto simp: wal_ok_def log_segments_def wal_handle_def)
  then show "unat (m_currentSegmentId st) = m + length L - 1" "L \<noteq> []"
    using unat_seg_id [of m "length L - 1"] by (cases L; auto)+
qed

lemma wal_good_appendable:
  assumes "wal_ok ops st w m L" "wal_configured pc st" "wal_good ops pc e" "wal_room (st, w) (Suc n)"
  obtains bs where "appendable ops st m L e bs" "decode_entry ops bs = Some (stored ops e)"
proof -
  obtain bs where bs: "Encode ops e = Some bs" "bs \<noteq> []" "decode_entry ops bs = Some (stored ops e)" "length bs < 2 ^ 31"
    "length bs + 34 \<le> unat (ReadBatchSize pc)" using assms(3) by (auto simp: wal_good_def stored_def split: option.splits)
  have "m_batchReadSize st = ReadBatchSize pc"
    using assms(2) by (auto simp: wal_configured_def same_conf_def dest: ctor_fresh split: option.splits)
  then have "appendable ops st m L e bs"
    using bs assms(4) wal_current_segment [OF assms(1)] by (cases L) (auto simp: appendable_def wal_room_def)
  with bs(3) that show thesis by blast
qed

lemma wal_append_step:
  assumes "wal_repr ops pc s log" "wal_good ops pc e" "wal_room s (Suc n)"
  shows "\<exists>s'. wal_append ops s e = (Inr (next_id (fst s)), s') \<and>
    wal_repr ops pc s' (log @ [(next_id (fst s), stored ops e)]) \<and> wal_room s' n \<and> m_currentEntryIdx (fst s') = next_id (fst s)"
proof -
  obtain st w where s: "s = (st, w)" by (cases s)
  obtain m L where L: "wal_ok ops st w m L" "no_trunc_files w (m_sRootDir st)" "wal_configured pc st"
    "log = decoded ops (concat L)" using assms(1) by (auto simp: wal_repr_def s)
  obtain bs where bs: "appendable ops st m L e bs" "decode_entry ops bs = Some (stored ops e)"
    using wal_good_appendable [OF L(1,3) assms(2)] assms(3) unfolding s by blast
  note ucur = wal_current_segment(1) [OF L(1)] and ne = wal_current_segment(2) [OF L(1)]
  let ?x = "(m_writeEntryVersion st, next_id st, bs)" and ?L = "append_log (unat (m_segmentMaxSize st)) L (m_writeEntryVersion st, next_id st, bs)"
  obtain st' w' where r: "AppendEntry ops st e w = (Inr (next_id st), st', w')" "wal_ok ops st' w' m ?L"
    "m_currentEntryIdx st' = next_id st" "same_conf st st'" "is_dir w' = is_dir w"
    "\<forall>p. (\<forall>i. p \<noteq> seg_path (m_sRootDir st) i) \<longrightarrow> content w' p = content w p"
    using AppendEntry_done [OF L(1) bs(1) refl] by blast
  have "decoded ops (concat ?L) = log @ [(next_id st, stored ops e)]"
    using ne L(4) bs(2) by (simp add: decoded_append) (simp add: decoded_def)
  moreover have "no_trunc_files w' (m_sRootDir st')"
    using L(2) r(4-6) by (simp add: no_trunc_files_def same_conf_def)
  moreover have "wal_configured pc st'"
    using L(3) r(4) by (auto simp: wal_configured_def same_conf_def split: option.splits)
  moreover have "wal_room (st', w') n"
  proof -
    have idx: "unat (m_currentEntryIdx st') = Suc (unat (m_currentEntryIdx st))"
      using assms(3) r(3) by (simp add: wal_room_def s unat_suc_no_wrap)
    have "m_currentSegmentId st' = seg_id m (length ?L - 1)" "m + length ?L < 2 ^ 64 - 1" "?L \<noteq> []"
      using r(2) by (auto simp: wal_ok_def wal_handle_def log_segments_def)
    then have "unat (m_currentSegmentId st') \<le> Suc (unat (m_currentSegmentId st))"
      using unat_seg_id [of m "length ?L - 1"] length_append_log [OF ne, of "unat (m_segmentMaxSize st)" ?x] ucur by simp
    with idx assms(3) show ?thesis by (simp add: wal_room_def s)
  qed
  ultimately have "wal_repr ops pc (st', w') (log @ [(next_id st, stored ops e)])" "wal_room (st', w') n"
    using r(2) unfolding wal_repr_def by fastforce+
  with r(1,3) show ?thesis by (simp add: wal_append_def s)
qed

lemma wal_append_law:
  assumes "wal_repr ops pc s log" "wal_good ops pc e" "wal_room s (Suc n)"
  shows "\<exists>i s'. wal_append ops s e = (Inr i, s') \<and> wal_repr ops pc s' (log @ [(i, stored ops e)]) \<and> wal_room s' n"
  using wal_append_step [OF assms] by blast

text \<open>The id of the last entry; a log without entries counts from 1.\<close>

definition last_id :: "(u64 \<times> 'e) list \<Rightarrow> u64" where
  "last_id log = (if log = [] then 1 else fst (last log))"

lemma last_id_decoded: "last_id (decoded ops (concat L)) = (if log_ids L = [] then 1 else last (log_ids L))"
proof -
  have "map fst (decoded ops (concat L)) = log_ids L" by (simp add: decoded_ids log_ids_def)
  then show ?thesis by (metis last_id_def last_map list.map_disc_iff)
qed

lemma wal_restart_step:
  assumes "wal_repr ops pc s log"
  shows "\<exists>bs st0 st' w'. LogCleanWal_ctor pc = Some st0 \<and> wal_start ops st0 (snd s) = (W_OK, bs, st', w') \<and> concat bs = log \<and>
    wal_repr ops pc (st', w') log \<and> quiet (snd s) w' \<and> m_currentEntryIdx st' = last_id log \<and>
    m_currentSegmentId st' = m_currentSegmentId (fst s)"
proof -
  obtain st w where s: "s = (st, w)" by (cases s)
  obtain m L where L: "wal_ok ops st w m L" "no_trunc_files w (m_sRootDir st)" "wal_configured pc st"
    "log = decoded ops (concat L)" using assms by (auto simp: wal_repr_def s)
  obtain st0 where st0: "LogCleanWal_ctor pc = Some st0" "same_conf st0 st" "wal_conf st0"
    using L(3) by (auto simp: wal_configured_def split: option.splits)
  have "log_on_disk ops st0 w m L"
    using wal_ok_on_disk [OF L(1)] st0(2,3) by (simp add: log_on_disk_def same_conf_def wal_sizes_def)
  moreover have "fresh_wal st0" using ctor_fresh [OF st0(1)] by blast
  moreover have "no_trunc_files w (m_sRootDir st0)" using L(2) st0(2) by (simp add: same_conf_def)
  ultimately obtain bs st' w' where r: "wal_start ops st0 w = (W_OK, bs, st', w')" "concat bs = decoded ops (concat L)"
    "wal_ok ops st' w' m L" "quiet w w'" "m_sRootDir st' = m_sRootDir st0" "m_batchReadSize st' = m_batchReadSize st0"
    "m_segmentMaxSize st' = m_segmentMaxSize st0" "m_writeEntryVersion st' = m_writeEntryVersion st0"
    "m_currentEntryIdx st' = (if log_ids L = [] then 1 else last (log_ids L))"
    using wal_start_log by blast
  have "wal_configured pc st'" using st0 r(5-8) by (simp add: wal_configured_def same_conf_def)
  moreover have "no_trunc_files w' (m_sRootDir st')"
    using L(2) r(4,5) st0(2) by (simp add: no_trunc_files_def quiet_def same_conf_def)
  ultimately have "wal_repr ops pc (st', w') log" using r(3) L(4) by (auto simp: wal_repr_def)
  moreover have "m_currentSegmentId st' = m_currentSegmentId st" using r(3) L(1) by (simp add: wal_ok_def wal_handle_def)
  ultimately show ?thesis using r(1,2,4,9) st0(1) L(4) by (auto simp: s last_id_decoded)
qed

lemma wal_restart_law:
  assumes "wal_repr ops pc s log"
  shows "\<exists>s'. wal_restart ops pc s = ((W_OK, log), s') \<and> wal_repr ops pc s' log"
proof -
  obtain bs st0 st' w' where "LogCleanWal_ctor pc = Some st0" "wal_start ops st0 (snd s) = (W_OK, bs, st', w')" "concat bs = log"
    "wal_repr ops pc (st', w') log" using wal_restart_step [OF assms] by blast
  then show ?thesis by (auto simp: wal_restart_def)
qed

lemma wal_repr_increasing: "wal_repr ops pc s log \<Longrightarrow> sorted_wrt (<) (map fst log)"
  by (auto simp: wal_repr_def wal_ok_def wal_ids_def log_ids_def decoded_ids)

interpretation wl: durable_log "wal_repr ops pc" "wal_good ops pc" "stored ops" wal_room "wal_append ops" "wal_restart ops pc"
  for ops pc
  by unfold_locales (fact wal_append_law wal_restart_law wal_repr_increasing)+

end
