(* ===== verification/WalTruncate.thy ===== *)
theory WalTruncate
  imports WalDurable
begin

text \<open>
  Truncate: which segments it deletes, that the log after it is a suffix of the log before, and what
  the recorded truncation information makes the next Init do.
\<close>

subsection \<open>The highest entry id of a segment\<close>

lemma ReadFully_V4_data:
  assumes "reliable w" "content w p \<noteq> None"
  shows "fst (ReadFully_V4 (Some (p, off)) n w) =
      (Some (take n (drop off (data w p))), Some (p, off + min n (length (data w p) - off)))"
    and "reliable (snd (ReadFully_V4 (Some (p, off)) n w))"
  using assms by auto

lemma load_segment_max_entry_id_done:
  assumes "reliable w" "wf_world w" "content w fp = Some (segment_bytes (fs @ [(v, i, cnt)]))"
    and "length (segment_bytes (fs @ [(v, i, cnt)])) < 2 ^ 32" "length cnt < 2 ^ 31"
  shows "fst (load_segment_max_entry_id fp w) = Inr i" and "quiet w (snd (load_segment_max_entry_id fp w))"
proof -
  let ?old = "segment_bytes fs" and ?pos = "word_of_nat (length (segment_bytes fs)) :: u32"
  let ?c = "segment_bytes (fs @ [(v, i, cnt)])"
  have nd: "\<not> is_dir w fp" using assms(2,3) by (rule wf_world_content)
  have c: "?c = ?old @ enc32 (word_of_nat (length cnt)) @ [v] @ enc64 i @ cnt @ enc32 ?pos"
    by (simp add: segment_bytes_snoc wal_entry_bytes_enc)
  have len: "length ?c = length ?old + 17 + length cnt" by (simp add: segment_bytes_snoc)
  have pos: "unat ?pos = length ?old" using assms(4) len by (simp add: unat_word_of_nat)
  have n: "unat (word_of_nat (length cnt) :: u32) = length cnt" using assms(5) by (simp add: unat_word_of_nat)
  define pre where "pre = ?old @ enc32 (word_of_nat (length cnt)) @ [v] @ enc64 i @ cnt"
  have cc: "?c = pre @ enc32 ?pos" and lp: "length pre = length ?old + 13 + length cnt"
    unfolding c pre_def by simp_all
  have "drop (length ?c - 4) ?c = enc32 ?pos" unfolding cc by (simp add: lp)
  then have tail: "take 4 (drop (length ?c - 4) ?c) = enc32 ?pos" by simp
  have "drop (length ?old) ?c = enc32 (word_of_nat (length cnt)) @ [v] @ enc64 i @ cnt @ enc32 ?pos" unfolding c by simp
  then have hdr: "take 13 (drop (length ?old) ?c) = enc32 (word_of_nat (length cnt)) @ [v] @ enc64 i" by simp
  have "drop (length ?old + 13 + length cnt) ?c = enc32 ?pos"
    unfolding cc lp [symmetric] by simp
  then have tail2: "take 4 (drop (length ?old + 13 + length cnt) ?c) = enc32 ?pos" by simp
  have upos: "nat (uint ?pos) = length ?old" using pos by (simp only: unat_eq_nat_uint)
  have d5: "drop 5 (enc32 (word_of_nat (length cnt)) @ [v] @ enc64 i) = enc64 i" by (simp add: enc32_def)
  have off1: "nat (int (length ?c) - 4) = length ?c - 4" by simp
  have ge: "\<not> int (length ?c) - 4 < 0" using len by simp
  have min1: "min 13 (length ?c - length ?old) = 13" using len by simp
  have zf: "zero_filled 4 (enc32 ?pos) = enc32 ?pos"
    "zero_filled 13 (enc32 (word_of_nat (length cnt)) @ [v] @ enc64 i) = enc32 (word_of_nat (length cnt)) @ [v] @ enc64 i"
    by (simp_all add: zero_filled_def)
  note facts = fst_sys ReadFully_V4_data GetFileSize_fd_done
  show "fst (load_segment_max_entry_id fp w) = Inr i"
    unfolding load_segment_max_entry_id_def
    using assms(1,3) nd ge
    by (simp add: split_beta Let_def facts tail off1 pos hdr n d5 zf le32.read_enc_nil le32.read_of_enc
        le64.read_enc_nil min1 tail2 del: drop_drop append_Cons)
  show "quiet w (snd (load_segment_max_entry_id fp w))"
    unfolding load_segment_max_entry_id_def
    using assms(1,3) nd ge
    by (simp add: split_beta Let_def facts quiet_def split: option.split)
qed

subsection \<open>The deletion loop\<close>

lemma Truncate_loop_append:
  "Truncate_loop st maxSeg (is @ js) mc w =
    (case Truncate_loop st maxSeg is mc w of
       (Inl rc, w') \<Rightarrow> (Inl rc, w') | (Inr mc', w') \<Rightarrow> Truncate_loop st maxSeg js mc' w')"
  by (induction "is" arbitrary: mc w) (auto simp: split_beta Let_def split: sum.splits bool.splits)

text \<open>Segments before the last one of the range are just unlinked.\<close>

lemma Truncate_loop_unlinks:
  assumes "reliable w" "wf_world w" "\<forall>i. \<not> is_dir w (seg_path (m_sRootDir st) i)" "maxSeg \<notin> set is"
  shows "fst (Truncate_loop st maxSeg is mc w) = Inr mc \<and>
    content (snd (Truncate_loop st maxSeg is mc w)) =
      (\<lambda>p. if p \<in> seg_path (m_sRootDir st) ` set is then None else content w p) \<and>
    is_dir (snd (Truncate_loop st maxSeg is mc w)) = is_dir w \<and>
    reliable (snd (Truncate_loop st maxSeg is mc w)) \<and> wf_world (snd (Truncate_loop st maxSeg is mc w))"
  using assms
proof (induction "is" arbitrary: w)
  case (Cons j js)
  let ?w = "snd (Unlink (seg_path (m_sRootDir st) j) w)"
  have "reliable ?w" "wf_world ?w" "\<forall>i. \<not> is_dir ?w (seg_path (m_sRootDir st) i)" "maxSeg \<notin> set js"
    using Cons.prems by simp_all
  from Cons.IH [OF this] Cons.prems show ?case by (auto simp: split_beta Let_def fun_eq_iff)
qed simp

lemma u64_range_segs:
  assumes "1 \<le> m" "m + d < 2 ^ 64 - 1"
  shows "u64_range (seg_id m 0) (word_of_nat (m + d - 1)) = Some (map (seg_id m) [0..<d])"
proof -
  define t where "t = m + d - 1"
  have t: "t < 2 ^ 64 - 1" "Suc t = m + d" using assms by (auto simp: t_def)
  have u: "unat (word_of_nat t :: u64) = t" "unat (seg_id m 0) = m"
    using assms t by (simp_all add: unat_word_of_nat seg_id_def)
  have "(word_of_nat t :: u64) \<noteq> -1"
  proof
    assume "(word_of_nat t :: u64) = -1"
    then have "t = unat (-1 :: u64)" using u(1) by simp
    then show False using t(1) by (simp add: unsigned_minus_1_eq_mask mask_eq_exp_minus_1)
  qed
  moreover have "map word_of_nat [m ..< Suc t] = map (seg_id m) [0..<d]"
    unfolding t(2) by (auto simp: seg_id_def intro!: nth_equalityI)
  ultimately show ?thesis unfolding t_def [symmetric] by (simp add: u64_range_def u del: upt_Suc)
qed

lemma segment_nonempty: "es \<noteq> [] \<Longrightarrow> length (segment_bytes es) \<noteq> 4"
  by (cases es) (auto simp: length_segment_bytes entry_size_def)

lemma segment_empty_iff: "length (segment_bytes es) = 4 \<longleftrightarrow> es = []"
  using segment_nonempty [of es] by (cases "es = []") (auto simp: segment_bytes_def WriteUInt32_enc)

text \<open>The loop over \<open>d > 0\<close> segments returns the last entry id of the last of them.\<close>

lemma Truncate_loop_done:
  assumes "log_world w (m_sRootDir st)" "1 \<le> m" "m + d < 2 ^ 64 - 1" "0 < d"
    and "content w (seg_path (m_sRootDir st) (seg_id m (d - 1))) = Some (segment_bytes es)" "es \<noteq> []"
    and "length (segment_bytes es) < 2 ^ 32" "\<forall>(v, i, cnt) \<in> set es. length cnt < 2 ^ 31"
  shows "\<exists>w'. Truncate_loop st (seg_id m (d - 1)) (map (seg_id m) [0..<d]) 0 w = (Inr (fst (snd (last es))), w') \<and>
    content w' = (\<lambda>p. if p \<in> (\<lambda>k. seg_path (m_sRootDir st) (seg_id m k)) ` {0..<d} then None else content w p) \<and>
    is_dir w' = is_dir w \<and> log_world w' (m_sRootDir st)"
proof -
  let ?root = "m_sRootDir st" and ?mx = "seg_id m (d - 1)"
  note lw = log_worldD [OF assms(1)]
  have split: "map (seg_id m) [0..<d] = map (seg_id m) [0..<d - 1] @ [?mx]"
    using assms(4) by (cases d) simp_all
  have "?mx \<notin> set (map (seg_id m) [0..<d - 1])"
    using assms(3) by (auto simp: seg_id_eq)
  from Truncate_loop_unlinks [OF lw(1,2) _ this, where mc = 0 and st = st] lw(5) obtain w1 where w1:
    "Truncate_loop st ?mx (map (seg_id m) [0..<d - 1]) 0 w = (Inr 0, w1)"
    "content w1 = (\<lambda>p. if p \<in> seg_path ?root ` set (map (seg_id m) [0..<d - 1]) then None else content w p)"
    "is_dir w1 = is_dir w" "reliable w1" "wf_world w1" by (metis prod.collapse)
  obtain fs v i cnt where es: "es = fs @ [(v, i, cnt)]" using assms(6) by (metis prod_cases3 rev_exhaust)
  have c1: "content w1 (seg_path ?root ?mx) = Some (segment_bytes (fs @ [(v, i, cnt)]))"
    using w1(2) assms(3,4,5) es by (auto simp: seg_id_eq)
  have lens: "length (segment_bytes (fs @ [(v, i, cnt)])) < 2 ^ 32" "length cnt < 2 ^ 31" using assms(7,8) es by auto
  note mx = load_segment_max_entry_id_done [OF w1(4,5) c1 lens]
  define w2 where "w2 = snd (load_segment_max_entry_id (seg_path ?root ?mx) w1)"
  have w2: "load_segment_max_entry_id (seg_path ?root ?mx) w1 = (Inr i, w2)" "quiet w1 w2"
    using mx by (simp_all add: w2_def prod_eq_iff)
  note q2 = quietD [OF w2(2)]
  define w3 where "w3 = snd (Unlink (seg_path ?root ?mx) w2)"
  have nd: "\<not> is_dir w2 (seg_path ?root ?mx)" using q2(2) w1(3) lw(5) by simp
  have w3: "Unlink (seg_path ?root ?mx) w2 = (True, w3)" "content w3 = (content w2)(seg_path ?root ?mx := None)"
    "is_dir w3 = is_dir w" "reliable w3" "wf_world w3"
    using q2 w1 nd by (simp_all add: w3_def prod_eq_iff)
  have set_d: "{0..<d} = insert (d - 1) {0..<d - 1}" using assms(4) by auto
  have "content w3 = (\<lambda>p. if p \<in> (\<lambda>k. seg_path ?root (seg_id m k)) ` {0..<d} then None else content w p)"
    unfolding w3(2) q2(1) w1(2) set_d by (auto simp: fun_eq_iff image_image)
  moreover have "Truncate_loop st ?mx (map (seg_id m) [0..<d]) 0 w = (Inr i, w3)"
    unfolding split Truncate_loop_append w1(1) using w2(1) w3(1) by simp
  ultimately show ?thesis using w3 log_world_step [OF assms(1) w3(3-5)] es by auto
qed

subsection \<open>The truncation files\<close>

lemma create_trunc_info_done:
  assumes "log_world w (m_sRootDir st)" "wal_paths st" "\<not> is_dir w (trunc_info_path (m_sRootDir st))"
  shows "\<exists>w'. create_trunc_info st i w = (W_OK, w') \<and>
    content w' = (content w)(trunc_info_path (m_sRootDir st) \<mapsto> bytes_of_string (ToString i)) \<and>
    is_dir w' = is_dir w \<and> log_world w' (m_sRootDir st)"
proof -
  let ?p = "trunc_info_path (m_sRootDir st)" and ?s = "bytes_of_string (ToString i)"
  note lw = log_worldD [OF assms(1)]
  have p: "m_sTruncInfoFilePath st = ?p" "?p \<noteq> []" using assms(2) by (simp_all add: wal_paths_def trunc_info_path_def)
  define w1 where "w1 = snd (sys_open ?p True True w)"
  have op: "sys_open ?p True True w = (Some (?p, 0), w1)"
    using lw assms(3) p by (simp add: w1_def prod_eq_iff)
  have w1: "content w1 = (content w)(?p \<mapsto> [])" "is_dir w1 = is_dir w" "reliable w1" "wf_world w1"
    using lw assms(3) p by (auto simp: w1_def)
  have c1: "content w1 ?p = Some []" using w1 by simp
  define w2 where "w2 = snd (WriteFully (Some (?p, 0)) ?s w1)"
  have wr: "WriteFully (Some (?p, 0)) ?s w1 = ((Some (length ?s), Some (?p, length ?s)), w2)"
    using WriteFully_done(1) [OF w1(3) c1, of 0 ?s] by (simp add: w2_def prod_eq_iff)
  have w2: "content w2 = (content w)(?p \<mapsto> ?s)" "is_dir w2 = is_dir w" "reliable w2" "wf_world w2"
    using WriteFully_done(2,3) [OF w1(3) c1, of 0 ?s] w1 by (simp_all add: w2_def)
  define w3 where "w3 = snd (sys_close (Some (?p, length ?s)) w2)"
  have q: "quiet w2 w3" by (simp add: w3_def)
  have "create_trunc_info st i w = (W_OK, w3)"
    using op wr by (simp add: create_trunc_info_def p w3_def split_beta)
  moreover have "log_world w3 (m_sRootDir st)"
    by (rule log_world_step [OF assms(1)]) (use w2 quietD [OF q] in simp_all)
  ultimately show ?thesis using w2 quietD [OF q] by simp
qed

text \<open>The ok flag is created and both truncation files are removed.\<close>

lemma trunc_flags_done:
  assumes "log_world w (m_sRootDir st)" "wal_paths st" "\<not> is_dir w (trunc_info_path (m_sRootDir st))"
    "\<not> is_dir w (trunc_ok_path (m_sRootDir st))"
  shows "\<exists>w1 w2. create_trunc_ok_flag st w = (W_OK, w1) \<and> clean_trunc_status st w1 = (W_OK, w2) \<and>
    content w2 = (content w)(trunc_info_path (m_sRootDir st) := None, trunc_ok_path (m_sRootDir st) := None) \<and>
    is_dir w2 = is_dir w \<and> log_world w2 (m_sRootDir st)"
proof -
  let ?i = "trunc_info_path (m_sRootDir st)" and ?o = "trunc_ok_path (m_sRootDir st)"
  note lw = log_worldD [OF assms(1)]
  have p: "m_sTruncInfoFilePath st = ?i" "m_sTruncOKFlagFilePath st = ?o" "?o \<noteq> []"
    using assms(2) by (simp_all add: wal_paths_def trunc_ok_path_def)
  define w1 where "w1 = snd (create_trunc_ok_flag st w)"
  have w1: "create_trunc_ok_flag st w = (W_OK, w1)" "is_dir w1 = is_dir w" "reliable w1" "wf_world w1"
    "content w1 ?o \<noteq> None" "\<And>q. q \<noteq> ?o \<Longrightarrow> content w1 q = content w q"
    using lw assms(4) p by (auto simp: w1_def prod_eq_iff create_trunc_ok_flag_def split_beta Let_def)
  define w2 where "w2 = snd (clean_trunc_status st w1)"
  have w2: "clean_trunc_status st w1 = (W_OK, w2)" "is_dir w2 = is_dir w" "reliable w2" "wf_world w2"
    using w1 assms(3,4) p by (auto simp: w2_def prod_eq_iff clean_trunc_status_def split_beta Let_def)
  have "content w2 = (content w)(?i := None, ?o := None)"
    using w1 assms(3,4) p by (auto simp: w2_def fun_eq_iff clean_trunc_status_def split_beta Let_def)
  with w1(1) w2 log_world_step [OF assms(1) w2(2-4)] show ?thesis by blast
qed

subsection \<open>The index after a truncation\<close>

lemma erase_entries_lookup: "erase_entries is f j = (if j \<in> set is then None else f j)"
  unfolding erase_entries_def by (induction "is" arbitrary: f) auto

lemma u64_range_set:
  assumes "b \<noteq> -1"
  shows "\<exists>is. u64_range a b = Some is \<and> set is = {i. a \<le> i \<and> i \<le> b}"
proof -
  have "word_of_nat ` {unat a ..< Suc (unat b)} = {i :: u64. a \<le> i \<and> i \<le> b}"
  proof (intro set_eqI iffI)
    fix i :: u64 assume "i \<in> word_of_nat ` {unat a ..< Suc (unat b)}"
    then obtain k where k: "i = word_of_nat k" "unat a \<le> k" "k \<le> unat b" by auto
    moreover have "unat i = k" using k unsigned_less [of b, where 'a = nat] by (simp add: unat_word_of_nat)
    ultimately show "i \<in> {i. a \<le> i \<and> i \<le> b}" by (simp add: word_le_nat_alt)
  next
    fix i :: u64 assume "i \<in> {i. a \<le> i \<and> i \<le> b}"
    then show "i \<in> word_of_nat ` {unat a ..< Suc (unat b)}"
      by (intro image_eqI [of _ _ "unat i"]) (auto simp: word_le_nat_alt)
  qed
  with assms show ?thesis by (simp add: u64_range_def del: upt_Suc)
qed

lemma log_ids_append: "log_ids (A @ B) = log_ids A @ log_ids B"
  by (simp add: log_ids_def)

lemma log_pairs_take_drop:
  "d \<le> length L \<Longrightarrow> log_pairs m L = log_pairs m (take d L) @ log_pairs (m + d) (drop d L)"
  using log_pairs_append [of m "take d L" "drop d L"] by simp

text \<open>Erasing the ids of the deleted segments leaves the index of the remaining ones.\<close>

lemma erase_deleted:
  assumes "d \<le> length L" "sorted_wrt (<) (log_ids L)" "log_ids (take d L) \<noteq> []"
    and "\<forall>i \<in> set (log_ids L). lo \<le> i" "set is = {i. lo \<le> i \<and> i \<le> last (log_ids (take d L))}"
  shows "erase_entries is (map_of (log_pairs m L)) = map_of (log_pairs (m + d) (drop d L))"
proof
  fix j
  let ?A = "log_ids (take d L)" and ?B = "log_ids (drop d L)"
  have AB: "log_ids L = ?A @ ?B" using log_ids_append [of "take d L" "drop d L"] by simp
  have sA: "sorted_wrt (<) ?A" and sep: "\<forall>a \<in> set ?A. \<forall>b \<in> set ?B. a < b"
    using assms(2) unfolding AB by (simp_all add: sorted_wrt_append)
  have inA: "a \<in> set ?A \<Longrightarrow> a \<in> set is" for a
    using sorted_le_last [OF sA] assms(4,5) AB by auto
  have inB: "b \<in> set ?B \<Longrightarrow> b \<notin> set is" for b
    using sep assms(3,5) by (auto simp: not_le dest: bspec [of _ _ "last ?A"])
  have none: "map_of (log_pairs m' M) j = None \<longleftrightarrow> j \<notin> set (log_ids M)" for m' M
    by (simp add: map_of_eq_None_iff map_fst_log_pairs flip: set_map)
  show "erase_entries is (map_of (log_pairs m L)) j = map_of (log_pairs (m + d) (drop d L)) j"
  proof (cases "j \<in> set is")
    case True
    then have "j \<notin> set ?B" using inB by blast
    with True none [of "m + d" "drop d L"] show ?thesis by (simp add: erase_entries_lookup)
  next
    case False
    then have "map_of (log_pairs m (take d L)) j = None" using inA none [of m "take d L"] by blast
    with False show ?thesis
      by (simp add: erase_entries_lookup log_pairs_take_drop [OF assms(1)] map_add_def split: option.split)
  qed
qed

subsection \<open>Truncate\<close>

text \<open>How many segments Truncate deletes for an entry in segment number \<open>k\<close> of the log.\<close>

definition trunc_count :: "log_entry list list \<Rightarrow> nat \<Rightarrow> nat" where
  "trunc_count L k =
    (let d = (if k = length L - 1 then k else Suc k) in if L ! d = [] then d - 1 else d)"

lemma log_pairs_lookup:
  "(i, s) \<in> set (log_pairs m L) \<Longrightarrow> \<exists>k < length L. s = seg_id m k \<and> i \<in> (\<lambda>x. fst (snd x)) ` set (L ! k)"
proof (induction m L rule: log_pairs.induct)
  case (2 m es L)
  show ?case
  proof (cases "(i, s) \<in> set (log_pairs (Suc m) L)")
    case True
    with 2 obtain k where "k < length L" "s = seg_id (Suc m) k" "i \<in> (\<lambda>x. fst (snd x)) ` set (L ! k)" by blast
    then show ?thesis by (intro exI [of _ "Suc k"]) (simp add: seg_id_Suc)
  next
    case False
    with 2(2) show ?thesis by (intro exI [of _ 0]) (auto simp: seg_id_def)
  qed
qed simp

lemma word_pred_of_nat: "1 \<le> n \<Longrightarrow> (word_of_nat n :: u64) - 1 = word_of_nat (n - 1)"
  by (simp add: of_nat_diff)

lemma trunc_count_le: "k < length L \<Longrightarrow> L ! k \<noteq> [] \<Longrightarrow> trunc_count L k < length L \<and> trunc_count L k \<le> Suc k"
  by (auto simp: trunc_count_def Let_def)

lemma Truncate_run:
  assumes "wal_ok ops st w m L" "no_trunc_files w (m_sRootDir st)" "k < length L" "L ! k \<noteq> []"
    and "m_mpEntriesIdSegId st i = Some (seg_id m k)" "d = trunc_count L k"
  shows "\<exists>w1. content w1 = (content w)(trunc_info_path (m_sRootDir st) \<mapsto> bytes_of_string (ToString i)) \<and>
    is_dir w1 = is_dir w \<and> log_world w1 (m_sRootDir st) \<and>
    Truncate st i w =
      (case u64_range (m_minSegmentId st) (word_of_nat (m + d - 1)) of
         None \<Rightarrow> (W_Undefined, st, w1)
       | Some is \<Rightarrow>
           (case Truncate_loop st (word_of_nat (m + d - 1)) is 0 w1 of
              (Inl rc, w) \<Rightarrow> (rc, st, w)
            | (Inr maxClean, w) \<Rightarrow> Truncate_finish st (word_of_nat (m + d - 1)) maxClean w))"
proof -
  let ?root = "m_sRootDir st"
  have o: "wal_conf st" "log_world w ?root" "log_segments w ?root m L" "wal_handle st m L"
    using assms(1) by (auto simp: wal_ok_def)
  have mL: "1 \<le> m" "m + length L < 2 ^ 64 - 1" using o(3) by (auto simp: log_segments_def)
  obtain w1 where w1: "create_trunc_info st i w = (W_OK, w1)"
    "content w1 = (content w)(trunc_info_path ?root \<mapsto> bytes_of_string (ToString i))" "is_dir w1 = is_dir w"
    "log_world w1 ?root"
    using create_trunc_info_done [OF o(2), of i] assms(2) o(1) by (auto simp: wal_conf_def no_trunc_files_def)
  define d0 where "d0 = (if k = length L - 1 then k else Suc k)"
  have d0: "d0 < length L" "d0 = 0 \<Longrightarrow> L ! d0 \<noteq> []" using assms(3,4) by (auto simp: d0_def split: if_splits)
  have cur: "seg_id m k = m_currentSegmentId st \<longleftrightarrow> k = length L - 1"
    using o(4) mL assms(3) by (auto simp: wal_handle_def seg_id_eq)
  have mx0: "(if seg_id m k = m_currentSegmentId st then seg_id m k - 1 else seg_id m k) = word_of_nat (m + d0 - 1)"
    using mL(1) word_pred_of_nat [of "m + k"] unfolding cur by (simp add: d0_def seg_id_def)
  have nx: "(word_of_nat (m + d0 - 1) :: u64) + 1 = seg_id m d0" using mL(1) by (simp add: seg_id_def of_nat_diff)
  define w2 where "w2 = snd (GetFileSize (seg_path ?root (seg_id m d0)) w1)"
  have "content w1 (seg_path ?root (seg_id m d0)) = Some (segment_bytes (L ! d0))"
    using o(3) d0(1) w1(2) by (simp add: log_segments_def)
  then have gs: "GetFileSize (seg_path ?root (seg_id m d0)) w1 = (Some (length (segment_bytes (L ! d0))), w2)"
    using log_worldD [OF w1(4)] by (simp add: w2_def prod_eq_iff)
  have q: "quiet w1 w2" by (simp add: w2_def)
  have four: "length (segment_bytes (L ! d0)) = 4 \<longleftrightarrow> L ! d0 = []"
    by (rule segment_empty_iff)
  have mx: "(if L ! d0 = [] then word_of_nat (m + d0 - 1) - 1 else word_of_nat (m + d0 - 1)) = (word_of_nat (m + d - 1) :: u64)"
  proof (cases "L ! d0 = []")
    case True
    then have "0 < d0" using d0(2) by blast
    then have "(word_of_nat (m + d0 - 1) :: u64) - 1 = word_of_nat (m + d0 - 1 - 1)" "d = d0 - 1"
      using mL(1) True assms(6) by (auto simp: word_pred_of_nat trunc_count_def d0_def Let_def)
    with True \<open>0 < d0\<close> show ?thesis by simp
  next
    case False
    with assms(6) show ?thesis by (simp add: trunc_count_def d0_def Let_def split: if_splits)
  qed
  define M0 where "M0 = (word_of_nat (m + d0 - 1) :: u64)"
  define M where "M = (word_of_nat (m + d - 1) :: u64)"
  have flags: "m_bInited st" "m_bLoaded st" using o(4) by (simp_all add: wal_handle_def)
  have eqs: "(if seg_id m k = m_currentSegmentId st then seg_id m k - 1 else seg_id m k) = M0"
    "M0 + 1 = seg_id m d0" "(if L ! d0 = [] then M0 - 1 else M0) = M"
    using mx0 nx mx by (simp_all only: M0_def M_def)
  have run: "Truncate st i w =
      (case u64_range (m_minSegmentId st) M of
         None \<Rightarrow> (W_Undefined, st, w2)
       | Some is \<Rightarrow>
           (case Truncate_loop st M is 0 w2 of
              (Inl rc, w) \<Rightarrow> (rc, st, w)
            | (Inr maxClean, w) \<Rightarrow> Truncate_finish st M maxClean w))"
    unfolding Truncate_def Let_def assms(5) option.case w1(1) prod.case
    by (simp only: eqs flags generate_segment_file_path gs prod.case option.case four simp_thms if_False if_True)
  show ?thesis
  proof (intro exI [of _ w2] conjI)
    show "content w2 = (content w)(trunc_info_path ?root \<mapsto> bytes_of_string (ToString i))" "is_dir w2 = is_dir w"
      using w1 quietD [OF q] by simp_all
    show "log_world w2 ?root" by (rule log_world_quiet [OF w1(4) q])
  qed (rule run [unfolded M_def])
qed

lemma log_segments_drop:
  assumes "log_segments w root m L" "d \<le> length L"
    and "\<And>p. content w' p = (if p \<in> (\<lambda>k. seg_path root (seg_id m k)) ` {0..<d} \<or> p \<in> P then None else content w p)"
    and "\<And>k. seg_path root (seg_id m k) \<notin> P"
  shows "log_segments w' root (m + d) (drop d L)"
  unfolding log_segments_def
proof (intro conjI allI impI)
  have m: "1 \<le> m" "m + length L < 2 ^ 64 - 1" using assms(1) by (simp_all add: log_segments_def)
  then show "1 \<le> m + d" "m + d + length (drop d L) < 2 ^ 64 - 1" using assms(2) by simp_all
  have shift: "seg_id (m + d) k = seg_id m (d + k)" for k by (simp add: seg_id_def)
  show "content w' (seg_path root (seg_id (m + d) k)) = Some (segment_bytes (drop d L ! k))"
    if "k < length (drop d L)" for k
  proof -
    have k: "d + k < length L" using that by simp
    have "seg_id m (d + k) \<noteq> seg_id m j" if "j < d" for j
      using that k m by (subst seg_id_eq) auto
    then have "seg_path root (seg_id m (d + k)) \<notin> (\<lambda>k. seg_path root (seg_id m k)) ` {0..<d}" by fastforce
    with k assms show ?thesis by (simp add: shift log_segments_def)
  qed
  show "\<exists>k < length (drop d L). p = seg_path root (seg_id (m + d) k)"
    if "content w' p \<noteq> None" "parent p = root" "str_find LOGCLEAN_WAL_SEGMENT_PREFIX_NAME p" for p
  proof -
    have "content w p \<noteq> None" "p \<notin> (\<lambda>k. seg_path root (seg_id m k)) ` {0..<d}"
      using that(1) assms(3) [of p] by (auto split: if_splits)
    with that(2,3) assms(1) obtain k where k: "k < length L" "p = seg_path root (seg_id m k)"
      unfolding log_segments_def by blast
    with \<open>p \<notin> _\<close> have "d \<le> k" by (meson atLeastLessThan_iff image_eqI leI le0)
    with k show ?thesis by (intro exI [of _ "k - d"]) (simp add: shift)
  qed
qed

lemma wal_entry_in_log:
  assumes "wal_ok ops st w m L" "m_mpEntriesIdSegId st i = Some s"
  shows "\<exists>k < length L. s = seg_id m k \<and> i \<in> (\<lambda>x. fst (snd x)) ` set (L ! k)"
  using assms by (auto simp: wal_ok_def wal_handle_def dest!: map_of_SomeD intro!: log_pairs_lookup)


lemma trunc_count_remaining:
  assumes "k < length L" "L ! k \<noteq> []" "\<forall>es \<in> set (butlast L). es \<noteq> []"
  shows "L ! trunc_count L k \<noteq> []"
proof -
  define d where "d = (if k = length L - 1 then k else Suc k)"
  have "d < length L" "d = 0 \<Longrightarrow> L ! d \<noteq> []" using assms(1,2) by (auto simp: d_def split: if_splits)
  have "L ! (d - 1) \<noteq> []" if "0 < d"
  proof -
    have "d - 1 < length (butlast L)" using that \<open>d < length L\<close> by simp
    then show ?thesis using assms(3) nth_mem nth_butlast by metis
  qed
  moreover have "trunc_count L k = (if L ! d = [] then d - 1 else d)" by (simp add: trunc_count_def Let_def d_def)
  ultimately show ?thesis using \<open>d = 0 \<Longrightarrow> _\<close> by (cases "d = 0") auto
qed

lemma wal_ids_drop:
  assumes "wal_ids st L" "d < length L" "L ! d \<noteq> []" "log_ids (take d L) \<noteq> []"
    and "m_lastTruncMaxIdx st' = last (log_ids (take d L)) + 1" "m_currentEntryIdx st' = m_currentEntryIdx st"
  shows "wal_ids st' (drop d L)"
proof -
  let ?c = "last (log_ids (take d L))"
  have split: "log_ids L = log_ids (take d L) @ log_ids (drop d L)"
    by (metis append_take_drop_id log_ids_append)
  have c: "?c \<in> set (log_ids (take d L))" using assms(4) by simp
  have sorted: "sorted_wrt (<) (log_ids (drop d L))" and less: "\<forall>i \<in> set (log_ids (drop d L)). ?c < i"
    using assms(1) c unfolding wal_ids_def split by (auto simp: sorted_wrt_append)
  have le: "?c + 1 \<le> i" if "i \<in> set (log_ids (drop d L))" for i
    using less that inc_le by auto
  obtain x where x: "x \<in> set (log_ids (drop d L))"
    using assms(2,3) by (cases "L ! d") (auto simp: log_ids_def Cons_nth_drop_Suc [OF assms(2), symmetric])
  then have "x \<le> m_currentEntryIdx st" using assms(1) unfolding wal_ids_def split by auto
  with le [OF x] have "?c + 1 \<le> m_currentEntryIdx st" by simp
  with assms(1,5,6) sorted le show ?thesis unfolding wal_ids_def split by auto
qed

lemma log_ids_take_last:
  assumes "0 < d" "d \<le> length L" "L ! (d - 1) \<noteq> []"
  shows "log_ids (take d L) \<noteq> [] \<and> last (log_ids (take d L)) = fst (snd (last (L ! (d - 1))))"
proof (cases d)
  case (Suc e)
  then have "take d L = take e L @ [L ! e]" using assms(2) by (simp add: take_Suc_conv_app_nth)
  with Suc assms(3) show ?thesis by (simp add: log_ids_def last_map)
qed (use assms in simp)

lemma wal_sizes_drop:
  assumes "wal_sizes st L" "d < length L" "m_segmentMaxSize st' = m_segmentMaxSize st" "m_batchReadSize st' = m_batchReadSize st"
  shows "wal_sizes st' (drop d L)"
proof -
  have sub: "set (drop d L) \<subseteq> set L" "set (butlast (drop d L)) \<subseteq> set (butlast L)" and last: "last (drop d L) = last L"
    using assms(2) set_drop_subset [of d L] set_drop_subset [of d "butlast L"] by (simp_all add: butlast_drop)
  show ?thesis unfolding wal_sizes_def assms(3,4) last
    by (intro conjI ballI; use assms(1) sub in \<open>unfold wal_sizes_def, blast\<close>)
qed

lemma wal_ok_drop:
  assumes ok: "wal_ok ops st w m L" and d: "d < length L" "L ! d \<noteq> []" "log_ids (take d L) \<noteq> []"
    and st': "m_lastTruncMaxIdx st' = last (log_ids (take d L)) + 1" "m_mpEntriesIdSegId st' = map_of (log_pairs (m + d) (drop d L))"
      "m_minSegmentId st' = seg_id (m + d) 0" "m_currentEntryIdx st' = m_currentEntryIdx st" "same_conf st st'"
      "m_bInited st' = m_bInited st" "m_bLoaded st' = m_bLoaded st" "m_currentSegmentId st' = m_currentSegmentId st"
      "m_currentSegFd st' = m_currentSegFd st" "m_curSegFileSize st' = m_curSegFileSize st" "m_maxEntrySize st' = m_maxEntrySize st"
      "wal_paths st'"
    and w': "log_world w' (m_sRootDir st)" "log_segments w' (m_sRootDir st) (m + d) (drop d L)"
  shows "wal_ok ops st' w' (m + d) (drop d L)"
proof -
  have o: "wal_conf st" "log_segments w (m_sRootDir st) m L" "wal_handle st m L" "wal_sizes st L" "wal_ids st L"
    "create_local ops" "\<forall>es \<in> set L. \<forall>x \<in> set es. entry_ok ops x"
    using ok by (auto simp: wal_ok_def)
  have cf: "m_sRootDir st' = m_sRootDir st" "m_batchReadSize st' = m_batchReadSize st" "m_segmentMaxSize st' = m_segmentMaxSize st"
    using st'(5) by (simp_all add: same_conf_def)
  have shift: "seg_id (m + d) (length L - d - 1) = seg_id m (length L - 1)"
    using d(1) by (simp add: seg_id_def add.assoc del: of_nat_add)
  have mm: "unat (m_minSegmentId st') = m + d"
    using w'(2) d(1) unat_seg_id [of "m + d" 0] by (simp add: st'(3) log_segments_def)
  have "wal_handle st' (m + d) (drop d L)"
    using o(3) d(1) mm shift w'(2) by (simp add: wal_handle_def st' cf log_segments_def)
  moreover have "wal_conf st'" using o(1) st'(11,12) cf by (simp add: wal_conf_def)
  moreover have "wal_ids st' (drop d L)" by (rule wal_ids_drop [OF o(5) d st'(1,4)])
  moreover have "wal_sizes st' (drop d L)" by (rule wal_sizes_drop [OF o(4) d(1) cf(3,2)])
  moreover have "\<forall>es \<in> set (drop d L). \<forall>x \<in> set es. entry_ok ops x" using o(7) set_drop_subset by fast
  ultimately show ?thesis using o(6) w' cf d(1) by (simp add: wal_ok_def)
qed

lemma Truncate_deletes:
  assumes ok: "wal_ok ops st w m L" and nt: "no_trunc_files w (m_sRootDir st)"
    and k: "k < length L" "L ! k \<noteq> []" "m_mpEntriesIdSegId st i = Some (seg_id m k)"
    and d: "d = trunc_count L k" "0 < d" and min: "m_minSegmentId st = seg_id m 0"
    and idx: "Suc (unat (m_currentEntryIdx st)) < 2 ^ 64"
  shows "\<exists>st' w'. Truncate st i w = (W_OK, st', w') \<and> wal_ok ops st' w' (m + d) (drop d L) \<and>
    no_trunc_files w' (m_sRootDir st') \<and> same_conf st st' \<and> m_minSegmentId st' = seg_id (m + d) 0 \<and>
    m_currentEntryIdx st' = m_currentEntryIdx st \<and> is_dir w' = is_dir w"
proof -
  let ?root = "m_sRootDir st" and ?M = "word_of_nat (m + d - 1) :: u64"
  have o: "wal_conf st" "log_segments w ?root m L" "wal_handle st m L" "wal_sizes st L" "wal_ids st L"
    "L \<noteq> []" "create_local ops" "\<forall>es \<in> set L. \<forall>x \<in> set es. entry_ok ops x"
    using ok by (auto simp: wal_ok_def)
  have mL: "1 \<le> m" "m + length L < 2 ^ 64 - 1" using o(2) by (auto simp: log_segments_def)
  have full: "\<forall>es \<in> set (butlast L). es \<noteq> []" using o(4) by (simp add: wal_sizes_def)
  have dL: "d < length L" "L ! d \<noteq> []"
    using trunc_count_le [OF k(1,2)] trunc_count_remaining [OF k(1,2) full] d(1) by simp_all
  have "d - 1 < length (butlast L)" using dL(1) d(2) by simp
  then have pre: "L ! (d - 1) \<noteq> []" using full nth_mem [of "d - 1" "butlast L"] by (simp add: nth_butlast)
  have M: "?M = seg_id m (d - 1)" using d(2) by (simp add: seg_id_def)
  obtain w1 where w1: "content w1 = (content w)(trunc_info_path ?root \<mapsto> bytes_of_string (ToString i))"
    "is_dir w1 = is_dir w" "log_world w1 ?root"
    "Truncate st i w = (case u64_range (m_minSegmentId st) ?M of None \<Rightarrow> (W_Undefined, st, w1)
       | Some is \<Rightarrow> (case Truncate_loop st ?M is 0 w1 of
              (Inl rc, w) \<Rightarrow> (rc, st, w) | (Inr maxClean, w) \<Rightarrow> Truncate_finish st ?M maxClean w))"
    using Truncate_run [OF ok nt k d(1)] by blast
  let ?es = "L ! (d - 1)"
  have es: "?es \<in> set L" using dL(1) by simp
  have "length (segment_bytes ?es) < 2 ^ 32" using bspec [OF conjunct1 [OF o(4) [unfolded wal_sizes_def]] es] o(1)
    by (simp add: wal_conf_def)
  moreover have "\<forall>(v, i, cnt) \<in> set ?es. length cnt < 2 ^ 31" using bspec [OF o(8) es] by (auto simp: entry_ok_def)
  moreover have "content w1 (seg_path ?root (seg_id m (d - 1))) = Some (segment_bytes ?es)"
    using o(2) dL(1) w1(1) by (simp add: log_segments_def)
  ultimately obtain w2 where w2: "Truncate_loop st (seg_id m (d - 1)) (map (seg_id m) [0..<d]) 0 w1 = (Inr (fst (snd (last ?es))), w2)"
    "content w2 = (\<lambda>p. if p \<in> (\<lambda>k. seg_path ?root (seg_id m k)) ` {0..<d} then None else content w1 p)"
    "is_dir w2 = is_dir w1" "log_world w2 ?root"
    using Truncate_loop_done [OF w1(3) mL(1) _ d(2)] dL(1) mL(2) pre by force
  define c where "c = last (log_ids (take d L))"
  have ids: "log_ids (take d L) \<noteq> []" and c: "c = fst (snd (last ?es))"
    using log_ids_take_last [OF d(2) _ pre] dL(1) by (simp_all add: c_def)
  have "c \<in> set (log_ids L)" using ids by (metis c_def append_take_drop_id last_in_set log_ids_append Un_iff set_append)
  then have "1 < c" "c \<le> m_currentEntryIdx st" using o(5) by (auto simp: wal_ids_def)
  then have c0: "c \<noteq> 0" and c1: "c \<noteq> -1" using idx by (auto simp: word_le_nat_alt unsigned_minus_1_eq_mask mask_eq_exp_minus_1)
  obtain "is" where "is": "u64_range (m_lastTruncMaxIdx st) c = Some is" "set is = {i. m_lastTruncMaxIdx st \<le> i \<and> i \<le> c}"
    using u64_range_set [OF c1] by blast
  let ?st = "st\<lparr>m_mpEntriesIdSegId := erase_entries is (m_mpEntriesIdSegId st),
                 m_lastTruncMaxIdx := c + 1, m_minSegmentId := ?M + 1\<rparr>"
  have "wal_paths ?st" using o(1) by (simp add: wal_conf_def wal_paths_def)
  then obtain w3 w4 where w4: "create_trunc_ok_flag ?st w2 = (W_OK, w3)" "clean_trunc_status ?st w3 = (W_OK, w4)"
    "content w4 = (content w2)(trunc_info_path ?root := None, trunc_ok_path ?root := None)" "is_dir w4 = is_dir w2" "log_world w4 ?root"
    using trunc_flags_done [of w2 ?st] w2(3,4) w1(2) nt by (auto simp: no_trunc_files_def)
  have run: "Truncate st i w = (W_OK, ?st, w4)"
    using u64_range_segs [OF mL(1), of d] dL(1) mL(2) M w2(1) c c0 "is"(1) w4(1,2) unfolding w1(4) min
    by (simp add: Truncate_finish_def)
  have P: "content w4 p = (if p \<in> (\<lambda>k. seg_path ?root (seg_id m k)) ` {0..<d} \<or> p \<in> {trunc_info_path ?root, trunc_ok_path ?root}
      then None else content w p)" for p
    by (simp add: w4(3) w2(2) w1(1))
  have segs: "log_segments w4 ?root (m + d) (drop d L)"
    by (rule log_segments_drop [OF o(2) _ P]) (use dL(1) in auto)
  have next_seg: "?M + 1 = seg_id (m + d) 0" using mL(1) by (simp add: seg_id_def of_nat_diff)
  have era: "erase_entries is (m_mpEntriesIdSegId st) = map_of (log_pairs (m + d) (drop d L))"
    using o(3,5) erase_deleted [OF _ _ ids _ "is"(2) [unfolded c_def]] dL(1) by (simp add: wal_handle_def wal_ids_def)
  have "wal_ok ops ?st w4 (m + d) (drop d L)"
    by (rule wal_ok_drop [OF ok dL ids])
      (use era next_seg w4(5) segs \<open>wal_paths ?st\<close> in \<open>simp_all add: c_def same_conf_def\<close>)
  moreover have "no_trunc_files w4 ?root" using nt w4(3,4) w2(3) w1(2) by (simp add: no_trunc_files_def)
  ultimately show ?thesis using run next_seg w4(4) w2(3) w1(2) by (intro exI [of _ ?st] exI [of _ w4]) (simp add: same_conf_def)
qed

end
