(* ===== verification/WalRecover.thy ===== *)
theory WalRecover
  imports WalTruncate
begin

text \<open>
  Init when it finds the information file of a truncation (Truncate interrupted by a crash, or
  returned early): which segments it deletes and what a Load afterwards hands back.
\<close>

definition trunc_pending :: "world \<Rightarrow> path \<Rightarrow> u64 \<Rightarrow> bool" where
  "trunc_pending w root i =
    (content w (trunc_info_path root) = Some (bytes_of_string (ToString i)) \<and> content w (trunc_ok_path root) = None \<and>
     \<not> is_dir w (trunc_info_path root) \<and> \<not> is_dir w (trunc_ok_path root))"

text \<open>The number of segments from \<open>m\<close> on whose number is at most the recorded id.\<close>

definition pending_count :: "nat \<Rightarrow> nat \<Rightarrow> u64 \<Rightarrow> nat" where
  "pending_count m n i = min n (Suc (unat i) - m)"

lemma get_uncompleted_pending:
  assumes "reliable w" "trunc_pending w (m_sRootDir st) i" "wal_paths st" "i \<noteq> 0" "i \<noteq> -1"
  shows "fst (get_uncompleted_trunc_segments_max_id st w) = i"
    and "quiet w (snd (get_uncompleted_trunc_segments_max_id st w))"
proof -
  have ne: "bytes_of_string (ToString i) \<noteq> []" "unat i \<noteq> ULONG_MAX"
    using assms(5) unsigned_less [of i, where 'a = nat]
    by (auto simp: ToString_def ULONG_MAX_def word_unat_eq_iff unsigned_minus_1_eq_mask mask_eq_exp_minus_1)
  then have tp: "ToUint46_t (ToString i) er = ((True, i), er)" for er using ToString_parse assms(4) by blast
  define w1 where "w1 = snd (sys_access (trunc_ok_path (m_sRootDir st)) w)"
  define w2 where "w2 = snd (sys_access (trunc_info_path (m_sRootDir st)) w1)"
  define w3 where "w3 = snd (ReadAllString (trunc_info_path (m_sRootDir st)) w2)"
  have q: "quiet w w1" "quiet w1 w2" "quiet w2 w3" by (simp_all add: w1_def w2_def w3_def)
  have "Exist (trunc_ok_path (m_sRootDir st)) w = (False, w1)" "Exist (trunc_info_path (m_sRootDir st)) w1 = (True, w2)"
    "ReadAllString (trunc_info_path (m_sRootDir st)) w2 = (ToString i, w3)"
    using assms(1,2) by (simp_all add: trunc_pending_def w1_def w2_def w3_def prod_eq_iff)
  then have "get_uncompleted_trunc_segments_max_id st w = (i, set_errno (w_errno w3) w3)"
    using assms(3) ne tp by (simp add: get_uncompleted_trunc_segments_max_id_def wal_paths_def)
  moreover have "quiet w (set_errno (w_errno w3) w3)"
    using quiet_trans [OF quiet_trans [OF q(1,2)] q(3)] by (simp add: quiet_def)
  ultimately show "fst (get_uncompleted_trunc_segments_max_id st w) = i"
    and "quiet w (snd (get_uncompleted_trunc_segments_max_id st w))" by simp_all
qed


lemma unlink_segments_done:
  assumes "reliable w" "wf_world w" "\<forall>i. \<not> is_dir w (seg_path (m_sRootDir st) i)"
  shows "fst (unlink_segments st is w) \<and>
    content (snd (unlink_segments st is w)) = (\<lambda>p. if p \<in> seg_path (m_sRootDir st) ` set is then None else content w p) \<and>
    is_dir (snd (unlink_segments st is w)) = is_dir w \<and>
    reliable (snd (unlink_segments st is w)) \<and> wf_world (snd (unlink_segments st is w))"
  using assms
proof (induction "is" arbitrary: w)
  case (Cons i "is")
  define w1 where "w1 = snd (Unlink (seg_path (m_sRootDir st) i) w)"
  have u: "Unlink (seg_path (m_sRootDir st) i) w = (True, w1)"
    using Cons.prems by (simp add: w1_def prod_eq_iff)
  have w1: "reliable w1" "wf_world w1" "is_dir w1 = is_dir w" "content w1 = (content w)(seg_path (m_sRootDir st) i := None)"
    using Cons.prems by (simp_all add: w1_def)
  from Cons.IH [OF w1(1,2)] Cons.prems(3) show ?case by (auto simp: u w1 fun_eq_iff)
qed simp

lemma clean_trunc_status_done:
  assumes "log_world w (m_sRootDir st)" "wal_paths st" "\<not> is_dir w (trunc_info_path (m_sRootDir st))"
    "\<not> is_dir w (trunc_ok_path (m_sRootDir st))"
  shows "\<exists>w'. clean_trunc_status st w = (W_OK, w') \<and>
    content w' = (content w)(trunc_info_path (m_sRootDir st) := None, trunc_ok_path (m_sRootDir st) := None) \<and>
    is_dir w' = is_dir w \<and> log_world w' (m_sRootDir st)"
proof -
  let ?i = "trunc_info_path (m_sRootDir st)" and ?o = "trunc_ok_path (m_sRootDir st)"
  note lw = log_worldD [OF assms(1)]
  have p: "m_sTruncInfoFilePath st = ?i" "m_sTruncOKFlagFilePath st = ?o" using assms(2) by (simp_all add: wal_paths_def)
  define w2 where "w2 = snd (clean_trunc_status st w)"
  have w2: "clean_trunc_status st w = (W_OK, w2)" "is_dir w2 = is_dir w" "reliable w2" "wf_world w2"
    using lw assms(3,4) p by (auto simp: w2_def prod_eq_iff clean_trunc_status_def split_beta Let_def)
  have "content w2 = (content w)(?i := None, ?o := None)"
    using lw assms(3,4) p by (auto simp: w2_def fun_eq_iff clean_trunc_status_def split_beta Let_def)
  with w2 log_world_step [OF assms(1) w2(2-4)] show ?thesis by blast
qed

lemma pending_segments:
  assumes "1 \<le> m" "m + n < 2 ^ 64 - 1"
  shows "filter (\<lambda>s. \<not> fst s \<le> i) (segment_list root m n) = drop (pending_count m n i) (segment_list root m n)"
    and "k < n \<Longrightarrow> seg_id m k \<le> i \<longleftrightarrow> k < pending_count m n i"
proof -
  have le: "seg_id m k \<le> i \<longleftrightarrow> k < pending_count m n i" if "k < n" for k
    using that assms unat_seg_id [of m k] by (auto simp: word_le_nat_alt pending_count_def)
  then show "k < n \<Longrightarrow> seg_id m k \<le> i \<longleftrightarrow> k < pending_count m n i" .
  have "filter (\<lambda>k. \<not> seg_id m k \<le> i) [0..<n] = filter (\<lambda>k. pending_count m n i \<le> k) [0..<n]"
    using le by (intro filter_cong) auto
  also have "\<dots> = drop (pending_count m n i) [0..<n]"
  proof -
    have "[0..<n] = [0..<pending_count m n i] @ [pending_count m n i..<n]"
      using upt_add_eq_append [of 0 "pending_count m n i" "n - pending_count m n i"] by (simp add: pending_count_def)
    then show ?thesis by (simp add: drop_append)
  qed
  finally show "filter (\<lambda>s. \<not> fst s \<le> i) (segment_list root m n) = drop (pending_count m n i) (segment_list root m n)"
    by (simp add: segment_list_def filter_map comp_def drop_map)
qed


lemma Init_pending:
  assumes "log_world w (m_sRootDir st)" "log_segments w (m_sRootDir st) m L" "L \<noteq> []"
    and "trunc_pending w (m_sRootDir st) i" "wal_paths st" "i \<noteq> 0" "i \<noteq> -1"
    and "d = pending_count m (length L) i"
  shows "\<exists>w'. Init st w = Init_open_current (st\<lparr>m_bInited := True\<rparr>) (segment_list (m_sRootDir st) (m + d) (length L - d)) w' \<and>
    log_segments w' (m_sRootDir st) (m + d) (drop d L) \<and> is_dir w' = is_dir w \<and> log_world w' (m_sRootDir st) \<and>
    no_trunc_files w' (m_sRootDir st)"
proof -
  let ?root = "m_sRootDir st" and ?st = "st\<lparr>m_bInited := True\<rparr>" and ?segs = "segment_list (m_sRootDir st) m (length L)"
  note lw = log_worldD [OF assms(1)]
  have mL: "1 \<le> m" "m + length L < 2 ^ 64 - 1" using assms(2) by (auto simp: log_segments_def)
  define w1 where "w1 = snd (CreateDirPath ?root w)"
  have cd: "CreateDirPath ?root w = (True, w1)"
    using CreateDirPath_ready(1) [OF lw(1,3)] by (simp add: w1_def prod_eq_iff)
  have q1: "quiet w w1" using CreateDirPath_ready [OF lw(1,3)] by (simp add: w1_def quiet_def)
  define w2 where "w2 = snd (get_uncompleted_trunc_segments_max_id ?st w1)"
  have tp1: "trunc_pending w1 ?root i" using assms(4) quietD [OF q1] by (simp add: trunc_pending_def)
  have st: "wal_paths ?st" "m_sRootDir ?st = ?root" using assms(5) by (simp_all add: wal_paths_def)
  have gu: "get_uncompleted_trunc_segments_max_id ?st w1 = (i, w2)" and q2: "quiet w1 w2"
    using get_uncompleted_pending [of w1 ?st i] tp1 st assms(6,7) quietD(3) [OF q1 lw(1)]
    by (simp_all add: w2_def prod_eq_iff)
  have q12: "quiet w w2" by (rule quiet_trans [OF q1 q2])
  have "log_world w2 (m_sRootDir ?st)" "log_segments w2 (m_sRootDir ?st) m L"
    using log_world_quiet [OF assms(1) q12] assms(2) quietD [OF q12] by (simp_all add: log_segments_def)
  from list_segments_asc_done [OF this] obtain w3 where ls: "list_segments_asc ?st w2 = (Inr ?segs, w3)"
    "content w3 = content w" "is_dir w3 = is_dir w" "log_world w3 ?root" using quietD [OF q12] by auto
  obtain "is" where "is": "u64_range (seg_id m 0) i = Some is" "set is = {j. seg_id m 0 \<le> j \<and> j \<le> i}"
    using u64_range_set [OF assms(7)] by blast
  define w4 where "w4 = snd (unlink_segments ?st is w3)"
  have us: "unlink_segments ?st is w3 = (True, w4)" "is_dir w4 = is_dir w" "reliable w4" "wf_world w4"
    "content w4 = (\<lambda>p. if p \<in> seg_path ?root ` set is then None else content w p)"
    using unlink_segments_done [of w3 ?st "is"] log_worldD [OF ls(4)] ls(2,3) by (auto simp: w4_def prod_eq_iff)
  have lw4: "log_world w4 ?root" by (rule log_world_step [OF assms(1) us(2-4)])
  obtain w5 where w5: "clean_trunc_status ?st w4 = (W_OK, w5)"
    "content w5 = (content w4)(trunc_info_path ?root := None, trunc_ok_path ?root := None)" "is_dir w5 = is_dir w" "log_world w5 ?root"
    using clean_trunc_status_done [of w4 ?st] lw4 st us(2) assms(4) by (auto simp: trunc_pending_def)
  have dL: "d \<le> length L" by (simp add: assms(8) pending_count_def)
  have P: "content w5 p = (if p \<in> (\<lambda>k. seg_path ?root (seg_id m k)) ` {0..<d} \<or> p \<in> {trunc_info_path ?root, trunc_ok_path ?root}
      then None else content w p)" for p
  proof -
    have "p \<in> seg_path ?root ` set is" if "p = seg_path ?root (seg_id m k)" "k < d" for k
      using that dL mL pending_segments(2) [OF mL, of k i] unat_seg_id [of m k] unat_seg_id [of m 0]
      by (auto simp: "is"(2) assms(8) word_le_nat_alt)
    moreover have "content w p = None" if "p \<in> seg_path ?root ` set is" "p \<notin> (\<lambda>k. seg_path ?root (seg_id m k)) ` {0..<d}"
    proof (rule ccontr)
      assume "content w p \<noteq> None"
      moreover from that(1) obtain j where j: "p = seg_path ?root j" "j \<le> i" using "is"(2) by auto
      ultimately obtain k where k: "k < length L" "p = seg_path ?root (seg_id m k)"
        using assms(2) unfolding log_segments_def by (metis parent_seg_path str_find_seg_path)
      then have "k < d" using j pending_segments(2) [OF mL k(1), of i] by (simp add: assms(8))
      with k(2) that(2) show False by auto
    qed
    ultimately show ?thesis by (auto simp: w5(2) us(5))
  qed
  have "log_segments w5 ?root (m + d) (drop d L)"
    by (rule log_segments_drop [OF assms(2) dL P]) auto
  moreover have "no_trunc_files w5 ?root" using w5(2,3) assms(4) by (simp add: no_trunc_files_def trunc_pending_def)
  moreover have "Init_finish_trunc ?st i ?segs w3 = (Inr (drop d ?segs), w4)"
    using assms(3,6) "is"(1) us(1) pending_segments(1) [OF mL, of i ?root]
    by (simp add: Init_finish_trunc_def segment_list_simps assms(8))
  moreover have "drop d ?segs = segment_list ?root (m + d) (length L - d)"
  proof (intro nth_equalityI)
    fix k assume "k < length (drop d ?segs)"
    then have "[0..<length L] ! (d + k) = d + k" by (subst nth_upt) (simp_all add: segment_list_def)
    with \<open>k < _\<close> show "drop d ?segs ! k = segment_list ?root (m + d) (length L - d) ! k"
      by (simp add: segment_list_def seg_id_def add.assoc)
  qed (simp add: segment_list_def)
  ultimately show ?thesis using cd gu ls(1) w5(1,3,4) by (auto simp: Init_def)
qed


subsection \<open>Starting on a directory without segments\<close>

definition empty_log_dir :: "world \<Rightarrow> path \<Rightarrow> bool" where
  "empty_log_dir w root = (log_world w root \<and> log_segments w root 1 [] \<and> no_trunc_files w root)"

lemma Load_empty:
  assumes "create_local ops" "wal_conf st" "fresh_wal st" "log_world w (m_sRootDir st)" "log_segments w (m_sRootDir st) 1 [[]]"
    and "st1 = st\<lparr>m_bInited := True, m_minSegmentId := 1, m_currentSegmentId := 1, m_vInitSegments := [],
        m_currentSegFilePath := seg_path (m_sRootDir st) 1,
        m_currentSegFd := Some (seg_path (m_sRootDir st) 1, 4), m_curSegFileSize := 4\<rparr>"
  shows "Load ops st1 w = (W_OK, [], st1\<lparr>m_bLoaded := True\<rparr>, w)" "wal_ok ops (st1\<lparr>m_bLoaded := True\<rparr>) w 1 [[]]"
    "same_conf st (st1\<lparr>m_bLoaded := True\<rparr>)" "m_currentEntryIdx (st1\<lparr>m_bLoaded := True\<rparr>) = 1"
proof -
  let ?st = "st1\<lparr>m_bLoaded := True\<rparr>"
  show "Load ops st1 w = (W_OK, [], ?st, w)" by (simp add: Load_def assms(6))
  have "wal_conf ?st" using assms(2) by (simp add: wal_conf_def wal_paths_def assms(6))
  moreover have "wal_sizes ?st [[]]"
    using assms(2) by (auto simp: wal_sizes_def wal_conf_def segment_bytes_def WriteUInt32_enc assms(6))
  moreover have "wal_ids ?st [[]]" "wal_handle ?st 1 [[]]"
    using assms(3)
    by (simp_all add: wal_ids_def wal_handle_def log_ids_def fresh_wal_def fresh_index_def seg_id_def segment_bytes_def
        WriteUInt32_enc assms(6))
  ultimately show "wal_ok ops ?st w 1 [[]]" using assms(1,4,5) by (simp add: wal_ok_def assms(6))
  show "same_conf st ?st" "m_currentEntryIdx ?st = 1"
    using assms(3) by (simp_all add: same_conf_def fresh_wal_def fresh_index_def assms(6))
qed

lemma wal_start_empty:
  assumes "create_local ops" "wal_conf st" "fresh_wal st" "empty_log_dir w (m_sRootDir st)"
  shows "\<exists>st' w'. wal_start ops st w = (W_OK, [], st', w') \<and> wal_ok ops st' w' 1 [[]] \<and>
    no_trunc_files w' (m_sRootDir st') \<and> same_conf st st' \<and> m_currentEntryIdx st' = 1 \<and>
    content w' = (content w)(seg_path (m_sRootDir st) 1 \<mapsto> segment_bytes []) \<and> is_dir w' = is_dir w"
proof -
  have e: "log_world w (m_sRootDir st)" "log_segments w (m_sRootDir st) 1 []" "no_trunc_files w (m_sRootDir st)"
    using assms(4) by (simp_all add: empty_log_dir_def)
  have p: "wal_paths st" using assms(2) by (simp add: wal_conf_def)
  have fd: "m_currentSegFd st = None" using assms(3) by (simp add: fresh_wal_def)
  obtain w' where w': "Init st w = (W_OK, st\<lparr>m_bInited := True, m_minSegmentId := 1, m_currentSegmentId := 1, m_vInitSegments := [],
        m_currentSegFilePath := seg_path (m_sRootDir st) 1,
        m_currentSegFd := Some (seg_path (m_sRootDir st) 1, 4), m_curSegFileSize := 4\<rparr>, w')"
     "content w' = (content w)(seg_path (m_sRootDir st) 1 \<mapsto> segment_bytes [])"
     "is_dir w' = is_dir w" "log_world w' (m_sRootDir st)" "log_segments w' (m_sRootDir st) 1 [[]]"
    using Init_empty [OF e p fd] by blast
  note L = Load_empty [OF assms(1-3) w'(4,5) refl]
  have "no_trunc_files w' (m_sRootDir st)" using e(3) w'(2,3) by (simp add: no_trunc_files_def)
  with L w'(1-3) show ?thesis by (auto simp: wal_start_def same_conf_def)
qed

subsection \<open>Starting with a truncation pending\<close>

lemma wal_start_pending:
  assumes "log_on_disk ops st w m L" "trunc_pending w (m_sRootDir st) i" "fresh_wal st" "i \<noteq> 0" "i \<noteq> -1"
    and "d = pending_count m (length L) i"
  shows "\<exists>bs st' w'. wal_start ops st w = (W_OK, bs, st', w') \<and> concat bs = decoded ops (concat (drop d L)) \<and>
    same_conf st st' \<and> no_trunc_files w' (m_sRootDir st) \<and>
    (if d < length L then wal_ok ops st' w' (m + d) (drop d L) else wal_ok ops st' w' 1 [[]])"
proof -
  let ?root = "m_sRootDir st" and ?st = "st\<lparr>m_bInited := True\<rparr>"
  have o: "create_local ops" "wal_conf st" "L \<noteq> []" "log_world w ?root" "log_segments w ?root m L" "wal_sizes st L"
    "sorted_wrt (<) (log_ids L)" "\<forall>i \<in> set (log_ids L). 1 < i" "\<forall>es \<in> set L. \<forall>x \<in> set es. entry_ok ops x"
    using assms(1) unfolding log_on_disk_def by blast+
  have paths: "wal_paths st" using o(2) by (simp add: wal_conf_def)
  obtain w1 where w1: "Init st w = Init_open_current ?st (segment_list ?root (m + d) (length L - d)) w1"
    "log_segments w1 ?root (m + d) (drop d L)" "is_dir w1 = is_dir w" "log_world w1 ?root" "no_trunc_files w1 ?root"
    using Init_pending [OF o(4,5,3) assms(2) paths assms(4-6)] by blast
  show ?thesis
  proof (cases "d < length L")
    case True
    have split: "log_ids L = log_ids (take d L) @ log_ids (drop d L)"
      by (metis append_take_drop_id log_ids_append)
    have disk: "log_on_disk ops st w1 (m + d) (drop d L)"
      using o w1(2,4) True wal_sizes_drop [OF o(6) True refl refl] set_drop_subset [of d L]
      unfolding log_on_disk_def split by (auto simp: sorted_wrt_append)
    obtain w2 where w2: "Init st w = (W_OK, opened_wal st (m + d) (drop d L), w2)" "quiet w1 w2"
      using Init_open_current_existing [of w1 ?st "m + d" "drop d L"] w1(1,2,4) True by auto
    obtain bs st' w3 where r: "Load ops (opened_wal st (m + d) (drop d L)) w2 = (W_OK, bs, st', w3)"
      "concat bs = decoded ops (concat (drop d L))" "wal_ok ops st' w3 (m + d) (drop d L)" "quiet w2 w3"
      "started_wal st (m + d) (drop d L) st'"
      using Load_log [OF log_on_disk_quiet [OF disk w2(2)] assms(3)] by blast
    have "no_trunc_files w3 ?root" using w1(5) quietD(1,2) [OF quiet_trans [OF w2(2) r(4)]] by (simp add: no_trunc_files_def)
    with r w2(1) True show ?thesis by (auto simp: wal_start_def same_conf_def)
  next
    case False
    then have nil: "drop d L = []" "length L - d = 0" by simp_all
    have fd: "m_currentSegFd ?st = None" using assms(3) by (simp add: fresh_wal_def)
    obtain w2 where w2: "Init st w = (W_OK, st\<lparr>m_bInited := True, m_minSegmentId := 1, m_currentSegmentId := 1, m_vInitSegments := [],
        m_currentSegFilePath := seg_path ?root 1, m_currentSegFd := Some (seg_path ?root 1, 4), m_curSegFileSize := 4\<rparr>, w2)"
      "content w2 = (content w1)(seg_path ?root 1 \<mapsto> segment_bytes [])" "is_dir w2 = is_dir w1"
      "log_world w2 ?root" "log_segments w2 ?root 1 [[]]"
      using Init_open_current_empty [of w1 ?st "m + d"] w1(1,2,4) fd by (auto simp: nil segment_list_def)
    note L = Load_empty [OF o(1,2) assms(3) w2(4,5) refl]
    have "no_trunc_files w2 ?root" using w1(5) w2(2,3) by (simp add: no_trunc_files_def)
    with L w2(1) False show ?thesis by (auto simp: wal_start_def nil decoded_def)
  qed
qed

end
