(* ===== verification/WalProps.thy ===== *)
theory WalProps
  imports WalRecover
begin

text \<open>
  The properties of the write-ahead log, from an empty directory on, with their witnesses, and the
  runs that show what Truncate loses.
\<close>

subsection \<open>A log directory with nothing in it\<close>

text \<open>A concrete instance for the witnesses: entries are byte strings that encode as themselves.\<close>

definition plain_conf :: LogCleanWalConfig where
  "plain_conf = \<lparr>RootDirPath = ''/w'', WriteEntryVersion = 1, MaxSegmentSize = 60, ReadBatchSize = 100\<rparr>"

definition plain_world :: world where
  "plain_world = \<lparr>w_files = [], w_dirs = [''/w''], w_sched = [], w_errno = ENONE, s_LockingFiles = [], w_flocks = []\<rparr>"

definition plain_wal :: LogCleanWal where
  "plain_wal = the (LogCleanWal_ctor plain_conf)"

text \<open>The object and the world after a start on the empty directory and the given appends.\<close>

definition plain_run :: "bytes list \<Rightarrow> LogCleanWal \<times> world" where
  "plain_run es = snd (append_seq (wal_append plain_ops) (snd (wal_restart plain_ops plain_conf (plain_wal, plain_world))) es)"

text \<open>A world whose log directory holds the given segments, numbered from 1, and the object started on it.\<close>

definition plain_disk :: "log_entry list list \<Rightarrow> world" where
  "plain_disk L = plain_world\<lparr>w_files := map (\<lambda>k. (seg_path ''/w'' (seg_id 1 k), segment_bytes (L ! k))) [0..<length L]\<rparr>"

definition plain_start :: "log_entry list list \<Rightarrow> LogCleanWal \<times> world" where
  "plain_start L = snd (snd (wal_start plain_ops plain_wal (plain_disk L)))"

lemma wal_boot_step:
  assumes "create_local ops" "LogCleanWal_ctor pc = Some st0" "wal_conf st0" "empty_log_dir w (RootDirPath pc)"
  shows "\<exists>st' w'. wal_start ops st0 w = (W_OK, [], st', w') \<and> wal_repr ops pc (st', w') [] \<and>
    m_currentEntryIdx st' = 1 \<and> m_currentSegmentId st' = 1 \<and>
    content w' = (content w)(seg_path (RootDirPath pc) 1 \<mapsto> segment_bytes []) \<and> is_dir w' = is_dir w"
proof -
  have c: "fresh_wal st0" "m_sRootDir st0 = RootDirPath pc" using ctor_fresh [OF assms(2)] by auto
  obtain st' w' where r: "wal_start ops st0 w = (W_OK, [], st', w')" "wal_ok ops st' w' 1 [[]]"
    "no_trunc_files w' (m_sRootDir st')" "same_conf st0 st'" "m_currentEntryIdx st' = 1"
    "content w' = (content w)(seg_path (RootDirPath pc) 1 \<mapsto> segment_bytes [])" "is_dir w' = is_dir w"
    using wal_start_empty [OF assms(1,3) c(1), of w] assms(4) unfolding c(2) by blast
  have "wal_configured pc st'" using assms(2,3) r(4) by (simp add: wal_configured_def)
  moreover have "decoded ops (concat [[]]) = []" by (simp add: decoded_def)
  ultimately have "wal_repr ops pc (st', w') []" using r(2,3) unfolding wal_repr_def by fastforce
  moreover have "m_currentSegmentId st' = 1" using r(2) by (simp add: wal_ok_def wal_handle_def seg_id_def)
  ultimately show ?thesis using r by blast
qed

lemma wal_boot:
  assumes "create_local ops" "LogCleanWal_ctor pc = Some st0" "wal_conf st0" "empty_log_dir w (RootDirPath pc)"
  shows "\<exists>s. wal_restart ops pc (x, w) = ((W_OK, []), s) \<and> wal_repr ops pc s [] \<and>
    m_currentEntryIdx (fst s) = 1 \<and> m_currentSegmentId (fst s) = 1"
proof -
  obtain st' w' where "wal_start ops st0 w = (W_OK, [], st', w')" "wal_repr ops pc (st', w') []"
    "m_currentEntryIdx st' = 1" "m_currentSegmentId st' = 1" using wal_boot_step [OF assms] by blast
  then show ?thesis using assms(2) by (auto simp: wal_restart_def)
qed

subsection \<open>Durability\<close>

text \<open>
  C2: every entry AppendEntry accepts is there after a restart.  Started on an empty directory, with
  any entry type whose encodings can be decoded and fit a read batch, the log takes a sequence of
  entries, answers each with an id greater than the ones before, and a new object constructed on the
  same directory (constructor, Init, Load) hands back exactly these entries, each as its Decode builds
  it from what its Encode gave, with these ids, in order.
\<close>

theorem wal_durable_from_empty:
  assumes "create_local ops" "LogCleanWal_ctor pc = Some st0" "wal_conf st0" "empty_log_dir w (RootDirPath pc)"
    and "\<forall>e \<in> set es. wal_good ops pc e" "length es < 2 ^ 64 - 4"
  shows "\<exists>s1 is s2 s3. wal_restart ops pc (x, w) = ((W_OK, []), s1) \<and>
    append_seq (wal_append ops) s1 es = (Some is, s2) \<and> length is = length es \<and> sorted_wrt (<) is \<and>
    wal_restart ops pc s2 = ((W_OK, zip is (map (stored ops) es)), s3)"
proof -
  obtain s1 where s1: "wal_restart ops pc (x, w) = ((W_OK, []), s1)" "wal_repr ops pc s1 []"
    "m_currentEntryIdx (fst s1) = 1" "m_currentSegmentId (fst s1) = 1"
    using wal_boot [OF assms(1-4)] by blast
  have "wal_room s1 (length es)" using s1(3,4) assms(6) by (simp add: wal_room_def)
  with wl.append_seq_durable [OF s1(2) assms(5)] obtain "is" s2 s3 where
    r: "append_seq (wal_append ops) s1 es = (Some is, s2)" "length is = length es"
      "wal_restart ops pc s2 = ((W_OK, zip is (map (stored ops) es)), s3)" "wal_repr ops pc s3 (zip is (map (stored ops) es))" by auto
  have "sorted_wrt (<) is" using wl.increasing [OF r(4)] r(2) by simp
  with s1(1) r(1-3) show ?thesis by blast
qed

lemma plain_conf_ok: "LogCleanWal_ctor plain_conf = Some plain_wal" "wal_conf plain_wal"
  by (simp_all add: plain_wal_def LogCleanWal_ctor_def plain_conf_def wal_conf_def wal_paths_def trunc_ok_path_def trunc_info_path_def)

lemma plain_empty: "empty_log_dir plain_world (RootDirPath plain_conf)"
proof -
  have "dir_ready plain_world ''/w''" by code_simp
  then have "log_world plain_world ''/w''"
    by (simp add: log_world_def plain_world_def reliable_def wf_world_def content_def is_dir_def seg_path_def)
  then show ?thesis
    by (simp add: empty_log_dir_def plain_conf_def log_segments_def no_trunc_files_def plain_world_def content_def is_dir_def
        trunc_info_path_def trunc_ok_path_def)
qed

theorem wal_durable_from_empty_witness:
  "\<exists>s1 is s2 s3. wal_restart plain_ops plain_conf (plain_wal, plain_world) = ((W_OK, []), s1) \<and>
    append_seq (wal_append plain_ops) s1 [[1], [2, 3], [4]] = (Some is, s2) \<and> length is = length [[1], [2, 3], [4 :: byte]] \<and>
    sorted_wrt (<) is \<and> wal_restart plain_ops plain_conf s2 = ((W_OK, zip is [[1], [2, 3], [4]]), s3)"
  using wal_durable_from_empty [OF plain_local plain_conf_ok plain_empty, of "[[1], [2, 3], [4]]" plain_wal]
  by (simp add: wal_good_def stored_def plain_ops_def plain_conf_def decode_entry_def)

lemma plain_disk_content:
  "content (plain_disk L) p \<noteq> None \<Longrightarrow> \<exists>k < length L. p = seg_path ''/w'' (seg_id 1 k)"
  unfolding plain_disk_def content_def by (fastforce dest!: map_of_SomeD)

lemma plain_disk_nth:
  assumes "Suc (length L) < 2 ^ 64 - 1" "k < length L"
  shows "content (plain_disk L) (seg_path ''/w'' (seg_id 1 k)) = Some (segment_bytes (L ! k))"
proof -
  have "inj_on (\<lambda>k. seg_path ''/w'' (seg_id 1 k)) {0..<length L}"
    using assms(1) by (intro inj_onI) (simp add: seg_id_eq)
  then show ?thesis unfolding plain_disk_def content_def
    using assms(2) by (intro map_of_is_SomeI) (auto simp: distinct_map comp_def)
qed

lemma plain_disk_world:
  assumes "Suc (length L) < 2 ^ 64 - 1"
  shows "log_world (plain_disk L) ''/w''" "log_segments (plain_disk L) ''/w'' 1 L" "no_trunc_files (plain_disk L) ''/w''"
proof -
  have dirs: "is_dir (plain_disk L) = is_dir plain_world" by (simp add: plain_disk_def is_dir_def fun_eq_iff)
  have e: "log_world plain_world ''/w''" "no_trunc_files plain_world ''/w''"
    using plain_empty by (simp_all add: empty_log_dir_def plain_conf_def)
  have "inj_on (\<lambda>k. seg_path ''/w'' (seg_id 1 k)) {0..<length L}"
    using assms(1) by (intro inj_onI) (simp add: seg_id_eq)
  then have "distinct (map fst (w_files (plain_disk L)))" by (simp add: plain_disk_def comp_def distinct_map)
  moreover have "\<not> is_dir plain_world p" if "content (plain_disk L) p \<noteq> None" for p
    using plain_disk_content [OF that] e(1) by (auto simp: log_world_def)
  ultimately show "log_world (plain_disk L) ''/w''"
    using e(1) by (auto simp: log_world_def wf_world_def dirs dir_ready_def) (simp add: reliable_def plain_disk_def)
  show "log_segments (plain_disk L) ''/w'' 1 L"
    using assms plain_disk_nth [OF assms] plain_disk_content [of L] unfolding log_segments_def by simp
  show "no_trunc_files (plain_disk L) ''/w''"
    using e(2) plain_disk_content [of L "trunc_info_path ''/w''"] plain_disk_content [of L "trunc_ok_path ''/w''"]
    by (simp add: no_trunc_files_def dirs trunc_paths_distinct [symmetric]) fastforce
qed

text \<open>What the witnesses need of the object started on concrete segments, without running the start.\<close>

definition plain_log :: "log_entry list list \<Rightarrow> bool" where
  "plain_log L = (Suc (length L) < 2 ^ 64 - 1 \<and> L \<noteq> [] \<and> wal_sizes plain_wal L \<and> sorted_wrt (<) (log_ids L) \<and>
    (\<forall>i \<in> set (log_ids L). 1 < i) \<and> (\<forall>es \<in> set L. \<forall>x \<in> set es. entry_ok plain_ops x))"

lemma plain_start_ok:
  assumes "plain_log L"
  shows "wal_ok plain_ops (fst (plain_start L)) (snd (plain_start L)) 1 L"
    "no_trunc_files (snd (plain_start L)) (m_sRootDir (fst (plain_start L)))" "wal_configured plain_conf (fst (plain_start L))"
    "m_minSegmentId (fst (plain_start L)) = seg_id 1 0"
    "m_currentEntryIdx (fst (plain_start L)) = (if log_ids L = [] then 1 else last (log_ids L))"
    "m_batchReadSize (fst (plain_start L)) = 100" "m_segmentMaxSize (fst (plain_start L)) = 60"
    "m_sRootDir (fst (plain_start L)) = ''/w''" "m_writeEntryVersion (fst (plain_start L)) = 1"
proof -
  note P = assms [unfolded plain_log_def]
  have pw: "m_sRootDir plain_wal = ''/w''" "fresh_wal plain_wal" "m_batchReadSize plain_wal = 100"
    "m_segmentMaxSize plain_wal = 60" "m_writeEntryVersion plain_wal = 1"
    using ctor_fresh [OF plain_conf_ok(1)] by (auto simp: plain_conf_def plain_wal_def LogCleanWal_ctor_def)
  have "log_on_disk plain_ops plain_wal (plain_disk L) 1 L"
    using P plain_disk_world [of L] plain_local plain_conf_ok(2) by (simp add: log_on_disk_def pw)
  from wal_start_log [OF this _ pw(2)] plain_disk_world(3) [of L] P obtain bs st' w' where
    r: "wal_start plain_ops plain_wal (plain_disk L) = (W_OK, bs, st', w')" "wal_ok plain_ops st' w' 1 L"
      "quiet (plain_disk L) w'" "m_sRootDir st' = m_sRootDir plain_wal" "m_batchReadSize st' = m_batchReadSize plain_wal"
      "m_segmentMaxSize st' = m_segmentMaxSize plain_wal" "m_writeEntryVersion st' = m_writeEntryVersion plain_wal"
      "m_minSegmentId st' = seg_id 1 0" "m_currentEntryIdx st' = (if log_ids L = [] then 1 else last (log_ids L))"
    unfolding pw by blast
  have s: "plain_start L = (st', w')" by (simp add: plain_start_def r(1))
  show "wal_ok plain_ops (fst (plain_start L)) (snd (plain_start L)) 1 L" using r(2) by (simp add: s)
  show "no_trunc_files (snd (plain_start L)) (m_sRootDir (fst (plain_start L)))"
    using plain_disk_world(3) [of L] P r(3,4) pw by (simp add: s no_trunc_files_def quiet_def)
  show "wal_configured plain_conf (fst (plain_start L))"
    using plain_conf_ok r(4-7) by (simp add: s wal_configured_def same_conf_def)
  show "m_minSegmentId (fst (plain_start L)) = seg_id 1 0"
    "m_currentEntryIdx (fst (plain_start L)) = (if log_ids L = [] then 1 else last (log_ids L))"
    "m_batchReadSize (fst (plain_start L)) = 100" "m_segmentMaxSize (fst (plain_start L)) = 60"
    "m_sRootDir (fst (plain_start L)) = ''/w''" "m_writeEntryVersion (fst (plain_start L)) = 1"
    using r(4-9) by (simp_all add: s pw)
qed

subsection \<open>Truncate\<close>

text \<open>
  C6: Truncate deletes whole segments and nothing else, when it has at least one to delete.  On a
  working log whose segments hold the entries L, with the id in segment k, let trunc_count L k be the
  number of segments up to the one of the id, except that the current segment stays, and that one more
  segment stays when the segment behind them is still empty.  If that number is not 0, Truncate returns
  OK, and a restart afterwards hands back exactly the entries of the segments behind these.  (If it is 0,
  as it is while the id lies in the first segment and that segment is the current one, a restart loses
  entries: Truncate_then_restart.)
\<close>

theorem Truncate_keeps_suffix:
  assumes "wal_ok ops st w m L" "no_trunc_files w (m_sRootDir st)" "wal_configured pc st"
    and "m_minSegmentId st = seg_id m 0" "Suc (unat (m_currentEntryIdx st)) < 2 ^ 64"
    and "m_mpEntriesIdSegId st i = Some (seg_id m k)" "k < length L" "0 < trunc_count L k"
  shows "\<exists>st' w' s. Truncate st i w = (W_OK, st', w') \<and>
    wal_ok ops st' w' (m + trunc_count L k) (drop (trunc_count L k) L) \<and>
    wal_restart ops pc (st', w') = ((W_OK, decoded ops (concat (drop (trunc_count L k) L))), s)"
proof -
  have "m + length L < 2 ^ 64 - 1" using assms(1) by (simp add: wal_ok_def log_segments_def)
  with wal_entry_in_log [OF assms(1,6)] assms(7) have "L ! k \<noteq> []" by (auto simp: seg_id_eq)
  from Truncate_deletes [OF assms(1,2,7) this assms(6) refl assms(8,4,5)] obtain st' w' where
    t: "Truncate st i w = (W_OK, st', w')" "wal_ok ops st' w' (m + trunc_count L k) (drop (trunc_count L k) L)"
      "no_trunc_files w' (m_sRootDir st')" "same_conf st st'" by blast
  have "wal_configured pc st'"
    using assms(3) t(4) by (auto simp: wal_configured_def same_conf_def split: option.splits)
  then have "wal_repr ops pc (st', w') (decoded ops (concat (drop (trunc_count L k) L)))"
    using t(2,3) by (auto simp: wal_repr_def)
  with wl.restart_law t(1,2) show ?thesis by blast
qed


definition two_segments :: "log_entry list list" where
  "two_segments = [[(1, 2, [7]), (1, 3, [8]), (1, 4, [9])], [(1, 5, [10])]]"

lemma plain_two_segments: "plain_log two_segments"
proof -
  have "wal_sizes plain_wal two_segments" "sorted_wrt (<) (log_ids two_segments)" "\<forall>i \<in> set (log_ids two_segments). 1 < i"
    by code_simp+
  then show ?thesis by (simp add: plain_log_def two_segments_def entry_ok_def decode_entry_def plain_ops_def)
qed

lemmas two_segments_ok = plain_start_ok [OF plain_two_segments]

lemma two_segments_index: "m_mpEntriesIdSegId (fst (plain_start two_segments)) = map_of (log_pairs 1 two_segments)"
  using two_segments_ok(1) by (simp add: wal_ok_def wal_handle_def)

theorem Truncate_keeps_suffix_witness:
  "\<exists>st' w' s. Truncate (fst (plain_start two_segments)) 3 (snd (plain_start two_segments)) = (W_OK, st', w') \<and>
    wal_ok plain_ops st' w' (1 + trunc_count two_segments 0) (drop (trunc_count two_segments 0) two_segments) \<and>
    wal_restart plain_ops plain_conf (st', w') =
      ((W_OK, decoded plain_ops (concat (drop (trunc_count two_segments 0) two_segments))), s)"
proof (rule Truncate_keeps_suffix [OF two_segments_ok(1-4)])
  show "Suc (unat (m_currentEntryIdx (fst (plain_start two_segments)))) < 2 ^ 64"
    by (simp add: two_segments_ok) (simp add: two_segments_def log_ids_def)
  show "m_mpEntriesIdSegId (fst (plain_start two_segments)) 3 = Some (seg_id 1 0)"
    by (simp add: two_segments_index) (simp add: two_segments_def seg_id_def)
  show "0 < length two_segments" "0 < trunc_count two_segments 0" by (simp_all add: two_segments_def trunc_count_def)
qed



lemma Truncate_nothing:
  assumes ok: "wal_ok ops st w m L" and nt: "no_trunc_files w (m_sRootDir st)"
    and k: "k < length L" "L ! k \<noteq> []" "m_mpEntriesIdSegId st i = Some (seg_id m k)"
    and d: "trunc_count L k = 0" and min: "m_minSegmentId st = seg_id m 0"
    and nm: "\<not> str_find LOGCLEAN_WAL_SEGMENT_PREFIX_NAME (trunc_info_path (m_sRootDir st))"
  shows "\<exists>w'. Truncate st i w = (W_OK, st\<lparr>m_minSegmentId := 1\<rparr>, w') \<and> log_on_disk ops st w' m L \<and>
    trunc_pending w' (m_sRootDir st) i"
proof -
  let ?root = "m_sRootDir st"
  have m: "1 \<le> m" "m + 0 < 2 ^ 64 - 1" and segs: "log_segments w ?root m L" using ok by (auto simp: wal_ok_def log_segments_def)
  obtain w1 where w1: "content w1 = (content w)(trunc_info_path ?root \<mapsto> bytes_of_string (ToString i))"
    "is_dir w1 = is_dir w" "log_world w1 ?root"
    "Truncate st i w = (case u64_range (m_minSegmentId st) (word_of_nat (m + 0 - 1)) of None \<Rightarrow> (W_Undefined, st, w1)
       | Some is \<Rightarrow> (case Truncate_loop st (word_of_nat (m + 0 - 1)) is 0 w1 of
              (Inl rc, w) \<Rightarrow> (rc, st, w) | (Inr maxClean, w) \<Rightarrow> Truncate_finish st (word_of_nat (m + 0 - 1)) maxClean w))"
    using Truncate_run [OF ok nt k d [symmetric]] by blast
  have "Truncate st i w = (W_OK, st\<lparr>m_minSegmentId := 1\<rparr>, w1)"
    unfolding w1(4) min u64_range_segs [OF m] by (simp add: Truncate_finish_def)
  moreover have "trunc_pending w1 ?root i" using nt w1(1,2) by (simp add: trunc_pending_def no_trunc_files_def)
  moreover have "log_segments w1 ?root m L"
    using segs w1(1) nm by (auto simp: log_segments_def split: if_splits)
  ultimately show ?thesis using wal_ok_on_disk [OF ok] w1(3) by (auto simp: log_on_disk_def)
qed

text \<open>
  C18: a Truncate that has no whole segment to delete returns OK and leaves the information file
  behind.  The file holds an entry id, and the next Init reads it as a segment number: a restart
  hands back only the entries of the segments whose number is greater than the id, and deletes the
  others, the current segment included.  (The path of the directory must not itself contain the name
  of a segment file, which would make Init take the information file for a segment.)
\<close>

theorem Truncate_then_restart:
  assumes "wal_ok ops st w m L" "no_trunc_files w (m_sRootDir st)" "wal_configured pc st"
    and "m_minSegmentId st = seg_id m 0" "m_mpEntriesIdSegId st i = Some (seg_id m k)" "k < length L"
    and "trunc_count L k = 0" "i \<noteq> -1"
    and "\<not> str_find LOGCLEAN_WAL_SEGMENT_PREFIX_NAME (trunc_info_path (m_sRootDir st))"
  shows "\<exists>w' s. Truncate st i w = (W_OK, st\<lparr>m_minSegmentId := 1\<rparr>, w') \<and>
    wal_restart ops pc (st\<lparr>m_minSegmentId := 1\<rparr>, w') =
      ((W_OK, decoded ops (concat (drop (pending_count m (length L) i) L))), s)"
proof -
  have "m + length L < 2 ^ 64 - 1" using assms(1) by (simp add: wal_ok_def log_segments_def)
  with wal_entry_in_log [OF assms(1,5)] assms(6) have mem: "i \<in> (\<lambda>x. fst (snd x)) ` set (L ! k)" by (auto simp: seg_id_eq)
  then have ne: "L ! k \<noteq> []" by auto
  have "i \<in> set (log_ids L)" using mem nth_mem [OF assms(6)] by (auto simp: log_ids_def)
  then have "i \<noteq> 0" using assms(1) by (auto simp: wal_ok_def wal_ids_def)
  obtain w' where w': "Truncate st i w = (W_OK, st\<lparr>m_minSegmentId := 1\<rparr>, w')" "log_on_disk ops st w' m L"
    "trunc_pending w' (m_sRootDir st) i"
    using Truncate_nothing [OF assms(1,2,6) ne assms(5,7,4,9)] by blast
  obtain st0 where st0: "LogCleanWal_ctor pc = Some st0" "same_conf st0 st" "wal_conf st0"
    using assms(3) by (auto simp: wal_configured_def split: option.splits)
  have "log_on_disk ops st0 w' m L" "trunc_pending w' (m_sRootDir st0) i"
    using w'(2,3) st0(2,3) by (simp_all add: log_on_disk_def same_conf_def wal_sizes_def)
  from wal_start_pending [OF this _ \<open>i \<noteq> 0\<close> assms(8) refl] ctor_fresh [OF st0(1)] obtain bs st' w'' where
    "wal_start ops st0 w' = (W_OK, bs, st', w'')" "concat bs = decoded ops (concat (drop (pending_count m (length L) i) L))"
    by blast
  with w'(1) st0(1) show ?thesis by (auto simp: wal_restart_def)
qed

definition one_segment :: "log_entry list list" where
  "one_segment = [[(1, 2, [7]), (1, 3, [8])]]"

lemma plain_one_segment: "plain_log one_segment"
proof -
  have "wal_sizes plain_wal one_segment" "sorted_wrt (<) (log_ids one_segment)" "\<forall>i \<in> set (log_ids one_segment). 1 < i"
    by code_simp+
  then show ?thesis by (simp add: plain_log_def one_segment_def entry_ok_def decode_entry_def plain_ops_def)
qed

text \<open>The witness: with entries 2 and 3 in the only segment, Truncate of 2 is OK and a restart finds an empty log.\<close>

theorem Truncate_then_restart_witness:
  "\<exists>w' s. Truncate (fst (plain_start one_segment)) 2 (snd (plain_start one_segment)) =
      (W_OK, (fst (plain_start one_segment))\<lparr>m_minSegmentId := 1\<rparr>, w') \<and>
    wal_restart plain_ops plain_conf ((fst (plain_start one_segment))\<lparr>m_minSegmentId := 1\<rparr>, w') =
      ((W_OK, decoded plain_ops (concat (drop (pending_count 1 (length one_segment) 2) one_segment))), s) \<and>
    decoded plain_ops (concat (drop (pending_count 1 (length one_segment) 2) one_segment)) = []"
proof -
  note ok = plain_start_ok [OF plain_one_segment]
  have "m_mpEntriesIdSegId (fst (plain_start one_segment)) = map_of (log_pairs 1 one_segment)"
    using ok(1) by (simp add: wal_ok_def wal_handle_def)
  then have "m_mpEntriesIdSegId (fst (plain_start one_segment)) 2 = Some (seg_id 1 0)"
    by (simp add: one_segment_def seg_id_def)
  moreover have "0 < length one_segment" "trunc_count one_segment 0 = 0" "(2 :: u64) \<noteq> -1"
    by (simp_all add: one_segment_def trunc_count_def)
  moreover have "\<not> str_find LOGCLEAN_WAL_SEGMENT_PREFIX_NAME (trunc_info_path (m_sRootDir (fst (plain_start one_segment))))"
    unfolding ok(8) by code_simp
  moreover have "decoded plain_ops (concat (drop (pending_count 1 (length one_segment) 2) one_segment)) = []"
    by (simp add: one_segment_def pending_count_def decoded_def)
  ultimately show ?thesis
    using Truncate_then_restart [OF ok(1-4)] by blast
qed

subsection \<open>Reading a segment\<close>

text \<open>
  C17: load_segment, which reads the file in batches and carries the incomplete entry at the end of a
  batch over to the next one, gives for every batch size what parsing the whole file at once gives:
  the same entries with the same ids, the same index updates, or the same error.
\<close>

theorem load_segment_batching:
  assumes "create_local ops" "reliable w" "wf_world w" "content w fp = Some c" "0 < m_batchReadSize st"
    and "unat (m_batchReadSize st) + length c < 2 ^ 32"
  shows "\<exists>res bs st' w'. load_segment ops st fp segId w = (res, bs, st', w') \<and> content w' = content w \<and>
      (case parse_segment ops c of
         Inl e \<Rightarrow> res = Inl e
       | Inr es \<Rightarrow> res = Inr (word_of_nat (length c)) \<and> concat bs = es \<and>
                   st' = note_entries segId (map fst es) st)"
  using load_segment_parse [OF assms, of segId] by blast

theorem load_segment_batching_witness:
  "\<exists>res bs st' w'. load_segment plain_ops (plain_wal\<lparr>m_batchReadSize := 5\<rparr>) (seg_path ''/w'' (seg_id 1 0)) 1 (plain_disk one_segment) =
      (res, bs, st', w') \<and> content w' = content (plain_disk one_segment) \<and>
      (case parse_segment plain_ops (segment_bytes (one_segment ! 0)) of
         Inl e \<Rightarrow> res = Inl e
       | Inr es \<Rightarrow> res = Inr (word_of_nat (length (segment_bytes (one_segment ! 0)))) \<and> concat bs = es \<and>
                   st' = note_entries 1 (map fst es) (plain_wal\<lparr>m_batchReadSize := 5\<rparr>))"
proof (rule load_segment_batching [OF plain_local])
  have "Suc (length one_segment) < 2 ^ 64 - 1" "0 < length one_segment" by (simp_all add: one_segment_def)
  then show "content (plain_disk one_segment) (seg_path ''/w'' (seg_id 1 0)) = Some (segment_bytes (one_segment ! 0))"
    "reliable (plain_disk one_segment)" "wf_world (plain_disk one_segment)"
    using plain_disk_nth [of one_segment 0] plain_disk_world(1) [of one_segment] by (simp_all add: log_world_def)
qed (simp_all add: length_segment_bytes one_segment_def entry_size_def)

end
