(* ===== verification/Checkpoint.thy ===== *)
theory Checkpoint
  imports BatchRead NumText Entry
begin

text \<open>
  The checkpoint of checkpoint/checkpoints/entry-order-checkpoint.cc: the object's members as a
  record, one definition per method.  Save forks a child that writes the new checkpoint while the
  parent waits: the child works on the same files with its own copy of the process memory (errno and
  the set of files this process has locked), which is dropped when it exits.
\<close>

subsection \<open>Result codes, names, configuration\<close>

datatype cp_code =
    C_OK | C_Uninited | C_Locking | C_FileCorrupt | C_FileSystemError | C_EncodeEntryError
  | C_DecodeEntryError | C_MissingFile | C_ForkError | C_WaitChildError | C_UnknownChildProcessError
  | C_Undefined

text \<open>C_Undefined is not a code of the source: it marks runs with undefined behaviour.\<close>

definition EOCP_MAGIC_NO :: u32 where "EOCP_MAGIC_NO = 0x736d6370"

abbreviation (input) EOCP_MAGIC_NO_LEN :: nat where "EOCP_MAGIC_NO_LEN \<equiv> 4"
abbreviation (input) EOCP_ENTRY_HEADER_LEN :: nat where "EOCP_ENTRY_HEADER_LEN \<equiv> 5"
abbreviation (input) EOCP_CONTENT_OFFSET :: nat where "EOCP_CONTENT_OFFSET \<equiv> 5"

definition EOCP_PREFIX_NAME :: string where "EOCP_PREFIX_NAME = ''smcp''"
definition EOCP_SAVE_START_FLAG :: string where "EOCP_SAVE_START_FLAG = ''smcp.start''"
definition EOCP_COMPLETE_FLAG :: string where "EOCP_COMPLETE_FLAG = ''smcp.ok''"
definition EOCP_META_SUFFIX :: string where "EOCP_META_SUFFIX = ''.meta''"
definition EOCP_NEW_FILE_SUFFIX :: string where "EOCP_NEW_FILE_SUFFIX = ''.new''"
definition EOCP_LOCK_NAME :: string where "EOCP_LOCK_NAME = ''.lock''"

record EntryOrderCheckpointConfig =
  cpc_RootDirPath :: path
  cpc_WriteEntryVersion :: byte
  cpc_BatchReadSize :: u32

record EntryOrderCheckpoint =
  cp_sRootDir :: path
  cp_bInited :: bool
  cp_sCpFilePath :: path
  cp_sNewCpFilePath :: path
  cp_sCpMetaFilePath :: path
  cp_sNewCpMetaFilePath :: path
  cp_sNewStartFlagFilePath :: path
  cp_sNewCpSaveOkFilePath :: path
  cp_sLockPath :: path
  cp_writeEntryVersion :: byte
  cp_batchReadSize :: u32

definition EntryOrderCheckpoint_ctor :: "EntryOrderCheckpointConfig \<Rightarrow> EntryOrderCheckpoint" where
  "EntryOrderCheckpoint_ctor pc =
    (let root = cpc_RootDirPath pc in
     \<lparr>cp_sRootDir = root, cp_bInited = False,
      cp_sCpFilePath = root @ ''/'' @ EOCP_PREFIX_NAME,
      cp_sNewCpFilePath = (root @ ''/'' @ EOCP_PREFIX_NAME) @ EOCP_NEW_FILE_SUFFIX,
      cp_sCpMetaFilePath = root @ ''/'' @ EOCP_META_SUFFIX,
      cp_sNewCpMetaFilePath = (root @ ''/'' @ EOCP_META_SUFFIX) @ EOCP_NEW_FILE_SUFFIX,
      cp_sNewStartFlagFilePath = root @ ''/'' @ EOCP_SAVE_START_FLAG,
      cp_sNewCpSaveOkFilePath = root @ ''/'' @ EOCP_COMPLETE_FLAG,
      cp_sLockPath = root @ ''/'' @ EOCP_LOCK_NAME,
      cp_writeEntryVersion = cpc_WriteEntryVersion pc, cp_batchReadSize = cpc_BatchReadSize pc\<rparr>)"

text \<open>
  The traveller the client hands to Save: \<open>Prepare\<close> and \<open>CompletePrepare\<close> act on the client's state
  \<open>'s\<close>; \<open>Entries\<close> is the sequence GetNextEntry returns before the null pointer.
\<close>

record ('s, 'e) IEntriesTraveller =
  Prepare :: "'s \<Rightarrow> 's"
  CompletePrepare :: "'s \<Rightarrow> 's"
  Entries :: "'s \<Rightarrow> 'e list"
  MaxId :: "'s \<Rightarrow> u64"

subsection \<open>Flags and recovery\<close>

definition is_completed :: "EntryOrderCheckpoint \<Rightarrow> world \<Rightarrow> bool \<times> world" where
  "is_completed st w =
    (let (e1, w) = Exist (cp_sLockPath st) w
     in if e1 then (False, w)
        else let (e2, w) = Exist (cp_sNewStartFlagFilePath st) w
             in if e2 then (False, w)
                else let (e3, w) = Exist (cp_sNewCpSaveOkFilePath st) w in (\<not> e3, w))"

definition create_ok_flag :: "EntryOrderCheckpoint \<Rightarrow> world \<Rightarrow> cp_code \<times> world" where
  "create_ok_flag st w =
    (let (fd, w) = Open (cp_sNewCpSaveOkFilePath st) True True w
     in if fd = None then (C_FileSystemError, w)
        else let (closed, w) = sys_close fd w
             in if closed then (C_OK, w) else (C_FileSystemError, w))"

text \<open>A sequence of Unlink calls that stops at the first failure.\<close>

fun unlink_all :: "path list \<Rightarrow> world \<Rightarrow> cp_code \<times> world" where
  "unlink_all [] w = (C_OK, w)"
| "unlink_all (p # ps) w =
    (case Unlink p w of
       (False, w) \<Rightarrow> (C_FileSystemError, w)
     | (True, w) \<Rightarrow> unlink_all ps w)"

definition clean_new_cp_tmp :: "EntryOrderCheckpoint \<Rightarrow> world \<Rightarrow> cp_code \<times> world" where
  "clean_new_cp_tmp st w =
    unlink_all [cp_sNewCpMetaFilePath st, cp_sNewCpFilePath st, cp_sNewStartFlagFilePath st,
      cp_sNewCpSaveOkFilePath st] w"

definition replace_old_checkpoint :: "EntryOrderCheckpoint \<Rightarrow> world \<Rightarrow> cp_code \<times> world" where
  "replace_old_checkpoint st w =
    (case unlink_all [cp_sCpMetaFilePath st, cp_sCpFilePath st] w of
       (C_OK, w) \<Rightarrow>
         (case sys_rename (cp_sNewCpMetaFilePath st) (cp_sCpMetaFilePath st) w of
            (False, w) \<Rightarrow> (C_FileSystemError, w)
          | (True, w) \<Rightarrow>
              (case sys_rename (cp_sNewCpFilePath st) (cp_sCpFilePath st) w of
                 (False, w) \<Rightarrow> (C_FileSystemError, w)
               | (True, w) \<Rightarrow> (C_OK, w)))
     | (rc, w) \<Rightarrow> (rc, w))"

definition check_and_recover :: "EntryOrderCheckpoint \<Rightarrow> world \<Rightarrow> cp_code \<times> world" where
  "check_and_recover st w =
    (let (done, w) = is_completed st w
     in if done then (C_OK, w)
        else let (okf, w) = Exist (cp_sNewCpSaveOkFilePath st) w
             in if okf
                then (case replace_old_checkpoint st w of
                        (C_OK, w) \<Rightarrow>
                          (case sys_unlink (cp_sNewCpSaveOkFilePath st) w of
                             (False, w) \<Rightarrow> (C_FileSystemError, w)
                           | (True, w) \<Rightarrow> (C_OK, w))
                      | (rc, w) \<Rightarrow> (rc, w))
                else clean_new_cp_tmp st w)"

text \<open>Every return of Init sets \<open>m_bInited\<close>.\<close>

definition cp_Init :: "EntryOrderCheckpoint \<Rightarrow> world \<Rightarrow> cp_code \<times> EntryOrderCheckpoint \<times> world" where
  "cp_Init st w =
    (let st' = st\<lparr>cp_bInited := True\<rparr>;
         (dir, w) = CreateDirPath (cp_sRootDir st) w
     in if \<not> dir then (C_FileSystemError, st', w)
        else let (rc, w) = check_and_recover st w in (rc, st', w))"

subsection \<open>Meta file\<close>

definition load_meta :: "EntryOrderCheckpoint \<Rightarrow> world \<Rightarrow> (cp_code + u64) \<times> world" where
  "load_meta st w =
    (let (e, w) = Exist (cp_sCpMetaFilePath st) w
     in if \<not> e then (Inr 0, w)
        else let (entryIdStr, w) = ReadAllString (cp_sCpMetaFilePath st) w;
                 ((ok, entryId), er) = ToUint46_t entryIdStr (w_errno w);
                 w = set_errno er w
             in if ok then (Inr entryId, w) else (Inl C_FileCorrupt, w))"

definition create_new_meta_file :: "EntryOrderCheckpoint \<Rightarrow> u64 \<Rightarrow> world \<Rightarrow> cp_code \<times> world" where
  "create_new_meta_file st i w =
    (let (fd, w) = Open (cp_sNewCpMetaFilePath st) True True w
     in if fd = None then (C_FileSystemError, w)
        else let ((n, fd), w) = WriteFully fd (bytes_of_string (ToString i)) w;
                 w = snd (sys_close fd w)
             in if n = None then (C_FileSystemError, w) else (C_OK, w))"

definition create_new_checkpoint_file :: "EntryOrderCheckpoint \<Rightarrow> world \<Rightarrow> cp_code \<times> world" where
  "create_new_checkpoint_file st w =
    (let (fd, w) = Open (cp_sNewCpFilePath st) True True w
     in if fd = None then (C_FileSystemError, w)
        else let header = WriteUInt32 (replicate EOCP_MAGIC_NO_LEN 0) EOCP_MAGIC_NO;
                 ((n, fd), w) = WriteFully fd header w;
                 w = snd (sys_close fd w)
             in if n = None then (C_FileSystemError, w) else (C_OK, w))"

definition init_new_checkpoint :: "EntryOrderCheckpoint \<Rightarrow> u64 \<Rightarrow> world \<Rightarrow> cp_code \<times> world" where
  "init_new_checkpoint st i w =
    (let (fd, w) = Open (cp_sNewStartFlagFilePath st) True False w
     in if fd = None then (C_FileSystemError, w)
        else let w = snd (sys_close fd w)
             in case create_new_meta_file st i w of
                  (C_OK, w) \<Rightarrow> create_new_checkpoint_file st w
                | (rc, w) \<Rightarrow> (rc, w))"

subsection \<open>Writing the entries\<close>

definition cp_entry_bytes :: "byte \<Rightarrow> bytes \<Rightarrow> u32 \<Rightarrow> bytes" where
  "cp_entry_bytes version cnt startPos =
    WriteUInt32 (replicate 4 0) (word_of_nat (length cnt)) @ [version] @ cnt @ WriteUInt32 (replicate 4 0) startPos"

fun save_loop :: "'e entry_ops \<Rightarrow> byte \<Rightarrow> u32 \<Rightarrow> 'e list \<Rightarrow> fd \<Rightarrow> world \<Rightarrow> cp_code \<times> fd \<times> world" where
  "save_loop ops version offset [] fd w =
    (case sys_fdatasync fd w of
       (False, w) \<Rightarrow> (C_FileSystemError, fd, w)
     | (True, w) \<Rightarrow> (C_OK, fd, w))"
| "save_loop ops version offset (e # es) fd w =
    (case Encode ops e of
       None \<Rightarrow> (C_EncodeEntryError, fd, w)
     | Some eb \<Rightarrow>
         if 2 ^ 32 \<le> length eb + 9 then (C_Undefined, fd, w)
         else let ((n, fd), w) = WriteFully fd (cp_entry_bytes version eb offset) w
              in if n = None then (C_FileSystemError, fd, w)
                 else save_loop ops version (offset + (word_of_nat (length eb) + 9)) es fd w)"

definition save_new_checkpoint ::
    "'e entry_ops \<Rightarrow> EntryOrderCheckpoint \<Rightarrow> 'e list \<Rightarrow> world \<Rightarrow> cp_code \<times> world" where
  "save_new_checkpoint ops st es w =
    (let (fd, w) = Open (cp_sNewCpFilePath st) False False w;
         ((ok, fd), w) = sys_lseek fd (int EOCP_MAGIC_NO_LEN) w
     in if \<not> ok then (C_FileSystemError, snd (sys_close fd w))
        else let (rc, fd, w) = save_loop ops (cp_writeEntryVersion st) 4 es fd w
             in (rc, snd (sys_close fd w)))"

subsection \<open>Save\<close>

text \<open>
  The end of do_save_in_child, after the ok flag: the lock goes first, then the start flag, then the
  new files take the place of the old ones, then the ok flag goes.
\<close>

definition child_commit :: "EntryOrderCheckpoint \<Rightarrow> File \<Rightarrow> world \<Rightarrow> world" where
  "child_commit st lockFile w =
    (case CloseFile lockFile w of
       (False, w) \<Rightarrow> w
     | (True, w) \<Rightarrow>
         (case unlink_all [snd lockFile, cp_sNewStartFlagFilePath st] w of
            (C_OK, w) \<Rightarrow>
              (case replace_old_checkpoint st w of
                 (C_OK, w) \<Rightarrow> snd (Unlink (cp_sNewCpSaveOkFilePath st) w)
               | (_, w) \<Rightarrow> w)
          | (_, w) \<Rightarrow> w))"

text \<open>
  do_save_in_child up to the point where the ok flag is created; None is an early return (the child
  has nothing to do, or an operation failed).
\<close>

definition child_prepare ::
    "'e entry_ops \<Rightarrow> EntryOrderCheckpoint \<Rightarrow> u64 \<Rightarrow> 'e list \<Rightarrow> world \<Rightarrow> File option \<times> world" where
  "child_prepare ops st maxId es w =
    (let (lockFile, w) = LockPath (cp_sLockPath st) w
     in if fst lockFile = None then (None, w)
        else case load_meta st w of
            (Inl _, w) \<Rightarrow> (None, w)
          | (Inr entryId, w) \<Rightarrow>
              if maxId \<le> entryId
              then (case CloseFile lockFile w of
                      (False, w) \<Rightarrow> (None, w)
                    | (True, w) \<Rightarrow> (None, snd (Unlink (snd lockFile) w)))
              else (case check_and_recover st w of
                  (C_OK, w) \<Rightarrow>
                    (case init_new_checkpoint st maxId w of
                       (C_OK, w) \<Rightarrow> (let (_, w) = save_new_checkpoint ops st es w in (Some lockFile, w))
                     | (_, w) \<Rightarrow> (None, w))
                | (_, w) \<Rightarrow> (None, w)))"

definition do_save_in_child :: "'e entry_ops \<Rightarrow> EntryOrderCheckpoint \<Rightarrow> u64 \<Rightarrow> 'e list \<Rightarrow> world \<Rightarrow> world" where
  "do_save_in_child ops st maxId es w =
    (case child_prepare ops st maxId es w of
       (None, w) \<Rightarrow> w
     | (Some lockFile, w) \<Rightarrow>
         (case create_ok_flag st w of
            (C_OK, w) \<Rightarrow> child_commit st lockFile w
          | (_, w) \<Rightarrow> w))"

definition sys_fork :: "world \<Rightarrow> bool \<times> world" where
  "sys_fork = syscall False (\<lambda>_ w. (True, w))"

definition sys_waitpid :: "world \<Rightarrow> bool \<times> world" where
  "sys_waitpid = syscall False (\<lambda>_ w. (True, w))"

lemma sys_waitpid_fail: "sys_waitpid w = (False, w') \<Longrightarrow> length (w_sched w') < length (w_sched w)"
  by (auto simp: sys_waitpid_def syscall_def split: list.splits sysev.splits)

function do_save_in_parent :: "EntryOrderCheckpoint \<Rightarrow> world \<Rightarrow> (cp_code + u64) \<times> world" where
  "do_save_in_parent st w =
    (case sys_waitpid w of
       (False, w) \<Rightarrow>
         if w_errno w = EINTR then do_save_in_parent st w else (Inl C_WaitChildError, w)
     | (True, w) \<Rightarrow>
         (case is_completed st w of
            (True, w) \<Rightarrow> load_meta st w
          | (False, w) \<Rightarrow> (Inl C_UnknownChildProcessError, w)))"
  by pat_completeness auto
termination
  by (relation "measure (\<lambda>(st, w). length (w_sched w))") (auto dest: sys_waitpid_fail sym)

declare do_save_in_parent.simps [simp del]

definition cp_Save ::
    "'e entry_ops \<Rightarrow> EntryOrderCheckpoint \<Rightarrow> ('s, 'e) IEntriesTraveller \<Rightarrow> 's \<Rightarrow> world \<Rightarrow> (cp_code + u64) \<times> 's \<times> world" where
  "cp_Save ops st traveller s w =
    (if \<not> cp_bInited st then (Inl C_Uninited, s, w)
     else let (lockRs, w) = IsLocking (cp_sLockPath st) w
          in if lockRs = -1 then (Inl C_FileSystemError, s, w)
             else if lockRs = 1 then (Inl C_Locking, s, w)
             else let s = Prepare traveller s
                  in case sys_fork w of
                       (False, w) \<Rightarrow> (Inl C_ForkError, s, w)
                     | (True, w) \<Rightarrow>
                         let w' = do_save_in_child ops st (MaxId traveller s) (Entries traveller s) w;
                             w' = w'\<lparr>w_errno := w_errno w, s_LockingFiles := s_LockingFiles w\<rparr>;
                             s = CompletePrepare traveller s;
                             (r, w') = do_save_in_parent st w'
                         in (r, s, w'))"

subsection \<open>Load\<close>

text \<open>
  The inner loop of Load on the unread part of the buffer, as in the log's load_segment: \<open>ok\<close> tells
  that the file may have more bytes, \<open>cpOff\<close> is \<open>cpEntryOffset\<close>.
\<close>

function cp_load_batch ::
    "'e entry_ops \<Rightarrow> bool \<Rightarrow> bytes \<Rightarrow> u32 \<Rightarrow> 'e list \<Rightarrow> (cp_code + bytes \<times> u32) \<times> 'e list" where
  "cp_load_batch ops ok rest cpOff ents =
    (if rest = [] then (Inr ([], cpOff), ents)
     else
       let len = (if length rest < EOCP_ENTRY_HEADER_LEN then 0 else ReadUInt32 rest);
           notEnoughOneEntry = (length rest < EOCP_ENTRY_HEADER_LEN \<or> length rest < unat (9 + len))
       in if notEnoughOneEntry
          then (if \<not> ok then (Inl C_FileCorrupt, ents) else (Inr (rest, cpOff), ents))
          else
            let startPosOffset = unat (5 + len)
            in if length rest < startPosOffset + 4 then (Inl C_Undefined, ents)
               else if ReadUInt32 (drop startPosOffset rest) \<noteq> cpOff then (Inl C_FileCorrupt, ents)
               else if length rest < 9 + unat len \<or> 2 ^ 31 \<le> unat len then (Inl C_Undefined, ents)
               else
                 let mem = drop EOCP_CONTENT_OFFSET rest
                 in case Create ops mem of
                      None \<Rightarrow> (Inl C_Undefined, ents)
                    | Some blank \<Rightarrow>
                        (case Decode ops blank (take (unat len) mem) of
                           None \<Rightarrow> (Inl C_DecodeEntryError, ents)
                         | Some e \<Rightarrow>
                             cp_load_batch ops ok (drop (unat (len + 9)) rest) (cpOff + (len + 9)) (ents @ [e])))"
  by pat_completeness auto
termination
proof (relation "measure (\<lambda>(ops, ok, rest, cpOff, ents). length rest)", goal_cases)
  case 1
  then show ?case by simp
next
  case (2 ops ok rest cpOff ents len notEnough startPosOffset mem blank e)
  have "unat len < 2 ^ 31" using 2 by simp
  then have "unat (len + 9) = unat len + 9" by (intro unat_plus_no_wrap [of len 9, simplified]) simp
  with 2 show ?case by simp
qed

declare cp_load_batch.simps [simp del]

function cp_load_loop ::
    "'e entry_ops \<Rightarrow> nat \<Rightarrow> path \<times> nat \<Rightarrow> bytes \<Rightarrow> u32 \<Rightarrow> 'e list list \<Rightarrow> world \<Rightarrow> cp_code \<times> 'e list list \<times> world" where
  "cp_load_loop ops B (p, off) left cpOff batches w =
    (if 2 ^ 32 \<le> B + length left then (C_Undefined, batches, w)
     else
       case ReadFully_V4 (Some (p, off)) B w of
         ((None, _), w) \<Rightarrow> (C_FileSystemError, batches, w)
       | ((Some bs, fd), w) \<Rightarrow>
           if bs = [] then (if left \<noteq> [] then (C_FileCorrupt, batches, w) else (C_OK, batches, w))
           else
             let ok = (length bs = B)
             in case cp_load_batch ops ok (left @ bs) cpOff [] of
                  (Inl rc, _) \<Rightarrow> (rc, batches, w)
                | (Inr (left, cpOff), ents) \<Rightarrow>
                    if ok then cp_load_loop ops B (p, off + length bs) left cpOff (batches @ [ents]) w
                    else (C_OK, batches @ [ents], w))"
  by pat_completeness auto
termination
proof (relation "measure (\<lambda>(ops, B, (p, off), left, cpOff, batches, w). length (data w p) - off)", goal_cases)
  case 1
  then show ?case by simp
next
  case (2 ops B p off left cpOff batches w res w' r fd bs ok x y x2 left' cpOff')
  have run: "ReadFully_V4 (Some (p, off)) B w = ((Some bs, fd), w')"
    using 2 by simp
  from ReadFully_V4_any [OF this] obtain k where k: "bs = take k (drop off (data w p))" by blast
  have "content w' = content w"
    using ReadFully_V4_frame(1) [of "Some (p, off)" B w] run by simp
  moreover have "bs \<noteq> []" using 2 by simp
  ultimately show ?case using k by (cases "off < length (data w p)") auto
qed

declare cp_load_loop.simps [simp del]

text \<open>Load on the open file, up to the last return; the file is closed on every path.\<close>

definition cp_load_file :: "'e entry_ops \<Rightarrow> EntryOrderCheckpoint \<Rightarrow> fd \<Rightarrow> world \<Rightarrow> cp_code \<times> 'e list list \<times> world" where
  "cp_load_file ops st fd w =
    (let (fileSize, w) = GetFileSize_fd fd w
     in case fileSize of
          None \<Rightarrow> (C_FileCorrupt, [], snd (sys_close fd w))
        | Some fileSize \<Rightarrow>
            if fileSize < EOCP_MAGIC_NO_LEN then (C_FileCorrupt, [], snd (sys_close fd w))
            else (case ReadFully_V4 fd EOCP_MAGIC_NO_LEN w of
                    ((None, fd), w) \<Rightarrow> (C_FileSystemError, [], snd (sys_close fd w))
                  | ((Some header, fd), w) \<Rightarrow>
                      if ReadUInt32 (zero_filled 4 header) \<noteq> EOCP_MAGIC_NO
                      then (C_FileCorrupt, [], snd (sys_close fd w))
                      else let (rc, batches, w) = cp_load_loop ops (unat (cp_batchReadSize st)) (the fd) [] 4 [] w
                           in (rc, batches, snd (sys_close fd w))))"

definition cp_Load ::
    "'e entry_ops \<Rightarrow> EntryOrderCheckpoint \<Rightarrow> world \<Rightarrow> (cp_code + u64) \<times> 'e list list \<times> world" where
  "cp_Load ops st w =
    (if \<not> cp_bInited st then (Inl C_Uninited, [], w)
     else case load_meta st w of
         (Inl rc, w) \<Rightarrow> (Inl rc, [], w)
       | (Inr entryId, w) \<Rightarrow>
           if entryId = 0 then (Inr 0, [], w)
           else let (e, w) = Exist (cp_sCpFilePath st) w
                in if \<not> e then (Inl C_MissingFile, [], w)
                   else let (fd, w) = Open (cp_sCpFilePath st) False False w
                        in if fd = None then (Inl C_FileSystemError, [], w)
                           else let (rc, batches, w) = cp_load_file ops st fd w
                                in (if rc = C_OK then Inr entryId else Inl rc, batches, w))"

end
