(* ===== verification/CheckpointLaws.thy ===== *)
theory CheckpointLaws
  imports Checkpoint
begin

text \<open>
  The effect of the checkpoint's operations on the files of its directory: an assertion \<open>cp_at\<close> that
  names the content of the disk, one rule per operation, and what a whole Save leaves behind.
\<close>

subsection \<open>The assertion\<close>

definition cp_paths :: "EntryOrderCheckpoint \<Rightarrow> path list" where
  "cp_paths st = [cp_sCpFilePath st, cp_sNewCpFilePath st, cp_sCpMetaFilePath st, cp_sNewCpMetaFilePath st,
     cp_sNewStartFlagFilePath st, cp_sNewCpSaveOkFilePath st, cp_sLockPath st]"

definition cp_wf :: "EntryOrderCheckpoint \<Rightarrow> bool" where
  "cp_wf st = (distinct (cp_paths st) \<and> (\<forall>p \<in> set (cp_paths st). p \<noteq> [] \<and> parent p = cp_sRootDir st))"

definition cp_at :: "EntryOrderCheckpoint \<Rightarrow> (path \<rightharpoonup> bytes) \<Rightarrow> world \<Rightarrow> bool" where
  "cp_at st F w =
    (cp_wf st \<and> reliable w \<and> wf_world w \<and> content w = F \<and> dir_ready w (cp_sRootDir st) \<and>
     (\<forall>p \<in> set (cp_paths st). \<not> is_dir w p))"

lemma cp_atD:
  assumes "cp_at st F w"
  shows "reliable w" "wf_world w" "content w = F" "dir_ready w (cp_sRootDir st)"
  using assms by (simp_all add: cp_at_def)

lemma cp_at_path:
  assumes "cp_at st F w" "p \<in> set (cp_paths st)"
  shows "\<not> is_dir w p" "can_create w p"
  using assms by (auto simp: cp_at_def cp_wf_def dir_ready_def)

lemma cp_at_step:
  assumes "cp_at st F w" "content w' = F'" "is_dir w' = is_dir w" "reliable w'" "wf_world w'"
  shows "cp_at st F' w'"
  using assms by (simp add: cp_at_def dir_ready_def)

lemma cp_at_quiet: "cp_at st F w \<Longrightarrow> quiet w w' \<Longrightarrow> cp_at st F w'"
  by (rule cp_at_step) (auto simp: cp_at_def quiet_def)

lemma cp_at_memory: "cp_at st F w \<Longrightarrow> cp_at st F (w\<lparr>w_errno := e, s_LockingFiles := ls\<rparr>)"
  by (rule cp_at_step) (auto simp: cp_at_def content_def is_dir_def wf_world_def reliable_def)

lemma cp_paths_distinct:
  assumes "cp_at st F w"
  shows "distinct (cp_paths st)"
  using assms by (simp add: cp_at_def cp_wf_def)

lemma cp_paths_mem [simp]:
  "cp_sCpFilePath st \<in> set (cp_paths st)" "cp_sNewCpFilePath st \<in> set (cp_paths st)"
  "cp_sCpMetaFilePath st \<in> set (cp_paths st)" "cp_sNewCpMetaFilePath st \<in> set (cp_paths st)"
  "cp_sNewStartFlagFilePath st \<in> set (cp_paths st)" "cp_sNewCpSaveOkFilePath st \<in> set (cp_paths st)"
  "cp_sLockPath st \<in> set (cp_paths st)"
  by (simp_all add: cp_paths_def)

lemma ctor_wf: "cp_wf (EntryOrderCheckpoint_ctor pc)"
proof -
  let ?st = "EntryOrderCheckpoint_ctor pc" and ?r = "cpc_RootDirPath pc"
  define names where "names = [''smcp'', ''smcp.new'', ''.meta'', ''.meta.new'', ''smcp.start'', ''smcp.ok'', ''.lock'']"
  have ps: "cp_paths ?st = map (\<lambda>s. ?r @ ''/'' @ s) names"
    by (simp add: cp_paths_def EntryOrderCheckpoint_ctor_def names_def Let_def EOCP_PREFIX_NAME_def EOCP_NEW_FILE_SUFFIX_def
        EOCP_META_SUFFIX_def EOCP_SAVE_START_FLAG_def EOCP_COMPLETE_FLAG_def EOCP_LOCK_NAME_def)
  have "distinct names" "\<forall>s \<in> set names. CHR ''/'' \<notin> set s" by (simp_all add: names_def)
  then show ?thesis
    unfolding cp_wf_def ps
    by (auto simp: distinct_map inj_on_def parent_append [simplified] EntryOrderCheckpoint_ctor_def Let_def)
qed

subsection \<open>Rules of the calls\<close>

lemma cp_Exist:
  assumes "cp_at st F w" "p \<in> set (cp_paths st)"
  shows "\<exists>w'. Exist p w = (F p \<noteq> None, w') \<and> cp_at st F w'"
  using assms cp_at_path [OF assms] cp_atD [OF assms(1)]
  by (intro exI [of _ "snd (Exist p w)"]) (auto simp: prod_eq_iff intro: cp_at_quiet)

lemma cp_Unlink:
  assumes "cp_at st F w" "p \<in> set (cp_paths st)"
  shows "\<exists>w'. Unlink p w = (True, w') \<and> cp_at st (F(p := None)) w'"
  using cp_at_path [OF assms] cp_atD [OF assms(1)]
  by (intro exI [of _ "snd (Unlink p w)"]) (auto simp: prod_eq_iff intro: cp_at_step [OF assms(1)])

lemma cp_sys_unlink:
  assumes "cp_at st F w" "p \<in> set (cp_paths st)"
  shows "\<exists>w'. sys_unlink p w = (F p \<noteq> None, w') \<and> cp_at st (F(p := None)) w'"
  using cp_at_path [OF assms] cp_atD [OF assms(1)]
  by (intro exI [of _ "snd (sys_unlink p w)"]) (auto simp: prod_eq_iff intro: cp_at_step [OF assms(1)])

lemma cp_create:
  assumes "cp_at st F w" "p \<in> set (cp_paths st)"
  shows "\<exists>w'. Open p True t w = (Some (p, 0), w') \<and> cp_at st (if F p = None \<or> t then F(p \<mapsto> []) else F) w'"
proof (intro exI conjI)
  note h = cp_at_path [OF assms] cp_atD [OF assms(1)]
  show "Open p True t w = (Some (p, 0), snd (Open p True t w))" using h by (simp add: prod_eq_iff)
  show "cp_at st (if F p = None \<or> t then F(p \<mapsto> []) else F) (snd (Open p True t w))"
    by (rule cp_at_step [OF assms(1)]) (use h in auto)
qed

lemma cp_open:
  assumes "cp_at st F w" "p \<in> set (cp_paths st)" "F p \<noteq> None"
  shows "\<exists>w'. Open p False False w = (Some (p, 0), w') \<and> cp_at st F w'"
  using cp_at_path [OF assms(1,2)] cp_atD [OF assms(1)] assms(3)
  by (intro exI [of _ "snd (Open p False False w)"]) (auto simp: prod_eq_iff intro: cp_at_step [OF assms(1)])

lemma cp_close: "cp_at st F w \<Longrightarrow> cp_at st F (snd (sys_close fd w))"
  by (erule cp_at_quiet) simp

lemma cp_write:
  assumes "cp_at st F w" "p \<in> set (cp_paths st)" "F p = Some c" "off \<le> length c"
  shows "\<exists>w'. WriteFully (Some (p, off)) bs w = ((Some (length bs), Some (p, off + length bs)), w') \<and>
    cp_at st (F(p \<mapsto> overwrite off bs c)) w'"
proof -
  note at = cp_atD [OF assms(1)]
  have c: "content w p = Some c" using at(3) assms(3) by simp
  note wd = WriteFully_done [OF at(1) c assms(4), of bs]
  show ?thesis
    using wd at(2,3) cp_at_step [OF assms(1), of "snd (WriteFully (Some (p, off)) bs w)"]
    by (intro exI [of _ "snd (WriteFully (Some (p, off)) bs w)"]) (simp add: prod_eq_iff)
qed

lemma cp_rename:
  assumes "cp_at st F w" "q \<in> set (cp_paths st)" "p \<noteq> q"
  shows "\<exists>w'. sys_rename p q w = (F p \<noteq> None, w') \<and>
    cp_at st (if F p = None then F else F(p := None, q := F p)) w'"
  using cp_at_path [OF assms(1,2)] cp_atD [OF assms(1)] assms(3)
  by (intro exI [of _ "snd (sys_rename p q w)"]) (auto simp: prod_eq_iff intro: cp_at_step [OF assms(1)])

subsection \<open>Rules of the operations\<close>

lemma unlink_all_at:
  assumes "cp_at st F w" "set ps \<subseteq> set (cp_paths st)"
  shows "\<exists>w'. unlink_all ps w = (C_OK, w') \<and> cp_at st (\<lambda>p. if p \<in> set ps then None else F p) w'"
  using assms
proof (induction ps arbitrary: F w)
  case (Cons p ps)
  obtain w1 where w1: "Unlink p w = (True, w1)" "cp_at st (F(p := None)) w1"
    using cp_Unlink [of st F w p] Cons.prems by auto
  have "(\<lambda>q. if q \<in> set ps then None else (F(p := None)) q) = (\<lambda>q. if q \<in> set (p # ps) then None else F q)" by auto
  with Cons.IH [OF w1(2)] Cons.prems(2) w1(1) show ?case by auto
qed simp

lemma is_completed_at:
  assumes "cp_at st F w"
  shows "\<exists>w'. is_completed st w =
      (F (cp_sLockPath st) = None \<and> F (cp_sNewStartFlagFilePath st) = None \<and> F (cp_sNewCpSaveOkFilePath st) = None, w') \<and>
    cp_at st F w'"
proof -
  obtain w1 where w1: "Exist (cp_sLockPath st) w = (F (cp_sLockPath st) \<noteq> None, w1)" "cp_at st F w1"
    using cp_Exist [OF assms, of "cp_sLockPath st"] by auto
  obtain w2 where w2: "Exist (cp_sNewStartFlagFilePath st) w1 = (F (cp_sNewStartFlagFilePath st) \<noteq> None, w2)" "cp_at st F w2"
    using cp_Exist [OF w1(2), of "cp_sNewStartFlagFilePath st"] by auto
  obtain w3 where w3: "Exist (cp_sNewCpSaveOkFilePath st) w2 = (F (cp_sNewCpSaveOkFilePath st) \<noteq> None, w3)" "cp_at st F w3"
    using cp_Exist [OF w2(2), of "cp_sNewCpSaveOkFilePath st"] by auto
  from w1 w2 w3 show ?thesis by (auto simp: is_completed_def simp del: Exist_def)
qed

lemma load_meta_none:
  assumes "cp_at st F w" "F (cp_sCpMetaFilePath st) = None"
  shows "\<exists>w'. load_meta st w = (Inr 0, w') \<and> cp_at st F w'"
  using cp_Exist [OF assms(1), of "cp_sCpMetaFilePath st"] assms(2) by (auto simp: load_meta_def simp del: Exist_def)

lemma load_meta_some:
  assumes "cp_at st F w" "F (cp_sCpMetaFilePath st) = Some (bytes_of_string (ToString i))" "i \<noteq> 0" "i \<noteq> -1"
  shows "\<exists>w'. load_meta st w = (Inr i, w') \<and> cp_at st F w'"
proof -
  let ?p = "cp_sCpMetaFilePath st"
  obtain w1 where w1: "Exist ?p w = (True, w1)" "cp_at st F w1"
    using cp_Exist [OF assms(1), of ?p] assms(2) by auto
  define w2 where "w2 = snd (ReadAllString ?p w1)"
  have rd: "ReadAllString ?p w1 = (ToString i, w2)"
    using cp_atD(1,3) [OF w1(2)] assms(2) by (simp add: w2_def prod_eq_iff)
  have at2: "cp_at st F w2" using cp_at_quiet [OF w1(2)] by (simp add: w2_def)
  have "unat i \<noteq> ULONG_MAX"
    using assms(4) by (auto simp: ULONG_MAX_def word_unat_eq_iff unsigned_minus_1_eq_mask mask_eq_exp_minus_1)
  then have "ToUint46_t (ToString i) er = ((True, i), er)" for er using ToString_parse assms(3) by blast
  with w1(1) rd have "load_meta st w = (Inr i, set_errno (w_errno w2) w2)" by (simp add: load_meta_def del: Exist_def)
  moreover have "cp_at st F (set_errno (w_errno w2) w2)" by (rule cp_at_quiet [OF at2]) simp
  ultimately show ?thesis by blast
qed

lemma replace_old_checkpoint_at:
  assumes "cp_at st F w" "F (cp_sNewCpMetaFilePath st) = Some mm" "F (cp_sNewCpFilePath st) = Some c"
  shows "\<exists>w'. replace_old_checkpoint st w = (C_OK, w') \<and>
    cp_at st (F(cp_sNewCpMetaFilePath st := None, cp_sNewCpFilePath st := None,
      cp_sCpMetaFilePath st \<mapsto> mm, cp_sCpFilePath st \<mapsto> c)) w'"
proof -
  let ?m = "cp_sCpMetaFilePath st" and ?c = "cp_sCpFilePath st" and ?nm = "cp_sNewCpMetaFilePath st" and ?nc = "cp_sNewCpFilePath st"
  have ne: "?m \<noteq> ?c" "?m \<noteq> ?nm" "?m \<noteq> ?nc" "?c \<noteq> ?nm" "?c \<noteq> ?nc" "?nm \<noteq> ?nc"
    using cp_paths_distinct [OF assms(1)] by (auto simp: cp_paths_def)
  let ?F = "\<lambda>p. if p \<in> set [?m, ?c] then None else F p"
  obtain w1 where w1: "unlink_all [?m, ?c] w = (C_OK, w1)" "cp_at st ?F w1"
    using unlink_all_at [OF assms(1), of "[?m, ?c]"] by auto
  obtain w2 where w2: "sys_rename ?nm ?m w1 = (True, w2)" "cp_at st (?F(?nm := None, ?m := Some mm)) w2"
    using cp_rename [OF w1(2), of ?m ?nm] ne assms(2) by auto
  obtain w3 where w3: "sys_rename ?nc ?c w2 = (True, w3)"
    "cp_at st (?F(?nm := None, ?m := Some mm, ?nc := None, ?c := Some c)) w3"
    using cp_rename [OF w2(2), of ?c ?nc] ne assms(3) by auto
  have "?F(?nm := None, ?m := Some mm, ?nc := None, ?c := Some c) = F(?nm := None, ?nc := None, ?m := Some mm, ?c := Some c)"
    using ne by (auto simp: fun_eq_iff)
  with w1(1) w2(1) w3 show ?thesis by (auto simp: replace_old_checkpoint_def)
qed

text \<open>Without the new meta file the old checkpoint is removed and the replacement fails.\<close>

lemma replace_old_checkpoint_broken:
  assumes "cp_at st F w" "F (cp_sNewCpMetaFilePath st) = None"
  shows "\<exists>w'. replace_old_checkpoint st w = (C_FileSystemError, w') \<and>
    cp_at st (F(cp_sCpMetaFilePath st := None, cp_sCpFilePath st := None)) w'"
proof -
  let ?m = "cp_sCpMetaFilePath st" and ?c = "cp_sCpFilePath st" and ?nm = "cp_sNewCpMetaFilePath st"
  have ne: "?m \<noteq> ?nm" "?c \<noteq> ?nm" using cp_paths_distinct [OF assms(1)] by (auto simp: cp_paths_def)
  let ?F = "\<lambda>p. if p \<in> set [?m, ?c] then None else F p"
  have F: "?F = F(?m := None, ?c := None)" by auto
  obtain w1 where w1: "unlink_all [?m, ?c] w = (C_OK, w1)" "cp_at st ?F w1"
    using unlink_all_at [OF assms(1), of "[?m, ?c]"] by auto
  obtain w2 where w2: "sys_rename ?nm ?m w1 = (False, w2)" "cp_at st ?F w2"
    using cp_rename [OF w1(2), of ?m ?nm] ne assms(2) by auto
  then show ?thesis using w1(1) unfolding F by (auto simp: replace_old_checkpoint_def)
qed

lemma create_new_meta_file_at:
  assumes "cp_at st F w"
  shows "\<exists>w'. create_new_meta_file st i w = (C_OK, w') \<and>
    cp_at st (F(cp_sNewCpMetaFilePath st \<mapsto> bytes_of_string (ToString i))) w'"
proof -
  let ?p = "cp_sNewCpMetaFilePath st"
  obtain w1 where w1: "Open ?p True True w = (Some (?p, 0), w1)" "cp_at st (F(?p \<mapsto> [])) w1"
    using cp_create [OF assms, of ?p True] by auto
  let ?bs = "bytes_of_string (ToString i)"
  obtain w2 where w2: "WriteFully (Some (?p, 0)) ?bs w1 = ((Some (length ?bs), Some (?p, length ?bs)), w2)"
    "cp_at st (F(?p \<mapsto> ?bs)) w2"
    using cp_write [OF w1(2), of ?p "[]" 0 ?bs] by auto
  from cp_close [OF w2(2)] w1(1) w2(1) show ?thesis by (auto simp: create_new_meta_file_def simp del: Open_def)
qed

lemma create_new_checkpoint_file_at:
  assumes "cp_at st F w"
  shows "\<exists>w'. create_new_checkpoint_file st w = (C_OK, w') \<and>
    cp_at st (F(cp_sNewCpFilePath st \<mapsto> WriteUInt32 (replicate 4 0) EOCP_MAGIC_NO)) w'"
proof -
  let ?p = "cp_sNewCpFilePath st" and ?bs = "WriteUInt32 (replicate 4 0) EOCP_MAGIC_NO"
  obtain w1 where w1: "Open ?p True True w = (Some (?p, 0), w1)" "cp_at st (F(?p \<mapsto> [])) w1"
    using cp_create [OF assms, of ?p True] by auto
  obtain w2 where w2: "WriteFully (Some (?p, 0)) ?bs w1 = ((Some (length ?bs), Some (?p, length ?bs)), w2)"
    "cp_at st (F(?p \<mapsto> ?bs)) w2"
    using cp_write [OF w1(2), of ?p "[]" 0 ?bs] by auto
  from cp_close [OF w2(2)] w1(1) w2(1) show ?thesis by (auto simp: create_new_checkpoint_file_def simp del: Open_def)
qed

lemma init_new_checkpoint_at:
  assumes "cp_at st F w" "F (cp_sNewStartFlagFilePath st) = None"
  shows "\<exists>w'. init_new_checkpoint st i w = (C_OK, w') \<and>
    cp_at st (F(cp_sNewStartFlagFilePath st \<mapsto> [], cp_sNewCpMetaFilePath st \<mapsto> bytes_of_string (ToString i),
      cp_sNewCpFilePath st \<mapsto> WriteUInt32 (replicate 4 0) EOCP_MAGIC_NO)) w'"
proof -
  let ?p = "cp_sNewStartFlagFilePath st"
  obtain w1 where w1: "Open ?p True False w = (Some (?p, 0), w1)" "cp_at st (F(?p \<mapsto> [])) w1"
    using cp_create [OF assms(1), of ?p False] assms(2) by auto
  obtain w2 where w2: "create_new_meta_file st i (snd (sys_close (Some (?p, 0)) w1)) = (C_OK, w2)"
    "cp_at st (F(?p \<mapsto> [], cp_sNewCpMetaFilePath st \<mapsto> bytes_of_string (ToString i))) w2"
    using create_new_meta_file_at [OF cp_close [OF w1(2)]] by blast
  from create_new_checkpoint_file_at [OF w2(2)] w1(1) w2(1) show ?thesis
    by (auto simp: init_new_checkpoint_def simp del: Open_def)
qed

lemma create_ok_flag_at:
  assumes "cp_at st F w"
  shows "\<exists>w'. create_ok_flag st w = (C_OK, w') \<and> cp_at st (F(cp_sNewCpSaveOkFilePath st \<mapsto> [])) w'"
proof -
  let ?p = "cp_sNewCpSaveOkFilePath st"
  obtain w1 where w1: "Open ?p True True w = (Some (?p, 0), w1)" "cp_at st (F(?p \<mapsto> [])) w1"
    using cp_create [OF assms, of ?p True] by auto
  have "sys_close (Some (?p, 0)) w1 = (True, snd (sys_close (Some (?p, 0)) w1))"
    using cp_atD(1) [OF w1(2)] by (simp add: prod_eq_iff)
  with cp_close [OF w1(2), of "Some (?p, 0)"] w1(1) show ?thesis
    by (auto simp: create_ok_flag_def simp del: Open_def split: prod.splits)
qed

subsection \<open>The bytes of a checkpoint\<close>

fun cp_body :: "byte \<Rightarrow> u32 \<Rightarrow> bytes list \<Rightarrow> bytes" where
  "cp_body v off [] = []"
| "cp_body v off (b # bs) = cp_entry_bytes v b off @ cp_body v (off + (word_of_nat (length b) + 9)) bs"

definition checkpoint_bytes :: "byte \<Rightarrow> bytes list \<Rightarrow> bytes" where
  "checkpoint_bytes v bs = WriteUInt32 (replicate 4 0) EOCP_MAGIC_NO @ cp_body v 4 bs"

text \<open>The encodings of the entries up to the first that cannot be encoded.\<close>

fun encoded_prefix :: "'e entry_ops \<Rightarrow> 'e list \<Rightarrow> bytes list" where
  "encoded_prefix ops [] = []"
| "encoded_prefix ops (e # es) = (case Encode ops e of None \<Rightarrow> [] | Some b \<Rightarrow> b # encoded_prefix ops es)"

definition small_entries :: "'e entry_ops \<Rightarrow> 'e list \<Rightarrow> bool" where
  "small_entries ops es = (\<forall>e \<in> set es. \<forall>b. Encode ops e = Some b \<longrightarrow> length b + 9 < 2 ^ 32)"

lemma save_loop_at:
  assumes "cp_at st F w" "p \<in> set (cp_paths st)" "F p = Some c" "small_entries ops es"
  shows "\<exists>rc n w'. save_loop ops v off es (Some (p, length c)) w = (rc, Some (p, n), w') \<and>
    cp_at st (F(p \<mapsto> c @ cp_body v off (encoded_prefix ops es))) w' \<and>
    (rc = C_OK \<longleftrightarrow> (\<forall>e \<in> set es. Encode ops e \<noteq> None))"
  using assms
proof (induction es arbitrary: F w c off)
  case Nil
  have "sys_fdatasync (Some (p, length c)) w = (True, snd (sys_fdatasync (Some (p, length c)) w))"
    using cp_atD(1) [OF Nil(1)] by (simp add: prod_eq_iff)
  moreover have "cp_at st F (snd (sys_fdatasync (Some (p, length c)) w))" by (rule cp_at_quiet [OF Nil(1)]) simp
  ultimately show ?case using Nil(3) by (auto simp: fun_upd_idem split: prod.splits)
next
  case (Cons e es)
  show ?case
  proof (cases "Encode ops e")
    case None
    then show ?thesis using Cons.prems by (auto simp: fun_upd_idem)
  next
    case (Some b)
    let ?bs = "cp_entry_bytes v b off"
    have small: "\<not> 2 ^ 32 \<le> length b + 9" using Cons.prems(4) Some by (auto simp: small_entries_def)
    obtain w1 where w1: "WriteFully (Some (p, length c)) ?bs w = ((Some (length ?bs), Some (p, length (c @ ?bs))), w1)"
      "cp_at st (F(p \<mapsto> c @ ?bs)) w1"
      using cp_write [OF Cons.prems(1-3) order_refl, of ?bs] by auto
    have "small_entries ops es" using Cons.prems(4) by (simp add: small_entries_def)
    moreover have "(F(p \<mapsto> c @ ?bs)) p = Some (c @ ?bs)" by simp
    ultimately obtain rc n w2 where w2:
      "save_loop ops v (off + (word_of_nat (length b) + 9)) es (Some (p, length (c @ ?bs))) w1 = (rc, Some (p, n), w2)"
      "cp_at st (F(p \<mapsto> c @ ?bs, p \<mapsto> (c @ ?bs) @ cp_body v (off + (word_of_nat (length b) + 9)) (encoded_prefix ops es))) w2"
      "rc = C_OK \<longleftrightarrow> (\<forall>e \<in> set es. Encode ops e \<noteq> None)"
      using Cons.IH [OF w1(2) Cons.prems(2)] by blast
    have eq: "c @ cp_body v off (encoded_prefix ops (e # es)) =
        (c @ ?bs) @ cp_body v (off + (word_of_nat (length b) + 9)) (encoded_prefix ops es)" using Some by simp
    have "cp_at st (F(p \<mapsto> c @ cp_body v off (encoded_prefix ops (e # es)))) w2"
      using w2(2) unfolding eq fun_upd_upd .
    moreover have "save_loop ops v off (e # es) (Some (p, length c)) w = (rc, Some (p, n), w2)"
      using w1(1) w2(1) Some small by simp
    moreover have "rc = C_OK \<longleftrightarrow> (\<forall>e \<in> set (e # es). Encode ops e \<noteq> None)" using w2(3) Some by simp
    ultimately show ?thesis by blast
  qed
qed

lemma save_new_checkpoint_at:
  assumes "cp_at st F w" "F (cp_sNewCpFilePath st) = Some (WriteUInt32 (replicate 4 0) EOCP_MAGIC_NO)" "small_entries ops es"
  shows "\<exists>rc w'. save_new_checkpoint ops st es w = (rc, w') \<and>
    cp_at st (F(cp_sNewCpFilePath st \<mapsto> checkpoint_bytes (cp_writeEntryVersion st) (encoded_prefix ops es))) w' \<and>
    (rc = C_OK \<longleftrightarrow> (\<forall>e \<in> set es. Encode ops e \<noteq> None))"
proof -
  let ?p = "cp_sNewCpFilePath st" and ?m = "WriteUInt32 (replicate 4 0) EOCP_MAGIC_NO"
  obtain w1 where w1: "Open ?p False False w = (Some (?p, 0), w1)" "cp_at st F w1"
    using cp_open [OF assms(1), of ?p] assms(2) by auto
  define w2 where "w2 = snd (sys_lseek (Some (?p, 0)) 4 w1)"
  have sk: "sys_lseek (Some (?p, 0)) 4 w1 = ((True, Some (?p, 4)), w2)"
    using cp_atD(1) [OF w1(2)] by (simp add: w2_def prod_eq_iff)
  have at2: "cp_at st F w2" using cp_at_quiet [OF w1(2)] by (simp add: w2_def)
  have len: "length ?m = 4" by (simp add: WriteUInt32_enc)
  obtain rc n w3 where w3: "save_loop ops (cp_writeEntryVersion st) 4 es (Some (?p, 4)) w2 = (rc, Some (?p, n), w3)"
    "cp_at st (F(?p \<mapsto> ?m @ cp_body (cp_writeEntryVersion st) 4 (encoded_prefix ops es))) w3"
    "rc = C_OK \<longleftrightarrow> (\<forall>e \<in> set es. Encode ops e \<noteq> None)"
    using save_loop_at [OF at2 cp_paths_mem(2) assms(2,3), of "cp_writeEntryVersion st" 4] unfolding len by blast
  have "save_new_checkpoint ops st es w = (rc, snd (sys_close (Some (?p, n)) w3))"
    using w1(1) sk w3(1) by (simp add: save_new_checkpoint_def del: Open_def)
  with w3(3) cp_close [OF w3(2)] show ?thesis unfolding checkpoint_bytes_def by blast
qed

subsection \<open>The child\<close>

lemma LockPath_at:
  assumes "cp_at st F w" "cp_sLockPath st \<notin> set (s_LockingFiles w)"
  shows "\<exists>w' c. LockPath (cp_sLockPath st) w = ((Some (cp_sLockPath st, 0), cp_sLockPath st), w') \<and>
    cp_at st (F(cp_sLockPath st \<mapsto> c)) w'"
proof -
  let ?p = "cp_sLockPath st"
  obtain w1 c where w1: "Open ?p True False w = (Some (?p, 0), w1)" "cp_at st (F(?p \<mapsto> c)) w1"
  proof (cases "F ?p")
    case None
    then show ?thesis using cp_create [OF assms(1), of ?p False] that by auto
  next
    case (Some c)
    then have "F(?p \<mapsto> c) = F" by (simp add: fun_upd_idem)
    with Some show ?thesis using cp_create [OF assms(1), of ?p False] that [of _ c] by auto
  qed
  define w2 where "w2 = snd (sys_setlkw (Some (?p, 0)) w1)"
  have lk: "sys_setlkw (Some (?p, 0)) w1 = (True, w2)"
    using cp_atD(1) [OF w1(2)] by (simp add: w2_def prod_eq_iff)
  have at2: "cp_at st (F(?p \<mapsto> c)) w2"
    by (rule cp_at_step [OF w1(2)]) (use cp_atD [OF w1(2)] in \<open>simp_all add: w2_def\<close>)
  have "cp_at st (F(?p \<mapsto> c)) (insert_locking ?p w2)"
    unfolding insert_locking_def using cp_at_memory [OF at2, where e = "w_errno w2"] by simp
  with w1(1) lk assms(2) show ?thesis by (auto simp: LockPath_def is_locking_file_def simp del: Open_def)
qed

lemma CloseFile_at:
  assumes "cp_at st F w" "fst f \<noteq> None"
  shows "\<exists>w'. CloseFile f w = (True, w') \<and> cp_at st F w'"
proof -
  define w1 where "w1 = snd (sys_close (fst f) w)"
  have "sys_close (fst f) w = (True, w1)" using cp_atD(1) [OF assms(1)] assms(2) by (simp add: w1_def prod_eq_iff)
  moreover have "cp_at st F w1" using cp_close [OF assms(1)] by (simp add: w1_def)
  ultimately show ?thesis
    using cp_at_memory [of st F w1 _ "w_errno w1"] by (auto simp: CloseFile_def remove_locking_file_if_exist_def)
qed

text \<open>With the lock file there and no ok flag, recovery removes the unfinished new checkpoint.\<close>

lemma check_and_recover_clean:
  assumes "cp_at st F w" "F (cp_sNewCpSaveOkFilePath st) = None" "F (cp_sLockPath st) \<noteq> None \<or> F (cp_sNewStartFlagFilePath st) \<noteq> None"
  shows "\<exists>w'. check_and_recover st w = (C_OK, w') \<and>
    cp_at st (F(cp_sNewCpMetaFilePath st := None, cp_sNewCpFilePath st := None, cp_sNewStartFlagFilePath st := None)) w'"
proof -
  let ?nm = "cp_sNewCpMetaFilePath st" and ?nc = "cp_sNewCpFilePath st" and ?s = "cp_sNewStartFlagFilePath st" and ?ok = "cp_sNewCpSaveOkFilePath st"
  obtain w1 where w1: "is_completed st w = (False, w1)" "cp_at st F w1"
    using is_completed_at [OF assms(1)] assms(2,3) by auto
  obtain w2 where w2: "Exist ?ok w1 = (False, w2)" "cp_at st F w2"
    using cp_Exist [OF w1(2), of ?ok] assms(2) by auto
  obtain w3 where w3: "unlink_all [?nm, ?nc, ?s, ?ok] w2 = (C_OK, w3)"
    "cp_at st (\<lambda>p. if p \<in> set [?nm, ?nc, ?s, ?ok] then None else F p) w3"
    using unlink_all_at [OF w2(2), of "[?nm, ?nc, ?s, ?ok]"] by auto
  have "(\<lambda>p. if p \<in> set [?nm, ?nc, ?s, ?ok] then None else F p) = F(?nm := None, ?nc := None, ?s := None)"
    using assms(2) by auto
  with w1(1) w2(1) w3 show ?thesis by (auto simp: check_and_recover_def clean_new_cp_tmp_def simp del: Exist_def unlink_all.simps)
qed

lemma child_commit_at:
  assumes "cp_at st F w" "fst f \<noteq> None" "snd f = cp_sLockPath st"
    and "F (cp_sNewCpMetaFilePath st) = Some mm" "F (cp_sNewCpFilePath st) = Some c"
  shows "cp_at st (F(cp_sLockPath st := None, cp_sNewStartFlagFilePath st := None, cp_sNewCpSaveOkFilePath st := None,
      cp_sNewCpMetaFilePath st := None, cp_sNewCpFilePath st := None,
      cp_sCpMetaFilePath st \<mapsto> mm, cp_sCpFilePath st \<mapsto> c)) (child_commit st f w)"
proof -
  let ?l = "cp_sLockPath st" and ?s = "cp_sNewStartFlagFilePath st" and ?ok = "cp_sNewCpSaveOkFilePath st"
  let ?nm = "cp_sNewCpMetaFilePath st" and ?nc = "cp_sNewCpFilePath st"
  have d: "distinct (cp_paths st)" by (rule cp_paths_distinct [OF assms(1)])
  obtain w1 where w1: "CloseFile f w = (True, w1)" "cp_at st F w1" using CloseFile_at [OF assms(1,2)] by blast
  let ?F = "\<lambda>p. if p \<in> set [?l, ?s] then None else F p"
  obtain w2 where w2: "unlink_all [?l, ?s] w1 = (C_OK, w2)" "cp_at st ?F w2"
    using unlink_all_at [OF w1(2), of "[?l, ?s]"] by auto
  have new: "?F ?nm = Some mm" "?F ?nc = Some c" using assms(4,5) d by (auto simp: cp_paths_def)
  obtain w3 where w3: "replace_old_checkpoint st w2 = (C_OK, w3)"
    "cp_at st (?F(?nm := None, ?nc := None, cp_sCpMetaFilePath st \<mapsto> mm, cp_sCpFilePath st \<mapsto> c)) w3"
    using replace_old_checkpoint_at [OF w2(2) new] by blast
  obtain w4 where w4: "Unlink ?ok w3 = (True, w4)"
    "cp_at st (?F(?nm := None, ?nc := None, cp_sCpMetaFilePath st \<mapsto> mm, cp_sCpFilePath st \<mapsto> c, ?ok := None)) w4"
    using cp_Unlink [OF w3(2), of ?ok] by auto
  have "?F(?nm := None, ?nc := None, cp_sCpMetaFilePath st \<mapsto> mm, cp_sCpFilePath st \<mapsto> c, ?ok := None) =
      F(?l := None, ?s := None, ?ok := None, ?nm := None, ?nc := None, cp_sCpMetaFilePath st \<mapsto> mm, cp_sCpFilePath st \<mapsto> c)"
    using d by (auto simp: cp_paths_def fun_eq_iff)
  with w1(1) w2(1) w3(1) w4 assms(3) show ?thesis by (auto simp: child_commit_def simp del: unlink_all.simps)
qed

text \<open>The id recorded in the meta file; no file is id 0.\<close>

definition cp_meta :: "EntryOrderCheckpoint \<Rightarrow> (path \<rightharpoonup> bytes) \<Rightarrow> u64 \<Rightarrow> bool" where
  "cp_meta st F i =
    (case F (cp_sCpMetaFilePath st) of
       None \<Rightarrow> i = 0
     | Some b \<Rightarrow> b = bytes_of_string (ToString i) \<and> i \<noteq> 0 \<and> i \<noteq> -1)"

lemma load_meta_at:
  assumes "cp_at st F w" "cp_meta st F i"
  shows "\<exists>w'. load_meta st w = (Inr i, w') \<and> cp_at st F w'"
  using assms load_meta_none [OF assms(1)] load_meta_some [OF assms(1)]
  by (auto simp: cp_meta_def split: option.splits)

text \<open>The files after a Save that ran to its end.\<close>

definition saved_files ::
    "EntryOrderCheckpoint \<Rightarrow> (path \<rightharpoonup> bytes) \<Rightarrow> u64 \<Rightarrow> bytes list \<Rightarrow> (path \<rightharpoonup> bytes)" where
  "saved_files st F i bs = F(cp_sLockPath st := None, cp_sNewStartFlagFilePath st := None, cp_sNewCpSaveOkFilePath st := None,
      cp_sNewCpMetaFilePath st := None, cp_sNewCpFilePath st := None,
      cp_sCpMetaFilePath st \<mapsto> bytes_of_string (ToString i), cp_sCpFilePath st \<mapsto> checkpoint_bytes (cp_writeEntryVersion st) bs)"

lemma do_save_in_child_at:
  assumes "cp_at st F w" "cp_sLockPath st \<notin> set (s_LockingFiles w)" "F (cp_sNewCpSaveOkFilePath st) = None"
    and "cp_meta st F i" "i < maxId" "small_entries ops es"
  shows "cp_at st (saved_files st F maxId (encoded_prefix ops es)) (do_save_in_child ops st maxId es w)"
proof -
  let ?l = "cp_sLockPath st" and ?s = "cp_sNewStartFlagFilePath st" and ?ok = "cp_sNewCpSaveOkFilePath st"
  let ?nm = "cp_sNewCpMetaFilePath st" and ?nc = "cp_sNewCpFilePath st" and ?lf = "(Some (cp_sLockPath st, 0), cp_sLockPath st)"
  let ?v = "cp_writeEntryVersion st" and ?mm = "bytes_of_string (ToString maxId)" and ?mg = "WriteUInt32 (replicate 4 0) EOCP_MAGIC_NO"
  let ?cb = "checkpoint_bytes (cp_writeEntryVersion st) (encoded_prefix ops es)"
  have d: "distinct (cp_paths st)" by (rule cp_paths_distinct [OF assms(1)])
  obtain w1 lc where w1: "LockPath ?l w = (?lf, w1)" "cp_at st (F(?l \<mapsto> lc)) w1"
    using LockPath_at [OF assms(1,2)] by blast
  have "cp_meta st (F(?l \<mapsto> lc)) i" using assms(4) d by (simp add: cp_meta_def cp_paths_def)
  then obtain w2 where w2: "load_meta st w1 = (Inr i, w2)" "cp_at st (F(?l \<mapsto> lc)) w2"
    using load_meta_at [OF w1(2)] by blast
  have "(F(?l \<mapsto> lc)) ?ok = None" using assms(3) d by (simp add: cp_paths_def)
  then obtain w3 where w3: "check_and_recover st w2 = (C_OK, w3)" "cp_at st (F(?l \<mapsto> lc, ?nm := None, ?nc := None, ?s := None)) w3"
    using check_and_recover_clean [OF w2(2)] by auto
  obtain w4 where w4: "init_new_checkpoint st maxId w3 = (C_OK, w4)"
    "cp_at st (F(?l \<mapsto> lc, ?nm := None, ?nc := None, ?s := None, ?s \<mapsto> [], ?nm \<mapsto> ?mm, ?nc \<mapsto> ?mg)) w4"
    using init_new_checkpoint_at [OF w3(2), of maxId] by auto
  obtain rc w5 where w5: "save_new_checkpoint ops st es w4 = (rc, w5)"
    "cp_at st (F(?l \<mapsto> lc, ?nm := None, ?nc := None, ?s := None, ?s \<mapsto> [], ?nm \<mapsto> ?mm, ?nc \<mapsto> ?mg, ?nc \<mapsto> ?cb)) w5"
    using save_new_checkpoint_at [OF w4(2) _ assms(6)] by auto
  let ?G = "F(?l \<mapsto> lc, ?nm := None, ?nc := None, ?s := None, ?s \<mapsto> [], ?nm \<mapsto> ?mm, ?nc \<mapsto> ?mg, ?nc \<mapsto> ?cb, ?ok \<mapsto> [])"
  obtain w6 where w6: "create_ok_flag st w5 = (C_OK, w6)" "cp_at st ?G w6"
    using create_ok_flag_at [OF w5(2)] by blast
  have new: "?G ?nm = Some ?mm" "?G ?nc = Some ?cb" using d by (auto simp: cp_paths_def)
  note c = child_commit_at [OF w6(2), of ?lf, OF _ _ new]
  have "?G(?l := None, ?s := None, ?ok := None, ?nm := None, ?nc := None, cp_sCpMetaFilePath st \<mapsto> ?mm, cp_sCpFilePath st \<mapsto> ?cb) =
      saved_files st F maxId (encoded_prefix ops es)"
    unfolding saved_files_def using d by (auto simp: fun_eq_iff cp_paths_def)
  moreover have "do_save_in_child ops st maxId es w = child_commit st ?lf w6"
    using w1(1) w2(1) w3(1) w4(1) w5(1) w6(1) assms(5) by (simp add: do_save_in_child_def child_prepare_def)
  ultimately show ?thesis using c by simp
qed

lemma IsLocking_at:
  assumes "cp_at st F w" "cp_sLockPath st \<notin> set (s_LockingFiles w)" "cp_sLockPath st \<notin> set (w_flocks w)"
  shows "\<exists>w'. IsLocking (cp_sLockPath st) w = (0, w') \<and> cp_at st F w' \<and> s_LockingFiles w' = s_LockingFiles w"
proof -
  let ?p = "cp_sLockPath st"
  have fl: "w_flocks (snd (sys_access ?p w)) = w_flocks w" "w_flocks (snd (sys_open ?p False False w)) = w_flocks w" for w
    by (auto simp: sys_access_def sys_open_def syscall_def split: list.splits sysev.splits option.splits)
  define w1 where "w1 = snd (sys_access ?p w)"
  have w1: "Exist ?p w = (F ?p \<noteq> None, w1)" "cp_at st F w1" "w_flocks w1 = w_flocks w" "s_LockingFiles w1 = s_LockingFiles w"
    using cp_Exist [OF assms(1), of ?p] fl by (auto simp: w1_def)
  show ?thesis
  proof (cases "F ?p")
    case None
    with w1 assms(2) show ?thesis by (auto simp: IsLocking_def is_locking_file_def simp del: Exist_def)
  next
    case (Some c)
    define w2 where "w2 = snd (sys_open ?p False False w1)"
    have w2: "Open ?p False False w1 = (Some (?p, 0), w2)" "cp_at st F w2" "w_flocks w2 = w_flocks w" "s_LockingFiles w2 = s_LockingFiles w"
      using cp_open [OF w1(2), of ?p] fl Some w1(3,4) by (auto simp: w2_def)
    define w3 where "w3 = snd (sys_getlk (Some (?p, 0)) w2)"
    have w3: "sys_getlk (Some (?p, 0)) w2 = (Some False, w3)" "s_LockingFiles w3 = s_LockingFiles w"
      using cp_atD(1) [OF w2(2)] w2(3,4) assms(3) by (simp_all add: w3_def prod_eq_iff)
    have at3: "cp_at st F w3"
      by (rule cp_at_step [OF w2(2)]) (use cp_atD [OF w2(2)] in \<open>simp_all add: w3_def\<close>)
    show ?thesis
      using w1(1) w2(1) w3 assms(2) Some cp_close [OF at3, of "Some (?p, 0)"]
      by (auto simp: IsLocking_def is_locking_file_def split_beta simp del: Exist_def Open_def)
  qed
qed

lemma do_save_in_parent_at:
  assumes "cp_at st F w" "F (cp_sLockPath st) = None" "F (cp_sNewStartFlagFilePath st) = None"
    and "F (cp_sNewCpSaveOkFilePath st) = None" "cp_meta st F i"
  shows "\<exists>w'. do_save_in_parent st w = (Inr i, w') \<and> cp_at st F w'"
proof -
  define w1 where "w1 = snd (sys_waitpid w)"
  have wp: "sys_waitpid w = (True, w1)" "quiet w w1"
    using cp_atD(1) [OF assms(1)]
    by (auto simp: w1_def quiet_def sys_waitpid_def syscall_def reliable_def wf_world_def content_def is_dir_def
        split: list.splits sysev.splits)
  have at1: "cp_at st F w1" by (rule cp_at_quiet [OF assms(1) wp(2)])
  obtain w2 where w2: "is_completed st w1 = (True, w2)" "cp_at st F w2"
    using is_completed_at [OF at1] assms(2-4) by auto
  from load_meta_at [OF w2(2) assms(5)] wp(1) w2(1) show ?thesis
    by (auto simp: do_save_in_parent.simps [of st w])
qed

lemma sys_fork_at:
  assumes "cp_at st F w"
  shows "sys_fork w = (True, snd (sys_fork w))" "quiet w (snd (sys_fork w))" "s_LockingFiles (snd (sys_fork w)) = s_LockingFiles w"
  using cp_atD(1) [OF assms]
  by (auto simp: quiet_def sys_fork_def syscall_def reliable_def wf_world_def content_def is_dir_def
      split: list.splits sysev.splits)

lemma cp_Save_at:
  assumes "cp_at st F w" "cp_bInited st" "cp_sLockPath st \<notin> set (s_LockingFiles w)" "cp_sLockPath st \<notin> set (w_flocks w)"
    and "F (cp_sNewCpSaveOkFilePath st) = None" "cp_meta st F i"
    and "maxId = MaxId t (Prepare t s)" "es = Entries t (Prepare t s)" "i < maxId" "maxId \<noteq> -1" "small_entries ops es"
  shows "\<exists>w'. cp_Save ops st t s w = (Inr maxId, CompletePrepare t (Prepare t s), w') \<and>
    cp_at st (saved_files st F maxId (encoded_prefix ops es)) w'"
proof -
  let ?G = "saved_files st F maxId (encoded_prefix ops es)"
  obtain w1 where w1: "IsLocking (cp_sLockPath st) w = (0, w1)" "cp_at st F w1" "s_LockingFiles w1 = s_LockingFiles w"
    using IsLocking_at [OF assms(1,3,4)] by blast
  define w2 where "w2 = snd (sys_fork w1)"
  have fk: "sys_fork w1 = (True, w2)" "quiet w1 w2" "s_LockingFiles w2 = s_LockingFiles w1"
    using sys_fork_at [OF w1(2)] by (simp_all add: w2_def)
  have at2: "cp_at st F w2" by (rule cp_at_quiet [OF w1(2) fk(2)])
  let ?w3 = "(do_save_in_child ops st maxId es w2)\<lparr>w_errno := w_errno w2, s_LockingFiles := s_LockingFiles w2\<rparr>"
  have "cp_at st ?G (do_save_in_child ops st maxId es w2)"
    by (rule do_save_in_child_at [OF at2 _ assms(5,6,9,11)]) (simp add: fk w1 assms(3))
  then have at3: "cp_at st ?G ?w3" by (rule cp_at_memory)
  have d: "distinct (cp_paths st)" by (rule cp_paths_distinct [OF assms(1)])
  have "maxId \<noteq> 0" using assms(9) by auto
  then have "?G (cp_sLockPath st) = None" "?G (cp_sNewStartFlagFilePath st) = None" "?G (cp_sNewCpSaveOkFilePath st) = None"
    "cp_meta st ?G maxId" using d assms(10) by (auto simp: saved_files_def cp_paths_def cp_meta_def)
  from do_save_in_parent_at [OF at3 this] w1(1) fk(1) assms(2,7,8) show ?thesis
    by (auto simp: cp_Save_def Let_def)
qed

end
