(* ===== verification/CheckpointLoad.thy ===== *)
theory CheckpointLoad
  imports CheckpointLaws
begin

text \<open>
  Load of the checkpoint: the batched reader is the parse of the whole file, and the parse inverts
  what Save writes.
\<close>

subsection \<open>The reader\<close>

definition cp_parse_one :: "'e entry_ops \<Rightarrow> u32 \<Rightarrow> bytes \<Rightarrow> (cp_code, 'e) step" where
  "cp_parse_one = entry_one 5 C_Undefined C_FileCorrupt C_DecodeEntryError (\<lambda>_ e. e)"

lemma cp_parse_one_unfold:
  "cp_parse_one ops cpOff rest =
    (if rest = [] then Done
     else if length rest < 5 then Short
     else
       let len = ReadUInt32 rest
       in if length rest < unat (9 + len) then Short
          else if length rest < unat (5 + len) + 4 then Bad C_Undefined
          else if ReadUInt32 (drop (unat (5 + len)) rest) \<noteq> cpOff then Bad C_FileCorrupt
          else if length rest < 9 + unat len \<or> 2 ^ 31 \<le> unat len then Bad C_Undefined
          else case Create ops (drop 5 rest) of
              None \<Rightarrow> Bad C_Undefined
            | Some blank \<Rightarrow>
                (case Decode ops blank (take (unat len) (drop 5 rest)) of
                   None \<Rightarrow> Bad C_DecodeEntryError
                 | Some e \<Rightarrow> Got e (9 + unat len)))"
  by (simp add: cp_parse_one_def entry_one_def Let_def cong: option.case_cong)

lemma cp_load_batch_step:
  "cp_load_batch ops ok rest cpOff ents =
    (case cp_parse_one ops cpOff rest of
       Done \<Rightarrow> (Inr ([], cpOff), ents)
     | Short \<Rightarrow> (if ok then (Inr (rest, cpOff), ents) else (Inl C_FileCorrupt, ents))
     | Bad c \<Rightarrow> (Inl c, ents)
     | Got e n \<Rightarrow> cp_load_batch ops ok (drop n rest) (cpOff + word_of_nat n) (ents @ [e]))"
proof (cases "rest = [] \<or> length rest < 5")
  case True
  then show ?thesis by (subst cp_load_batch.simps) (auto simp: cp_parse_one_unfold)
next
  case False
  then have ne: "rest \<noteq> []" "\<not> length rest < 5" by auto
  define len where "len = ReadUInt32 rest"
  show ?thesis
  proof (cases "2 ^ 31 \<le> unat len")
    case True
    with ne show ?thesis
      by (subst cp_load_batch.simps) (simp add: cp_parse_one_unfold len_def [symmetric] Let_def)
  next
    case False
    then have n9: "unat (9 + len) = 9 + unat len" using unat_plus_no_wrap [of 9 len] by simp
    then have n: "unat (9 + len) = 9 + unat len" "unat (len + 9) = 9 + unat len"
      by (simp_all add: add.commute [of len 9])
    have w: "cpOff + (len + 9) = cpOff + word_of_nat (9 + unat len)" by (simp add: add.commute)
    show ?thesis
      using ne False
      by (subst cp_load_batch.simps)
        (simp add: cp_parse_one_unfold len_def [symmetric] Let_def n w del: of_nat_add split: option.split)
  qed
qed

text \<open>The state of this reader is the batch size only.\<close>

abbreviation (input) cp_batch where
  "cp_batch ops ok rest o1 xs (s :: nat) \<equiv> (case cp_load_batch ops ok rest o1 xs of (r, ys) \<Rightarrow> (r, ys, s))"

abbreviation (input) cp_loop where
  "cp_loop ops fd left o1 bs (s :: nat) w \<equiv> (case cp_load_loop ops s fd left o1 bs w of (rc, bs, w) \<Rightarrow> (rc, bs, s, w))"

sublocale local_entries \<subseteq> cb: batch_reader "cp_parse_one ops" "\<lambda>x s. s" "\<lambda>s. s"
    "\<lambda>ok rest o1 xs s. cp_batch ops ok rest o1 xs s" "\<lambda>fd left o1 bs s w. cp_loop ops fd left o1 bs s w"
    C_OK C_FileCorrupt C_FileSystemError C_Undefined
proof (unfold_locales, goal_cases)
  case (1 o1 rest x n)
  then show ?case unfolding cp_parse_one_def by (auto dest: entry_one_Got)
next
  case (2 o1 rest)
  show ?case by (simp add: cp_parse_one_def entry_one_Done)
next
  case (3 a b o1)
  then show ?case unfolding cp_parse_one_def by (intro entry_one_append [OF local_creator]) simp_all
next
  case (4 x s)
  show ?case by simp
next
  case (5 ok rest o1 xs s)
  show ?case by (subst cp_load_batch_step) (simp split: step.split)
next
  case (6 p off left o1 bs s w)
  show ?case by (subst cp_load_loop.simps) (simp add: Let_def split: option.split prod.split sum.split)
qed

context local_entries
begin

lemma cp_load_loop_is_parse:
  assumes "reliable w" "content w p = Some c" "0 < B" "B + (length c - off) < 2 ^ 32"
  shows "\<exists>rc bs w'. cp_load_loop ops B (p, off) [] o1 [] w = (rc, bs, w') \<and>
    (case parse_all (cp_parse_one ops) C_FileCorrupt (drop off c) o1 of
       Inl e \<Rightarrow> rc = e | Inr xs \<Rightarrow> rc = C_OK \<and> concat bs = xs) \<and>
    content w' = content w \<and> is_dir w' = is_dir w \<and> reliable w' \<and> (wf_world w \<longrightarrow> wf_world w')"
  using cb.loop_is_parse [OF assms, of o1] by (auto split: prod.splits sum.splits)

end

subsection \<open>The reference parser and its round trip\<close>

definition cp_parse :: "'e entry_ops \<Rightarrow> bytes \<Rightarrow> cp_code + 'e list" where
  "cp_parse ops c =
    (if length c < 4 \<or> ReadUInt32 c \<noteq> EOCP_MAGIC_NO then Inl C_FileCorrupt
     else parse_all (cp_parse_one ops) C_FileCorrupt (drop 4 c) 4)"

lemma cp_entry_framed: "cp_entry_bytes v cnt off = framed [v] cnt off"
  by (simp add: cp_entry_bytes_def framed_def WriteUInt32_enc)

definition cp_entry_ok :: "'e entry_ops \<Rightarrow> bytes \<Rightarrow> bool" where
  "cp_entry_ok ops b = (b \<noteq> [] \<and> length b < 2 ^ 31 \<and> decode_entry ops b \<noteq> None)"

lemma cp_parse_body:
  assumes "create_local ops" "\<forall>b \<in> set bs. cp_entry_ok ops b"
  shows "parse_all (cp_parse_one ops) C_FileCorrupt (cp_body v off bs) off = Inr (map (\<lambda>b. the (decode_entry ops b)) bs)"
  using assms(2)
proof (induction bs arbitrary: off)
  case Nil
  then show ?case by (simp add: parse_all.simps [of _ _ "[]"] cp_parse_one_unfold)
next
  case (Cons b bs)
  obtain e where e: "decode_entry ops b = Some e" "b \<noteq> []" "length b < 2 ^ 31"
    using Cons.prems by (auto simp: cp_entry_ok_def)
  let ?off = "off + (word_of_nat (length b) + 9)"
  let ?rest = "cp_entry_bytes v b off @ cp_body v ?off bs"
  have one: "cp_parse_one ops off ?rest = Got e (9 + length b)"
    unfolding cp_parse_one_def cp_entry_framed
    by (subst entry_one_framed [OF assms(1) e(2,3,1)]) simp_all
  have ne: "?rest \<noteq> []" by (simp add: cp_entry_framed framed_def enc32_def)
  have dr: "drop (9 + length b) ?rest = cp_body v ?off bs" by (simp add: cp_entry_framed)
  have off: "off + word_of_nat (9 + length b) = ?off" by (simp add: add.commute)
  show ?case
    using Cons.IH [of ?off] Cons.prems e(1) ne
    by (simp add: parse_all.simps [of _ _ ?rest] one dr off del: of_nat_add drop_append)
qed

lemma cp_parse_checkpoint_bytes:
  assumes "create_local ops" "\<forall>b \<in> set bs. cp_entry_ok ops b"
  shows "cp_parse ops (checkpoint_bytes v bs) = Inr (map (\<lambda>b. the (decode_entry ops b)) bs)"
  using cp_parse_body [OF assms, of v 4] by (simp add: cp_parse_def checkpoint_bytes_def WriteUInt32_enc)

lemma cp_parse_error: "cp_parse ops c \<noteq> Inl C_OK"
proof -
  have "parse_all (cp_parse_one ops) C_FileCorrupt rest o1 \<noteq> Inl C_OK" for rest o1
  proof (induction "length rest" arbitrary: rest o1 rule: less_induct)
    case less
    show ?case
    proof (cases "cp_parse_one ops o1 rest")
      case (Got x n)
      show ?thesis
      proof (cases "0 < n \<and> rest \<noteq> []")
        case True
        then have "length (drop n rest) < length rest" by auto
        from less [OF this, of "o1 + word_of_nat n"] Got True show ?thesis
          by (cases "parse_all (cp_parse_one ops) C_FileCorrupt (drop n rest) (o1 + word_of_nat n)")
            (simp_all add: parse_all.simps [of _ _ rest])
      qed (use Got in \<open>auto simp: parse_all.simps [of _ _ rest]\<close>)
    qed (auto simp: parse_all.simps [of _ _ rest] cp_parse_one_def dest: entry_one_Bad)
  qed
  then show ?thesis by (simp add: cp_parse_def)
qed

subsection \<open>Load\<close>

lemma cp_load_file_at:
  assumes "cp_at st F w" "create_local ops" "F p = Some c" "p \<in> set (cp_paths st)"
    and "0 < cp_batchReadSize st" "unat (cp_batchReadSize st) + length c < 2 ^ 32"
  shows "\<exists>rc bs w'. cp_load_file ops st (Some (p, 0)) w = (rc, bs, w') \<and>
    (case cp_parse ops c of Inl e \<Rightarrow> rc = e | Inr es \<Rightarrow> rc = C_OK \<and> concat bs = es) \<and> cp_at st F w'"
proof -
  note at = cp_atD [OF assms(1)]
  define w2 where "w2 = snd (GetFileSize_fd (Some (p, 0)) w)"
  have at2: "cp_at st F w2" by (rule cp_at_quiet [OF assms(1)]) (simp add: w2_def)
  have sz: "GetFileSize_fd (Some (p, 0)) w = (Some (length c), w2)"
    using at(1,3) assms(3) by (simp add: w2_def prod_eq_iff)
  have c2: "content w2 p = Some c" "reliable w2" using cp_atD [OF at2] assms(3) by simp_all
  define w3 where "w3 = snd (ReadFully_V4 (Some (p, 0)) 4 w2)"
  have at3: "cp_at st F w3" by (rule cp_at_quiet [OF at2]) (simp add: w3_def c2)
  have rd: "ReadFully_V4 (Some (p, 0)) 4 w2 = ((Some (take 4 c), Some (p, min 4 (length c))), w3)"
    using c2 ReadFully_V4_done(1) [of w2 p c 0 4] by (simp add: w3_def prod_eq_iff)
  show ?thesis
  proof (cases "length c < 4 \<or> ReadUInt32 c \<noteq> EOCP_MAGIC_NO")
    case True
    have hd: "4 \<le> length c \<Longrightarrow> ReadUInt32 (zero_filled 4 (take 4 c)) = ReadUInt32 c"
      by (rule ReadUInt32_cong) (auto simp: zero_filled_def)
    have "cp_parse ops c = Inl C_FileCorrupt" using True by (simp add: cp_parse_def)
    then show ?thesis
      using True hd sz rd cp_close [OF at2, of "Some (p, 0)"] cp_close [OF at3]
      by (cases "length c < 4") (auto simp: cp_load_file_def)
  next
    case False
    have hd: "ReadUInt32 (zero_filled 4 (take 4 c)) = ReadUInt32 c"
      using False by (intro ReadUInt32_cong) (auto simp: zero_filled_def)
    have c3: "content w3 p = Some c" "reliable w3" "wf_world w3" using cp_atD [OF at3] assms(3) by simp_all
    have len: "0 < unat (cp_batchReadSize st)" "unat (cp_batchReadSize st) + (length c - 4) < 2 ^ 32"
      using assms(5,6) by (simp_all add: word_less_nat_alt)
    have pa: "cp_parse ops c = parse_all (cp_parse_one ops) C_FileCorrupt (drop 4 c) 4" using False by (simp add: cp_parse_def)
    obtain rc bs w' where lo: "cp_load_loop ops (unat (cp_batchReadSize st)) (p, 4) [] 4 [] w3 = (rc, bs, w')"
      "case cp_parse ops c of Inl e \<Rightarrow> rc = e | Inr es \<Rightarrow> rc = C_OK \<and> concat bs = es"
      "content w' = content w3" "is_dir w' = is_dir w3" "reliable w'" "wf_world w'"
      using local_entries.cp_load_loop_is_parse [OF local_entries.intro [OF assms(2)] c3(2,1) len, of 4] c3(3)
      unfolding pa by auto
    have at': "cp_at st F w'" by (rule cp_at_step [OF at3]) (use lo(3-6) cp_atD(3) [OF at3] in auto)
    have m: "min 4 (length c) = 4" using False by simp
    show ?thesis
      using False hd sz rd lo(1,2) m cp_close [OF at', of "Some (p, 4)"] by (auto simp: cp_load_file_def)
  qed
qed

lemma cp_Load_at:
  assumes "cp_at st F w" "create_local ops" "cp_bInited st" "cp_meta st F i" "i \<noteq> 0" "F (cp_sCpFilePath st) = Some c"
    and "0 < cp_batchReadSize st" "unat (cp_batchReadSize st) + length c < 2 ^ 32" "cp_parse ops c = Inr es"
  shows "\<exists>bs w'. cp_Load ops st w = (Inr i, bs, w') \<and> concat bs = es \<and> cp_at st F w'"
proof -
  let ?p = "cp_sCpFilePath st"
  obtain w1 where w1: "load_meta st w = (Inr i, w1)" "cp_at st F w1" using load_meta_at [OF assms(1,4)] by blast
  obtain w2 where w2: "Exist ?p w1 = (True, w2)" "cp_at st F w2" using cp_Exist [OF w1(2), of ?p] assms(6) by auto
  obtain w3 where w3: "Open ?p False False w2 = (Some (?p, 0), w3)" "cp_at st F w3" using cp_open [OF w2(2), of ?p] assms(6) by auto
  obtain bs w4 where w4: "cp_load_file ops st (Some (?p, 0)) w3 = (C_OK, bs, w4)" "concat bs = es" "cp_at st F w4"
    using cp_load_file_at [OF w3(2) assms(2,6) cp_paths_mem(1) assms(7,8)] assms(9) by auto
  from w1(1) w2(1) w3(1) w4 assms(3,5) show ?thesis
    by (auto simp: cp_Load_def simp del: Exist_def Open_def)
qed

lemma cp_Load_none:
  assumes "cp_at st F w" "cp_bInited st" "cp_meta st F 0"
  shows "\<exists>w'. cp_Load ops st w = (Inr 0, [], w') \<and> cp_at st F w'"
  using load_meta_at [OF assms(1,3)] assms(2) by (auto simp: cp_Load_def)

end
