(* ===== verification/Touch.thy ===== *)
theory Touch
  imports FileLaws
begin

text \<open>
  Frames that hold under every schedule, failures included: which paths an operation may write and
  which it may only remove. A crash is a schedule that fails from some call on, so a frame tells what
  a process that dies half-way can have changed.
\<close>

definition touches :: "path set \<Rightarrow> path set \<Rightarrow> world \<Rightarrow> world \<Rightarrow> bool" where
  "touches P D w w' =
    ((\<forall>p. p \<notin> P \<longrightarrow> content w' p = content w p \<or> p \<in> D \<and> content w' p = None) \<and>
     is_dir w' = is_dir w \<and> (wf_world w \<longrightarrow> wf_world w'))"

definition fd_path :: "fd \<Rightarrow> path set" where
  "fd_path fd = (case fd of None \<Rightarrow> {} | Some (p, _) \<Rightarrow> {p})"

lemma fd_path_simps [simp]: "fd_path None = {}" "fd_path (Some (p, n)) = {p}"
  by (simp_all add: fd_path_def)

named_theorems touch

lemma touches_refl [touch, simp]: "touches P D w w"
  by (simp add: touches_def)

lemma touches_trans [trans]: "touches P D w w' \<Longrightarrow> touches P D w' w'' \<Longrightarrow> touches P D w w''"
  by (simp add: touches_def) metis

lemma touches_mono: "touches P D w w' \<Longrightarrow> P \<subseteq> P' \<Longrightarrow> D \<subseteq> D' \<Longrightarrow> touches P' D' w w'"
  unfolding touches_def by blast

lemma touches_quiet: "content w' = content w \<Longrightarrow> is_dir w' = is_dir w \<Longrightarrow> (wf_world w \<Longrightarrow> wf_world w') \<Longrightarrow> touches P D w w'"
  by (simp add: touches_def)

lemma touches_file: "touches P D w w' \<Longrightarrow> p \<notin> P \<Longrightarrow> p \<notin> D \<Longrightarrow> content w' p = content w p"
  unfolding touches_def by blast

lemma touches_missing: "touches P D w w' \<Longrightarrow> p \<notin> P \<Longrightarrow> content w p = None \<Longrightarrow> content w' p = None"
  unfolding touches_def by metis

lemma touches_world: "touches P D w w' \<Longrightarrow> is_dir w' = is_dir w" "touches P D w w' \<Longrightarrow> wf_world w \<Longrightarrow> wf_world w'"
  unfolding touches_def by blast+

lemma touches_sys [touch]:
  "touches P D w (snd (sys_access p w))" "touches P D w (snd (sys_lseek fd i w))"
  "touches P D w (snd (sys_close fd w))" "touches P D w (snd (sys_fdatasync fd w))"
  "touches P D w (snd (sys_setlkw fd w))" "touches P D w (snd (ReadAllString p w))"
  by (rule touches_quiet; simp)+

lemma touches_memory [touch]:
  "touches P D w (w\<lparr>w_errno := e\<rparr>)" "touches P D w (w\<lparr>s_LockingFiles := l\<rparr>)" "touches P D w (set_errno e w)"
  by (rule touches_quiet; simp)+

text \<open>The frame of two steps in sequence, and of a branch.\<close>

lemma touches_bind:
  "touches P D w (snd r) \<Longrightarrow> (\<And>a w'. r = (a, w') \<Longrightarrow> touches P D w' (snd (f a w'))) \<Longrightarrow>
   touches P D w (snd (case r of (a, w') \<Rightarrow> f a w'))"
  by (cases r) (auto intro: touches_trans)

lemma touches_if:
  "(b \<Longrightarrow> touches P D w (snd x)) \<Longrightarrow> (\<not> b \<Longrightarrow> touches P D w (snd y)) \<Longrightarrow> touches P D w (snd (if b then x else y))"
  by simp

lemma touches_bool:
  "(b \<Longrightarrow> touches P D w (snd x)) \<Longrightarrow> (\<not> b \<Longrightarrow> touches P D w (snd y)) \<Longrightarrow>
   touches P D w (snd (case b of True \<Rightarrow> x | False \<Rightarrow> y))"
  by (cases b) simp_all

lemma touches_sum:
  "(\<And>e. r = Inl e \<Longrightarrow> touches P D w (snd (f e))) \<Longrightarrow> (\<And>a. r = Inr a \<Longrightarrow> touches P D w (snd (g a))) \<Longrightarrow>
   touches P D w (snd (case r of Inl e \<Rightarrow> f e | Inr a \<Rightarrow> g a))"
  by (cases r) simp_all

lemma touches_option:
  "(r = None \<Longrightarrow> touches P D w (snd x)) \<Longrightarrow> (\<And>a. r = Some a \<Longrightarrow> touches P D w (snd (g a))) \<Longrightarrow>
   touches P D w (snd (case r of None \<Rightarrow> x | Some a \<Rightarrow> g a))"
  by (cases r) simp_all

lemma touches_pair:
  "(\<And>x y. a = (x, y) \<Longrightarrow> touches P D w (snd (f x y w'))) \<Longrightarrow> touches P D w (snd ((case a of (x, y) \<Rightarrow> f x y) w'))"
  by (cases a) simp

lemma touches_ret: "touches P D w w' \<Longrightarrow> touches P D w (snd (x, w'))"
  by simp

lemmas touches_seq = touches_bind touches_if touches_bool touches_sum touches_option touches_pair touches_ret

lemma touches_syscall:
  assumes "\<And>ev w. touches P D w (snd (body ev w))"
  shows "touches P D w (snd (syscall f body w))"
proof -
  have "touches P D w (w\<lparr>w_sched := s\<rparr>)" "touches P D w (w\<lparr>w_sched := s, w_errno := e\<rparr>)" for s e
    by (rule touches_quiet; simp)+
  with assms touches_trans show ?thesis by (auto simp: syscall_def split: list.splits sysev.splits) blast+
qed

lemma touches_set_file: "p \<in> P \<Longrightarrow> \<not> is_dir w p \<Longrightarrow> touches P D w (set_file p c w)"
  by (auto simp: touches_def wf_world_set_file)

lemma touches_del_file: "p \<in> P \<or> p \<in> D \<Longrightarrow> touches P D w (del_file p w)"
  by (auto simp: touches_def wf_world_del_file)

lemma touches_overwrite:
  "p \<in> P \<Longrightarrow> content w p = Some b \<Longrightarrow> touches P D w (set_file p c w)"
  by (auto simp: touches_def wf_world_set_file wf_world_content)

lemma touches_open [touch]: "p \<in> P \<Longrightarrow> touches P D w (snd (sys_open p c t w))"
  unfolding sys_open_def
  by (rule touches_syscall) (simp add: touches_set_file touches_memory split: option.split)

lemma touches_open_existing [touch]: "touches P D w (snd (sys_open p False False w))"
  unfolding sys_open_def
  by (rule touches_syscall) (simp add: touches_memory split: option.split)

lemma touches_unlink [touch]: "p \<in> P \<union> D \<Longrightarrow> touches P D w (snd (sys_unlink p w))"
  unfolding sys_unlink_def
  by (rule touches_syscall) (simp add: touches_del_file touches_memory split: option.split)

lemma touches_rename [touch]:
  assumes "p \<in> P \<union> D" "q \<in> P"
  shows "touches P D w (snd (sys_rename p q w))"
proof -
  have "touches P D w (set_file q c (del_file p w))" if "\<not> is_dir w q" for c w
    by (rule touches_trans [OF touches_del_file touches_set_file]) (use assms that in auto)
  then show ?thesis
    unfolding sys_rename_def by (intro touches_syscall) (simp add: touches_memory split: option.split)
qed

lemma touches_write [touch]: "fd_path fd \<subseteq> P \<Longrightarrow> touches P D w (snd (sys_write fd bs w))"
  unfolding sys_write_def
  by (rule touches_syscall)
    (auto simp: touches_memory Let_def fd_path_def intro: touches_overwrite split: option.splits)

lemma fd_path_ops [simp]:
  "fd_path (snd (fst (sys_write fd bs w))) = fd_path fd"
  "fd_path (snd (fst (sys_lseek fd i w))) = fd_path fd"
  by (auto simp: sys_write_def sys_lseek_def syscall_def Let_def split: list.splits sysev.splits option.splits)

lemma fd_path_open: "fd_path (fst (sys_open p c t w)) \<subseteq> {p}"
  by (auto simp: sys_open_def syscall_def split: list.splits sysev.splits option.splits)

lemma touches_Unlink [touch]: "p \<in> P \<union> D \<Longrightarrow> touches P D w (snd (Unlink p w))"
  using touches_trans [OF touches_sys(1) touches_unlink]
  by (auto simp: Unlink_def touches_sys(1) split_beta split: bool.split)

lemma WriteFully_loop_touches:
  "fd_path fd \<subseteq> P \<Longrightarrow> touches P D w (snd (WriteFully_loop fd bs w)) \<and> fd_path (snd (fst (WriteFully_loop fd bs w))) = fd_path fd"
proof (induction fd bs w rule: WriteFully_loop.induct)
  case (1 fd bs w)
  obtain r fd' w' where wr: "sys_write fd bs w = ((r, fd'), w')" by (metis prod.exhaust)
  have "touches P D w w'" "fd_path fd' = fd_path fd"
    using touches_write [OF 1(2), of D w bs] fd_path_ops(1) [of fd bs w] wr by simp_all
  note step = this
  show ?case
  proof (cases "bs = [] \<or> r = None")
    case True
    then show ?thesis
      by (cases "bs = []") (simp_all add: WriteFully_loop.simps [of fd bs w] WriteFully_loop.simps [of fd "[]" w] wr step)
  next
    case False
    then obtain n where "r = Some n" by blast
    with 1(1) [OF _ wr [symmetric] refl] 1(2) False step(2)
    have IH: "touches P D w' (snd (WriteFully_loop fd' (drop n bs) w'))"
      "fd_path (snd (fst (WriteFully_loop fd' (drop n bs) w'))) = fd_path fd" by simp_all
    have "WriteFully_loop fd bs w = WriteFully_loop fd' (drop n bs) w'"
      using False by (simp add: WriteFully_loop.simps [of fd bs w] wr \<open>r = Some n\<close>)
    with touches_trans [OF step(1) IH(1)] IH(2) show ?thesis by simp
  qed
qed

lemma WriteFully_touches [touch]:
  "fd_path fd \<subseteq> P \<Longrightarrow> touches P D w (snd (WriteFully fd bs w))"
  "fd_path (snd (fst (WriteFully fd bs w))) = fd_path fd"
  using WriteFully_loop_touches [of fd P D w bs] WriteFully_loop_touches [of fd "fd_path fd" D w bs]
  by (simp_all add: WriteFully_def split_beta split: bool.split)

text \<open>A path that is missing is not found, whatever the schedule.\<close>

lemma Exist_missing: "content w p = None \<Longrightarrow> \<not> is_dir w p \<Longrightarrow> \<not> fst (Exist p w)"
  by (auto simp: Exist_def sys_access_def syscall_def split: list.splits sysev.splits)

subsection \<open>Reboot\<close>

text \<open>
  The world a new process finds after a crash: the files stay, the memory and the locks of the dead
  processes go; \<open>sch\<close> is the schedule of the new process.
\<close>

definition reboot :: "sysev list \<Rightarrow> world \<Rightarrow> world" where
  "reboot sch w = w\<lparr>w_sched := sch, w_errno := ENONE, s_LockingFiles := [], w_flocks := []\<rparr>"

lemma reboot_frame [simp]:
  "content (reboot sch w) = content w" "is_dir (reboot sch w) = is_dir w" "wf_world (reboot sch w) = wf_world w"
  "reliable (reboot sch w) = (\<forall>e. SysFail e \<notin> set sch)"
  by (simp_all add: reboot_def wf_world_def reliable_def)

end
