(* ===== verification/CheckpointCrash.thy ===== *)
theory CheckpointCrash
  imports CheckpointLoad Touch
begin

text \<open>
  What the child of a Save can have changed when it dies: up to the creation of the ok flag it only
  touches the lock file, the start flag and the new files, under every schedule.
\<close>

abbreviation (input) cp_scratch :: "EntryOrderCheckpoint \<Rightarrow> path set" where
  "cp_scratch st \<equiv> {cp_sLockPath st, cp_sNewStartFlagFilePath st, cp_sNewCpMetaFilePath st, cp_sNewCpFilePath st}"

abbreviation (input) cp_touches :: "EntryOrderCheckpoint \<Rightarrow> world \<Rightarrow> world \<Rightarrow> bool" where
  "cp_touches st \<equiv> touches (cp_scratch st) {cp_sNewCpSaveOkFilePath st}"

lemma touches_LockPath:
  assumes "p \<in> P"
  shows "touches P D w (snd (LockPath p w))"
proof -
  have "touches P D w (insert_locking p w)" for w :: world
    by (simp add: insert_locking_def touches_memory)
  with assms show ?thesis
    by (auto simp: LockPath_def Open_def split_beta Let_def touches_open
        intro: touches_trans [OF touches_open touches_trans [OF touches_sys(5)]] touch split: option.split bool.split)
qed

lemma LockPath_path: "fst (fst (LockPath p w)) \<noteq> None \<Longrightarrow> snd (fst (LockPath p w)) = p"
  by (cases "is_locking_file p w") (auto simp: LockPath_def Let_def split: prod.splits option.splits bool.splits)

lemma touches_unlink_all: "set ps \<subseteq> P \<union> D \<Longrightarrow> touches P D w (snd (unlink_all ps w))"
  by (induction ps arbitrary: w) (auto intro!: touches_seq touch simp del: Unlink_def)


lemma touches_code:
  "(r = C_OK \<Longrightarrow> touches P D w (snd x)) \<Longrightarrow> (r \<noteq> C_OK \<Longrightarrow> touches P D w (snd y)) \<Longrightarrow>
   touches P D w (snd (case r of C_OK \<Rightarrow> x | _ \<Rightarrow> y))"
  by (cases r) simp_all

lemma cp_code_if: "(case r of C_OK \<Rightarrow> x | _ \<Rightarrow> y) = (if r = C_OK then x else y)"
  by (cases r) simp_all

lemma touches_Exist: "touches P D w (snd (Exist p w))"
  by (simp add: touches_sys)

lemma touches_is_completed: "touches P D w (snd (is_completed st w))"
  unfolding is_completed_def Let_def by (intro touches_seq touches_Exist) (simp_all add: touch)

lemma touches_load_meta: "touches P D w (snd (load_meta st w))"
  unfolding load_meta_def Let_def by (intro touches_seq touches_Exist touch) (simp_all add: touch split_beta)

lemma touches_CloseFile: "touches P D w (snd (CloseFile f w))"
  unfolding CloseFile_def Let_def
  by (intro touches_seq touch) (simp add: remove_locking_file_if_exist_def touch)

lemma check_and_recover_touches:
  assumes "content w (cp_sNewCpSaveOkFilePath st) = None" "\<not> is_dir w (cp_sNewCpSaveOkFilePath st)"
  shows "cp_touches st w (snd (check_and_recover st w))"
proof -
  let ?ok = "cp_sNewCpSaveOkFilePath st"
  obtain d w1 okf w2 where r: "is_completed st w = (d, w1)" "Exist ?ok w1 = (okf, w2)" by fastforce
  have t: "touches P D w w1" "touches P D w1 w2" for P D
    using touches_is_completed [of P D w st] touches_Exist [of P D w1 ?ok] r by simp_all
  have "content w1 ?ok = None" "\<not> is_dir w1 ?ok"
    using t(1) [of "{}" "{}"] assms by (auto simp: touches_def)
  with Exist_missing [of w1 ?ok] r(2) have "\<not> okf" by simp
  moreover have "cp_touches st w2 (snd (clean_new_cp_tmp st w2))"
    unfolding clean_new_cp_tmp_def by (rule touches_unlink_all) simp
  ultimately show ?thesis
    using r t touches_trans [OF touches_trans [OF t]] by (simp add: check_and_recover_def)
qed

lemma create_new_meta_file_touches: "cp_touches st w (snd (create_new_meta_file st i w))"
  unfolding create_new_meta_file_def Let_def Open_def
proof (intro touches_bind touches_if touches_open)
  fix fd w1
  assume "sys_open (cp_sNewCpMetaFilePath st) True True w = (fd, w1)"
  then have "fd_path fd \<subseteq> cp_scratch st" using fd_path_open [of "cp_sNewCpMetaFilePath st" True True w] by auto
  then show "cp_touches st w1 (snd (WriteFully fd bs w1))" for bs by (rule WriteFully_touches)
qed (auto simp: touch)

lemma create_new_checkpoint_file_touches: "cp_touches st w (snd (create_new_checkpoint_file st w))"
  unfolding create_new_checkpoint_file_def Let_def Open_def
proof (intro touches_bind touches_if touches_open)
  fix fd w1
  assume "sys_open (cp_sNewCpFilePath st) True True w = (fd, w1)"
  then have "fd_path fd \<subseteq> cp_scratch st" using fd_path_open [of "cp_sNewCpFilePath st" True True w] by auto
  then show "cp_touches st w1 (snd (WriteFully fd bs w1))" for bs by (rule WriteFully_touches)
qed (auto simp: touch)

lemma init_new_checkpoint_touches: "cp_touches st w (snd (init_new_checkpoint st i w))"
proof -
  let ?o = "sys_open (cp_sNewStartFlagFilePath st) True False w"
  define w1 where "w1 = snd (sys_close (fst ?o) (snd ?o))"
  define r where "r = create_new_meta_file st i w1"
  have t0: "cp_touches st w (snd ?o)" by (rule touches_open) simp
  have t1: "cp_touches st w w1" unfolding w1_def by (rule touches_trans [OF t0 touches_sys(3)])
  have t2: "cp_touches st w (snd r)"
    unfolding r_def by (rule touches_trans [OF t1 create_new_meta_file_touches])
  have t3: "cp_touches st w (snd (create_new_checkpoint_file st (snd r)))"
    by (rule touches_trans [OF t2 create_new_checkpoint_file_touches])
  have "init_new_checkpoint st i w =
      (if fst ?o = None then (C_FileSystemError, snd ?o)
       else if fst r = C_OK then create_new_checkpoint_file st (snd r) else r)"
    by (cases r; cases "fst r") (simp_all add: init_new_checkpoint_def r_def w1_def split_beta Let_def)
  with t0 t2 t3 show ?thesis by simp
qed

lemma save_loop_touches:
  "fd_path fd \<subseteq> P \<Longrightarrow> touches P D w (snd (snd (save_loop ops v off es fd w)))"
proof (induction es arbitrary: off fd w)
  case Nil
  then show ?case by (simp add: split_beta touch split: bool.split)
next
  case (Cons e es)
  show ?case
  proof (cases "Encode ops e")
    case None
    then show ?thesis by (simp add: touch)
  next
    case (Some b)
    let ?r = "WriteFully fd (cp_entry_bytes v b off) w"
    have "fd_path (snd (fst ?r)) \<subseteq> P" using Cons.prems WriteFully_touches(2) by auto
    with Some touches_trans [OF WriteFully_touches(1) [OF Cons.prems] Cons.IH] WriteFully_touches(1) [OF Cons.prems]
    show ?thesis by (simp add: split_beta Let_def touch)
  qed
qed

lemma save_new_checkpoint_touches: "cp_touches st w (snd (save_new_checkpoint ops st es w))"
proof -
  let ?o = "sys_open (cp_sNewCpFilePath st) False False w"
  let ?l = "sys_lseek (fst ?o) (int EOCP_MAGIC_NO_LEN) (snd ?o)"
  let ?s = "save_loop ops (cp_writeEntryVersion st) 4 es (snd (fst ?l)) (snd ?l)"
  have t0: "cp_touches st w (snd ?o)" by (rule touches_open) simp
  have t1: "cp_touches st w (snd ?l)" by (rule touches_trans [OF t0 touches_sys(2)])
  have "fd_path (snd (fst ?l)) \<subseteq> cp_scratch st"
    using fd_path_open [of "cp_sNewCpFilePath st" False False w] by auto
  then have t2: "cp_touches st w (snd (snd ?s))" by (rule touches_trans [OF t1 save_loop_touches])
  from touches_trans [OF t1 touches_sys(3)] touches_trans [OF t2 touches_sys(3)] show ?thesis
    by (simp add: save_new_checkpoint_def split_beta Let_def)
qed

lemma child_prepare_touches:
  assumes "content w (cp_sNewCpSaveOkFilePath st) = None" "\<not> is_dir w (cp_sNewCpSaveOkFilePath st)"
    and "cp_wf st"
  shows "cp_touches st w (snd (child_prepare ops st maxId es w))"
proof -
  let ?L = "LockPath (cp_sLockPath st) w" and ?ok = "cp_sNewCpSaveOkFilePath st"
  define m where "m = load_meta st (snd ?L)"
  define r where "r = check_and_recover st (snd m)"
  define i where "i = init_new_checkpoint st maxId (snd r)"
  have t1: "cp_touches st w (snd ?L)" by (rule touches_LockPath) simp
  have t2: "cp_touches st w (snd m)" unfolding m_def by (rule touches_trans [OF t1 touches_load_meta])
  have "?ok \<notin> cp_scratch st" using assms(3) by (auto simp: cp_wf_def cp_paths_def)
  then have "content (snd m) ?ok = None" "\<not> is_dir (snd m) ?ok"
    using touches_missing [OF t2 _ assms(1)] touches_world(1) [OF t2] assms(2) by simp_all
  then have t3: "cp_touches st w (snd r)"
    unfolding r_def by (rule touches_trans [OF t2 check_and_recover_touches])
  have t4: "cp_touches st w (snd i)" unfolding i_def by (rule touches_trans [OF t3 init_new_checkpoint_touches])
  have t5: "cp_touches st w (snd (save_new_checkpoint ops st es (snd i)))"
    by (rule touches_trans [OF t4 save_new_checkpoint_touches])
  let ?c = "CloseFile (fst ?L) (snd m)"
  have t6: "cp_touches st w (snd ?c)" by (rule touches_trans [OF t2 touches_CloseFile])
  have t7: "cp_touches st w (snd (Unlink (cp_sLockPath st) (snd ?c)))" by (rule touches_trans [OF t6 touches_Unlink]) simp
  have "child_prepare ops st maxId es w =
      (if fst (fst ?L) = None then (None, snd ?L)
       else case fst m of Inl _ \<Rightarrow> (None, snd m)
       | Inr e \<Rightarrow> if maxId \<le> e then (None, if fst ?c then snd (Unlink (snd (fst ?L)) (snd ?c)) else snd ?c)
                 else if fst r \<noteq> C_OK then (None, snd r)
                 else if fst i \<noteq> C_OK then (None, snd i)
                 else (Some (fst ?L), snd (save_new_checkpoint ops st es (snd i))))"
    by (simp add: cp_code_if child_prepare_def m_def r_def i_def split_beta Let_def split: sum.split bool.split)
  with t1 t2 t3 t4 t5 t6 t7 LockPath_path [of "cp_sLockPath st" w] show ?thesis by (simp split: sum.split)
qed

end
