(* ===== verification/CheckpointProps.thy ===== *)
theory CheckpointProps
  imports CheckpointCrash
begin

text \<open>
  What a Save means for the next start: the properties of the checkpoint, with their witnesses.
\<close>

definition cp_restart ::
    "'e entry_ops \<Rightarrow> EntryOrderCheckpointConfig \<Rightarrow> world \<Rightarrow> (cp_code + u64) \<times> 'e list list \<times> world" where
  "cp_restart ops pc w =
    (case cp_Init (EntryOrderCheckpoint_ctor pc) w of
       (rc, st, w) \<Rightarrow> if rc = C_OK then cp_Load ops st w else (Inl rc, [], w))"

text \<open>The object after its start.\<close>

abbreviation (input) cp_object :: "EntryOrderCheckpointConfig \<Rightarrow> EntryOrderCheckpoint" where
  "cp_object pc \<equiv> (EntryOrderCheckpoint_ctor pc)\<lparr>cp_bInited := True\<rparr>"

definition cp_good :: "'e entry_ops \<Rightarrow> 'e \<Rightarrow> bool" where
  "cp_good ops e =
    (case Encode ops e of None \<Rightarrow> False | Some b \<Rightarrow> b \<noteq> [] \<and> length b < 2 ^ 31 \<and> decode_entry ops b = Some e)"

text \<open>Sizes of the configuration: a positive batch, and the file and a batch fit 32 bits.\<close>

definition cp_fits :: "EntryOrderCheckpointConfig \<Rightarrow> bytes \<Rightarrow> bool" where
  "cp_fits pc c = (0 < cpc_BatchReadSize pc \<and> unat (cpc_BatchReadSize pc) + length c < 2 ^ 32)"

text \<open>No Save is running: no process holds the lock, no ok flag is left over.\<close>

definition cp_idle :: "EntryOrderCheckpointConfig \<Rightarrow> (path \<rightharpoonup> bytes) \<Rightarrow> world \<Rightarrow> bool" where
  "cp_idle pc F w =
    (cp_sLockPath (cp_object pc) \<notin> set (s_LockingFiles w) \<and> cp_sLockPath (cp_object pc) \<notin> set (w_flocks w) \<and>
     F (cp_sNewCpSaveOkFilePath (cp_object pc)) = None)"

lemma cp_at_inited [simp]: "cp_at (st\<lparr>cp_bInited := b\<rparr>) F w = cp_at st F w"
  by (simp add: cp_at_def cp_wf_def cp_paths_def)

lemma cp_paths_inited [simp]: "cp_paths (st\<lparr>cp_bInited := b\<rparr>) = cp_paths st"
  by (simp add: cp_paths_def)

lemma cp_object_fields [simp]:
  "cp_batchReadSize (EntryOrderCheckpoint_ctor pc) = cpc_BatchReadSize pc"
  "cp_writeEntryVersion (EntryOrderCheckpoint_ctor pc) = cpc_WriteEntryVersion pc"
  "cp_sRootDir (EntryOrderCheckpoint_ctor pc) = cpc_RootDirPath pc"
  by (simp_all add: EntryOrderCheckpoint_ctor_def Let_def)

lemma cp_meta_inited [simp]: "cp_meta (st\<lparr>cp_bInited := b\<rparr>) F i = cp_meta st F i"
  by (simp add: cp_meta_def)

lemma saved_files_inited [simp]: "saved_files (st\<lparr>cp_bInited := b\<rparr>) F i bs = saved_files st F i bs"
  by (simp add: saved_files_def)

lemma CreateDirPath_at:
  assumes "cp_at st F w"
  shows "\<exists>w'. CreateDirPath (cp_sRootDir st) w = (True, w') \<and> cp_at st F w'"
proof -
  note at = cp_atD [OF assms]
  note c = CreateDirPath_ready [OF at(1,4)]
  have "cp_at st F (snd (CreateDirPath (cp_sRootDir st) w))" by (rule cp_at_step [OF assms]) (use c at in auto)
  with c(1) show ?thesis by (intro exI [of _ "snd (CreateDirPath (cp_sRootDir st) w)"]) (simp add: prod_eq_iff)
qed

lemma cp_Init_at:
  assumes "cp_at st F w" "\<And>w. cp_at st F w \<Longrightarrow> \<exists>w'. check_and_recover st w = (rc, w') \<and> cp_at st G w'"
  shows "\<exists>w'. cp_Init st w = (rc, st\<lparr>cp_bInited := True\<rparr>, w') \<and> cp_at st G w'"
  using CreateDirPath_at [OF assms(1)] assms(2) by (fastforce simp: cp_Init_def)

lemma check_and_recover_completed:
  assumes "cp_at st F w" "F (cp_sLockPath st) = None" "F (cp_sNewStartFlagFilePath st) = None" "F (cp_sNewCpSaveOkFilePath st) = None"
  shows "\<exists>w'. check_and_recover st w = (C_OK, w') \<and> cp_at st F w'"
  using is_completed_at [OF assms(1)] assms(2-4) by (auto simp: check_and_recover_def)

lemma check_and_recover_commit:
  assumes "cp_at st F w" "F (cp_sNewCpSaveOkFilePath st) \<noteq> None"
    and "F (cp_sNewCpMetaFilePath st) = Some mm" "F (cp_sNewCpFilePath st) = Some c"
  shows "\<exists>w'. check_and_recover st w = (C_OK, w') \<and>
    cp_at st (F(cp_sNewCpMetaFilePath st := None, cp_sNewCpFilePath st := None,
      cp_sCpMetaFilePath st \<mapsto> mm, cp_sCpFilePath st \<mapsto> c, cp_sNewCpSaveOkFilePath st := None)) w'"
proof -
  let ?ok = "cp_sNewCpSaveOkFilePath st"
  have d: "distinct (cp_paths st)" by (rule cp_paths_distinct [OF assms(1)])
  obtain w1 where w1: "is_completed st w = (False, w1)" "cp_at st F w1" using is_completed_at [OF assms(1)] assms(2) by auto
  obtain w2 where w2: "Exist ?ok w1 = (True, w2)" "cp_at st F w2" using cp_Exist [OF w1(2), of ?ok] assms(2) by auto
  let ?G = "F(cp_sNewCpMetaFilePath st := None, cp_sNewCpFilePath st := None, cp_sCpMetaFilePath st \<mapsto> mm, cp_sCpFilePath st \<mapsto> c)"
  obtain w3 where w3: "replace_old_checkpoint st w2 = (C_OK, w3)" "cp_at st ?G w3"
    using replace_old_checkpoint_at [OF w2(2) assms(3,4)] by blast
  have "?G ?ok \<noteq> None" using assms(2) d by (auto simp: cp_paths_def)
  then obtain w4 where w4: "sys_unlink ?ok w3 = (True, w4)" "cp_at st (?G(?ok := None)) w4"
    using cp_sys_unlink [OF w3(2), of ?ok] by auto
  from w1(1) w2(1) w3(1) w4 show ?thesis by (auto simp: check_and_recover_def simp del: Exist_def)
qed

lemma check_and_recover_broken:
  assumes "cp_at st F w" "F (cp_sNewCpSaveOkFilePath st) \<noteq> None" "F (cp_sNewCpMetaFilePath st) = None"
  shows "\<exists>w'. check_and_recover st w = (C_FileSystemError, w') \<and>
    cp_at st (F(cp_sCpMetaFilePath st := None, cp_sCpFilePath st := None)) w'"
proof -
  let ?ok = "cp_sNewCpSaveOkFilePath st"
  obtain w1 where w1: "is_completed st w = (False, w1)" "cp_at st F w1" using is_completed_at [OF assms(1)] assms(2) by auto
  obtain w2 where w2: "Exist ?ok w1 = (True, w2)" "cp_at st F w2" using cp_Exist [OF w1(2), of ?ok] assms(2) by auto
  from replace_old_checkpoint_broken [OF w2(2) assms(3)] w1(1) w2(1) show ?thesis
    by (auto simp: check_and_recover_def simp del: Exist_def)
qed

lemma cp_restart_at:
  assumes "cp_at (EntryOrderCheckpoint_ctor pc) F w" "create_local ops"
    and "\<And>w. cp_at (EntryOrderCheckpoint_ctor pc) F w \<Longrightarrow>
      \<exists>w'. check_and_recover (EntryOrderCheckpoint_ctor pc) w = (C_OK, w') \<and> cp_at (EntryOrderCheckpoint_ctor pc) G w'"
    and "cp_meta (EntryOrderCheckpoint_ctor pc) G i"
    and "i \<noteq> 0 \<Longrightarrow> \<exists>c. G (cp_sCpFilePath (EntryOrderCheckpoint_ctor pc)) = Some c \<and> cp_fits pc c \<and> cp_parse ops c = Inr es"
    and "i = 0 \<Longrightarrow> es = []"
  shows "\<exists>bs w'. cp_restart ops pc w = (Inr i, bs, w') \<and> concat bs = es"
proof -
  let ?st = "EntryOrderCheckpoint_ctor pc"
  obtain w1 where w1: "cp_Init ?st w = (C_OK, cp_object pc, w1)" "cp_at ?st G w1"
    using cp_Init_at [OF assms(1,3)] by blast
  show ?thesis
  proof (cases "i = 0")
    case True
    with cp_Load_none [of "cp_object pc" G w1 ops] w1 assms(4,6) show ?thesis by (auto simp: cp_restart_def)
  next
    case False
    with assms(5) obtain c where c: "G (cp_sCpFilePath ?st) = Some c" "cp_fits pc c" "cp_parse ops c = Inr es" by blast
    have "\<exists>bs w'. cp_Load ops (cp_object pc) w1 = (Inr i, bs, w') \<and> concat bs = es"
      using cp_Load_at [of "cp_object pc" G w1 ops i c es] w1(2) assms(2,4) False c by (auto simp: cp_fits_def)
    with w1(1) show ?thesis by (auto simp: cp_restart_def)
  qed
qed

lemma saved_files_meta:
  assumes "cp_wf st" "i \<noteq> 0" "i \<noteq> -1"
  shows "cp_meta st (saved_files st F i bs) i"
    "saved_files st F i bs (cp_sCpFilePath st) = Some (checkpoint_bytes (cp_writeEntryVersion st) bs)"
    "saved_files st F i bs (cp_sLockPath st) = None" "saved_files st F i bs (cp_sNewStartFlagFilePath st) = None"
    "saved_files st F i bs (cp_sNewCpSaveOkFilePath st) = None"
  using assms by (auto simp: cp_meta_def saved_files_def cp_wf_def cp_paths_def)

lemma Save_restart_prefix:
  assumes "create_local ops" "cp_at (EntryOrderCheckpoint_ctor pc) F w" "cp_idle pc F w"
    and "cp_meta (EntryOrderCheckpoint_ctor pc) F i" "i < MaxId t (Prepare t s)" "MaxId t (Prepare t s) \<noteq> -1"
    and "small_entries ops (Entries t (Prepare t s))" "bs = encoded_prefix ops (Entries t (Prepare t s))"
    and "\<forall>b \<in> set bs. cp_entry_ok ops b" "cp_fits pc (checkpoint_bytes (cpc_WriteEntryVersion pc) bs)"
  shows "\<exists>w1 ls w2. cp_Save ops (cp_object pc) t s w = (Inr (MaxId t (Prepare t s)), CompletePrepare t (Prepare t s), w1) \<and>
    cp_restart ops pc w1 = (Inr (MaxId t (Prepare t s)), ls, w2) \<and> concat ls = map (\<lambda>b. the (decode_entry ops b)) bs"
proof -
  let ?st = "EntryOrderCheckpoint_ctor pc" and ?m = "MaxId t (Prepare t s)"
  let ?G = "saved_files ?st F ?m bs"
  have idle: "cp_sLockPath ?st \<notin> set (s_LockingFiles w)" "cp_sLockPath ?st \<notin> set (w_flocks w)"
    "F (cp_sNewCpSaveOkFilePath ?st) = None" using assms(3) by (simp_all add: cp_idle_def)
  obtain w1 where w1: "cp_Save ops (cp_object pc) t s w = (Inr ?m, CompletePrepare t (Prepare t s), w1)" "cp_at ?st ?G w1"
    using cp_Save_at [of "cp_object pc" F w i ?m t s "Entries t (Prepare t s)" ops] assms idle
    by auto
  have nz: "?m \<noteq> 0" using assms(5) by auto
  note G = saved_files_meta [OF ctor_wf nz assms(6)]
  have "\<exists>ls w2. cp_restart ops pc w1 = (Inr ?m, ls, w2) \<and> concat ls = map (\<lambda>b. the (decode_entry ops b)) bs"
    by (rule cp_restart_at [OF w1(2) assms(1) check_and_recover_completed [OF _ G(3-5)] G(1)])
      (use G(2) nz assms(10) cp_parse_checkpoint_bytes [OF assms(1,9)] in auto)
  with w1(1) show ?thesis by blast
qed

lemma cp_good_encoded:
  assumes "\<forall>e \<in> set es. cp_good ops e"
  shows "encoded_prefix ops es = map (the \<circ> Encode ops) es" "small_entries ops es"
    "\<forall>b \<in> set (encoded_prefix ops es). cp_entry_ok ops b"
    "map (\<lambda>b. the (decode_entry ops b)) (encoded_prefix ops es) = es"
  using assms
  by (induction es) (auto simp: cp_good_def cp_entry_ok_def small_entries_def split: option.splits)

text \<open>
  C3: after a Save that runs to its end, a process that starts on the same directory loads exactly
  the entries the traveller enumerated, in their order, and the id the traveller gave as MaxId; Save
  itself returns that id and leaves the client with CompletePrepare done.
\<close>

theorem Save_then_restart:
  assumes "create_local ops" "cp_at (EntryOrderCheckpoint_ctor pc) F w" "cp_idle pc F w"
    and "cp_meta (EntryOrderCheckpoint_ctor pc) F i" "i < MaxId t (Prepare t s)" "MaxId t (Prepare t s) \<noteq> -1"
    and "\<forall>e \<in> set (Entries t (Prepare t s)). cp_good ops e"
    and "cp_fits pc (checkpoint_bytes (cpc_WriteEntryVersion pc) (map (the \<circ> Encode ops) (Entries t (Prepare t s))))"
  shows "\<exists>w1 ls w2. cp_Save ops (cp_object pc) t s w = (Inr (MaxId t (Prepare t s)), CompletePrepare t (Prepare t s), w1) \<and>
    cp_restart ops pc w1 = (Inr (MaxId t (Prepare t s)), ls, w2) \<and> concat ls = Entries t (Prepare t s)"
  using Save_restart_prefix [OF assms(1-6) cp_good_encoded(2) [OF assms(7)] refl cp_good_encoded(3) [OF assms(7)],
      unfolded cp_good_encoded(4) [OF assms(7)]] assms(8)
  by (simp add: cp_good_encoded(1) [OF assms(7)])

text \<open>A concrete directory, configuration and client.\<close>

definition plain_cp :: EntryOrderCheckpointConfig where
  "plain_cp = \<lparr>cpc_RootDirPath = ''/c'', cpc_WriteEntryVersion = 1, cpc_BatchReadSize = 100\<rparr>"

definition plain_cp_world :: "(path \<times> bytes) list \<Rightarrow> sysev list \<Rightarrow> world" where
  "plain_cp_world fs sch = \<lparr>w_files = fs, w_dirs = [''/c''], w_sched = sch, w_errno = ENONE, s_LockingFiles = [], w_flocks = []\<rparr>"

text \<open>The state counts the open Prepare calls.\<close>

definition plain_traveller :: "u64 \<Rightarrow> 'e list \<Rightarrow> (nat, 'e) IEntriesTraveller" where
  "plain_traveller i es = \<lparr>Prepare = Suc, CompletePrepare = (\<lambda>n. n - 1), Entries = (\<lambda>_. es), MaxId = (\<lambda>_. i)\<rparr>"

lemma plain_cp_at:
  assumes "distinct (map fst fs)" "\<forall>p \<in> fst ` set fs. p \<noteq> ''/'' \<and> p \<noteq> ''/c''" "\<forall>e. SysFail e \<notin> set sch"
  shows "cp_at (EntryOrderCheckpoint_ctor plain_cp) (map_of fs) (plain_cp_world fs sch)"
proof -
  let ?w = "plain_cp_world fs sch" and ?st = "EntryOrderCheckpoint_ctor plain_cp"
  have d: "is_dir ?w p = (p = ''/'' \<or> p = ''/c'')" for p by (auto simp: is_dir_def plain_cp_world_def)
  have c: "content ?w = map_of fs" "w_files ?w = fs" "w_sched ?w = sch" by (simp_all add: content_def plain_cp_world_def)
  have "wf_world ?w"
    unfolding wf_world_def c d using assms(1,2) by (force dest: map_of_SomeD)
  moreover have "dir_ready ?w (cp_sRootDir ?st)"
    unfolding dir_ready_def d by (simp add: plain_cp_def) code_simp
  moreover have "\<forall>p \<in> set (cp_paths ?st). \<not> is_dir ?w p"
    unfolding d by (simp add: plain_cp_def) code_simp
  ultimately show ?thesis
    using assms(3) by (simp add: cp_at_def ctor_wf reliable_def c)
qed

lemma plain_idle: "F (cp_sNewCpSaveOkFilePath (cp_object plain_cp)) = None \<Longrightarrow> cp_idle plain_cp F (plain_cp_world fs sch)"
  by (simp add: cp_idle_def plain_cp_world_def)

lemmas plain_empty_at = plain_cp_at [of "[]" "[]", simplified]

theorem Save_then_restart_witness:
  "\<exists>w1 ls w2. cp_Save plain_ops (cp_object plain_cp) (plain_traveller 7 [[1], [2, 3]]) 0 (plain_cp_world [] []) = (Inr 7, 0, w1) \<and>
    cp_restart plain_ops plain_cp w1 = (Inr 7, ls, w2) \<and> concat ls = [[1], [2, 3]]"
proof -
  have "length (checkpoint_bytes v [[1], [2, 3]]) = 25" for v
    by (simp add: checkpoint_bytes_def cp_entry_bytes_def WriteUInt32_enc)
  then have "cp_fits plain_cp (checkpoint_bytes (cpc_WriteEntryVersion plain_cp) [[1], [2, 3]])"
    by (simp add: cp_fits_def plain_cp_def)
  then show ?thesis
    using Save_then_restart [OF plain_local plain_empty_at plain_idle,
        where i = 0 and t = "plain_traveller 7 [[1], [2, 3]]" and s = 0]
    by (simp add: cp_meta_def plain_traveller_def cp_good_def plain_ops_def decode_entry_def)
qed

text \<open>
  C26: Save does not look at the result of save_new_checkpoint. When an entry cannot be encoded the file
  ends before it, the ok flag is created and the old checkpoint replaced all the same: Save reports
  success with MaxId, and the next start loads the entries before the failing one under that id.
\<close>

theorem Save_ignores_encode_error:
  assumes "create_local ops" "cp_at (EntryOrderCheckpoint_ctor pc) F w" "cp_idle pc F w"
    and "cp_meta (EntryOrderCheckpoint_ctor pc) F i" "i < MaxId t (Prepare t s)" "MaxId t (Prepare t s) \<noteq> -1"
    and "Entries t (Prepare t s) = es @ e # es'" "\<forall>e \<in> set es. cp_good ops e" "Encode ops e = None" "small_entries ops es'"
    and "cp_fits pc (checkpoint_bytes (cpc_WriteEntryVersion pc) (map (the \<circ> Encode ops) es))"
  shows "\<exists>w1 ls w2. cp_Save ops (cp_object pc) t s w = (Inr (MaxId t (Prepare t s)), CompletePrepare t (Prepare t s), w1) \<and>
    cp_restart ops pc w1 = (Inr (MaxId t (Prepare t s)), ls, w2) \<and> concat ls = es"
proof -
  note g = cp_good_encoded [OF assms(8)]
  have p: "encoded_prefix ops (Entries t (Prepare t s)) = encoded_prefix ops es"
    unfolding assms(7) using assms(8,9) by (induction es) (auto simp: cp_good_def split: option.splits)
  have "small_entries ops (Entries t (Prepare t s))"
    using g(2) assms(7,9,10) by (auto simp: small_entries_def)
  from Save_restart_prefix [OF assms(1-6) this p [symmetric] g(3), unfolded g(4)] assms(11) show ?thesis
    by (simp add: g(1))
qed

text \<open>An entry type whose empty entry cannot be encoded.\<close>

definition partial_ops :: "bytes entry_ops" where
  "partial_ops = plain_ops\<lparr>Encode := (\<lambda>e. if e = [] then None else Some e)\<rparr>"

theorem Save_ignores_encode_error_witness:
  "\<exists>w1 ls w2. cp_Save partial_ops (cp_object plain_cp) (plain_traveller 7 [[1], [], [2, 3]]) 0 (plain_cp_world [] []) = (Inr 7, 0, w1) \<and>
    cp_restart partial_ops plain_cp w1 = (Inr 7, ls, w2) \<and> concat ls = [[1]]"
proof -
  have "length (checkpoint_bytes v [[1]]) = 14" for v
    by (simp add: checkpoint_bytes_def cp_entry_bytes_def WriteUInt32_enc)
  then have "cp_fits plain_cp (checkpoint_bytes (cpc_WriteEntryVersion plain_cp) [[1]])"
    by (simp add: cp_fits_def plain_cp_def)
  moreover have "create_local partial_ops" by (simp add: create_local_def partial_ops_def plain_ops_def)
  ultimately show ?thesis
    using Save_ignores_encode_error [OF _ plain_empty_at plain_idle,
        where ops = partial_ops and i = 0 and t = "plain_traveller 7 [[1], [], [2, 3]]" and s = 0 and es = "[[1]]" and e = "[]"
          and es' = "[[2, 3]]"]
    by (simp add: cp_meta_def plain_traveller_def cp_good_def partial_ops_def plain_ops_def decode_entry_def small_entries_def)
qed

lemma check_and_recover_keeps:
  assumes "cp_at st F w" "F (cp_sNewCpSaveOkFilePath st) = None"
  shows "\<exists>w'. check_and_recover st w = (C_OK, w') \<and>
    cp_at st (if F (cp_sLockPath st) = None \<and> F (cp_sNewStartFlagFilePath st) = None then F
      else F(cp_sNewCpMetaFilePath st := None, cp_sNewCpFilePath st := None, cp_sNewStartFlagFilePath st := None)) w'"
  using check_and_recover_completed [OF assms(1)] check_and_recover_clean [OF assms(1)] assms(2) by auto

text \<open>What a start finds: the id, and the entries when there is a checkpoint.\<close>

definition cp_holds :: "'e entry_ops \<Rightarrow> EntryOrderCheckpointConfig \<Rightarrow> (path \<rightharpoonup> bytes) \<Rightarrow> u64 \<Rightarrow> 'e list \<Rightarrow> bool" where
  "cp_holds ops pc F i es =
    (cp_meta (EntryOrderCheckpoint_ctor pc) F i \<and> (i = 0 \<longrightarrow> es = []) \<and>
     (i \<noteq> 0 \<longrightarrow> (case F (cp_sCpFilePath (EntryOrderCheckpoint_ctor pc)) of
        None \<Rightarrow> False | Some c \<Rightarrow> cp_fits pc c \<and> cp_parse ops c = Inr es)))"

lemma cp_restart_holds:
  assumes "cp_at (EntryOrderCheckpoint_ctor pc) F w" "create_local ops" "cp_holds ops pc G i es"
    and "\<And>w. cp_at (EntryOrderCheckpoint_ctor pc) F w \<Longrightarrow>
      \<exists>w'. check_and_recover (EntryOrderCheckpoint_ctor pc) w = (C_OK, w') \<and> cp_at (EntryOrderCheckpoint_ctor pc) G w'"
  shows "\<exists>bs w'. cp_restart ops pc w = (Inr i, bs, w') \<and> concat bs = es"
  by (rule cp_restart_at [OF assms(1,2,4)])
    (use assms(3) in \<open>auto simp: cp_holds_def split: option.splits\<close>)

lemma cp_holds_cong:
  assumes "cp_holds ops pc F i es"
    and "G (cp_sCpMetaFilePath (EntryOrderCheckpoint_ctor pc)) = F (cp_sCpMetaFilePath (EntryOrderCheckpoint_ctor pc))"
    and "G (cp_sCpFilePath (EntryOrderCheckpoint_ctor pc)) = F (cp_sCpFilePath (EntryOrderCheckpoint_ctor pc))"
  shows "cp_holds ops pc G i es"
  using assms by (simp add: cp_holds_def cp_meta_def)

text \<open>Directories that hold files of the concrete checkpoint.\<close>

lemma plain_files_at:
  assumes "distinct ps" "set ps \<subseteq> set (cp_paths (EntryOrderCheckpoint_ctor plain_cp))" "length cs = length ps"
  shows "cp_at (EntryOrderCheckpoint_ctor plain_cp) (map_of (zip ps cs)) (plain_cp_world (zip ps cs) [])"
proof -
  have "\<forall>p \<in> set (cp_paths (EntryOrderCheckpoint_ctor plain_cp)). p \<noteq> ''/'' \<and> p \<noteq> ''/c''"
    unfolding plain_cp_def by code_simp
  with assms show ?thesis by (intro plain_cp_at) (auto dest: set_zip_leftD)
qed

lemma plain_distinct: "distinct (cp_paths (EntryOrderCheckpoint_ctor plain_cp))"
  using ctor_wf [of plain_cp] by (simp add: cp_wf_def)

lemma plain_checkpoint: "cp_fits plain_cp (checkpoint_bytes 1 [[9]])" "cp_parse plain_ops (checkpoint_bytes 1 [[9]]) = Inr [[9]]"
proof -
  have "length (checkpoint_bytes 1 [[9]]) = 14"
    by (simp add: checkpoint_bytes_def cp_entry_bytes_def WriteUInt32_enc)
  then show "cp_fits plain_cp (checkpoint_bytes 1 [[9]])" by (simp add: cp_fits_def plain_cp_def)
  show "cp_parse plain_ops (checkpoint_bytes 1 [[9]]) = Inr [[9]]"
    using cp_parse_checkpoint_bytes [OF plain_local, of "[[9]]" 1]
    by (simp add: cp_entry_ok_def plain_ops_def decode_entry_def)
qed

definition plain_old :: "(path \<times> bytes) list" where
  "plain_old = zip [cp_sCpMetaFilePath (EntryOrderCheckpoint_ctor plain_cp), cp_sCpFilePath (EntryOrderCheckpoint_ctor plain_cp)]
     [bytes_of_string (ToString 3), checkpoint_bytes 1 [[9]]]"

definition plain_new :: "(path \<times> bytes) list" where
  "plain_new = zip [cp_sNewCpSaveOkFilePath (EntryOrderCheckpoint_ctor plain_cp),
       cp_sNewCpMetaFilePath (EntryOrderCheckpoint_ctor plain_cp), cp_sNewCpFilePath (EntryOrderCheckpoint_ctor plain_cp)]
     [[], bytes_of_string (ToString 3), checkpoint_bytes 1 [[9]]]"

lemma plain_old_at: "cp_at (EntryOrderCheckpoint_ctor plain_cp) (map_of plain_old) (plain_cp_world plain_old [])"
  unfolding plain_old_def by (rule plain_files_at) (use plain_distinct in \<open>auto simp: cp_paths_def\<close>)

lemma plain_new_at: "cp_at (EntryOrderCheckpoint_ctor plain_cp) (map_of plain_new) (plain_cp_world plain_new [])"
  unfolding plain_new_def by (rule plain_files_at) (use plain_distinct in \<open>auto simp: cp_paths_def\<close>)

text \<open>
  C7: until the child of a Save creates the ok flag, the old checkpoint is safe.  In every state that
  child_prepare, which is do_save_in_child up to that point, can leave on the disk, whichever of its
  system calls fail, the next start still loads the checkpoint that was there before, entries and id.
  So a child that is killed at any system call before the flag (every call fails from there on), or
  that returns early, costs nothing.  A child that lives on after a failed write is another matter: it
  goes on to create the flag and replaces the old checkpoint (Save_ignores_encode_error).
\<close>

theorem crash_before_ok_flag:
  assumes "create_local ops" "cp_at (EntryOrderCheckpoint_ctor pc) F (w\<lparr>w_sched := []\<rparr>)"
    and "F (cp_sNewCpSaveOkFilePath (EntryOrderCheckpoint_ctor pc)) = None" "cp_holds ops pc F i es"
    and "\<forall>e. SysFail e \<notin> set sch"
  shows "\<exists>bs w'. cp_restart ops pc (reboot sch (snd (child_prepare ops (cp_object pc) maxId new w))) = (Inr i, bs, w') \<and>
    concat bs = es"
proof -
  let ?st = "EntryOrderCheckpoint_ctor pc"
  define w1 where "w1 = snd (child_prepare ops (cp_object pc) maxId new w)"
  have wf: "cp_wf (cp_object pc)" using ctor_wf [of pc] by (simp add: cp_wf_def cp_paths_def)
  have d: "distinct (cp_paths ?st)" using ctor_wf [of pc] by (simp add: cp_wf_def)
  have ww: "wf_world w" "content w = F" "dir_ready w (cp_sRootDir ?st)" "\<forall>p \<in> set (cp_paths ?st). \<not> is_dir w p"
    using assms(2) by (simp_all add: cp_at_def dir_ready_def wf_world_def)
  have t: "cp_touches (cp_object pc) w w1"
    unfolding w1_def by (rule child_prepare_touches) (use ww assms(3) wf in auto)
  have "cp_at ?st (content w1) (reboot sch w1)"
    using touches_world [OF t] ww assms(5) by (simp add: cp_at_def ctor_wf dir_ready_def)
  moreover have "content w1 (cp_sNewCpSaveOkFilePath ?st) = None"
    by (rule touches_missing [OF t]) (use d ww assms(3) in \<open>auto simp: cp_paths_def\<close>)
  moreover have "cp_holds ops pc (content w1) i es"
    by (rule cp_holds_cong [OF assms(4)]) (use touches_file [OF t] d ww in \<open>auto simp: cp_paths_def\<close>)
  then have "cp_holds ops pc (if content w1 (cp_sLockPath ?st) = None \<and> content w1 (cp_sNewStartFlagFilePath ?st) = None
      then content w1 else (content w1)(cp_sNewCpMetaFilePath ?st := None, cp_sNewCpFilePath ?st := None,
        cp_sNewStartFlagFilePath ?st := None)) i es"
    by (rule cp_holds_cong) (use d in \<open>auto simp: cp_paths_def\<close>)
  ultimately show ?thesis
    unfolding w1_def [symmetric]
    by (intro cp_restart_holds [OF _ assms(1)]) (auto intro: check_and_recover_keeps)
qed

text \<open>The child fails at its fifth system call, while the directory holds a checkpoint of one entry.\<close>

theorem crash_before_ok_flag_witness:
  "\<exists>bs w'. cp_restart plain_ops plain_cp (reboot [] (snd (child_prepare plain_ops (cp_object plain_cp) 7 [[1]]
      (plain_cp_world plain_old [SysOk, SysOk, SysOk, SysOk, SysFail EIO])))) = (Inr 3, bs, w') \<and> concat bs = [[9]]"
proof -
  let ?w = "plain_cp_world plain_old [SysOk, SysOk, SysOk, SysOk, SysFail EIO]"
  have "?w\<lparr>w_sched := []\<rparr> = plain_cp_world plain_old []" by (simp add: plain_cp_world_def)
  then have "cp_at (EntryOrderCheckpoint_ctor plain_cp) (map_of plain_old) (?w\<lparr>w_sched := []\<rparr>)" by (simp only: plain_old_at)
  moreover have "cp_holds plain_ops plain_cp (map_of plain_old) 3 [[9]]"
    using plain_distinct plain_checkpoint by (auto simp: cp_holds_def cp_meta_def plain_old_def cp_paths_def)
  moreover have "map_of plain_old (cp_sNewCpSaveOkFilePath (EntryOrderCheckpoint_ctor plain_cp)) = None"
    using plain_distinct by (auto simp: plain_old_def cp_paths_def)
  ultimately show ?thesis by (intro crash_before_ok_flag [OF plain_local]) auto
qed

text \<open>
  C8: from the moment the ok flag exists until the new meta file is renamed, a crash loses nothing: the
  next start finishes the replacement and loads the new checkpoint, also when the old files are
  already gone.
\<close>

theorem crash_after_ok_flag:
  assumes "create_local ops" "cp_at (EntryOrderCheckpoint_ctor pc) F w" "st = EntryOrderCheckpoint_ctor pc"
    and "F (cp_sNewCpSaveOkFilePath st) \<noteq> None" "F (cp_sNewCpMetaFilePath st) = Some (bytes_of_string (ToString i))"
    and "i \<noteq> 0" "i \<noteq> -1" "F (cp_sNewCpFilePath st) = Some c" "cp_fits pc c" "cp_parse ops c = Inr es"
  shows "\<exists>bs w'. cp_restart ops pc w = (Inr i, bs, w') \<and> concat bs = es"
proof -
  have d: "distinct (cp_paths st)" using ctor_wf [of pc] assms(3) by (simp add: cp_wf_def)
  show ?thesis
    by (rule cp_restart_holds [OF assms(2,1) _
          check_and_recover_commit [OF _ assms(4,5,8) [unfolded assms(3)]]])
      (use assms d in \<open>auto simp: cp_holds_def cp_meta_def cp_paths_def\<close>)
qed

theorem crash_after_ok_flag_witness:
  "\<exists>bs w'. cp_restart plain_ops plain_cp (plain_cp_world plain_new []) = (Inr 3, bs, w') \<and> concat bs = [[9]]"
  by (rule crash_after_ok_flag [OF plain_local plain_new_at refl])
    (use plain_distinct plain_checkpoint in \<open>auto simp: plain_new_def cp_paths_def\<close>)

text \<open>
  C25: replacing the old checkpoint is not idempotent. When the process dies after the new meta file has
  been renamed but before the ok flag is removed, the recovery of the next start deletes the
  meta file and the checkpoint, and Init fails; the start after that fails in the same way.
\<close>

theorem crash_in_replace_loses_checkpoint:
  assumes "cp_at (EntryOrderCheckpoint_ctor pc) F w" "st = EntryOrderCheckpoint_ctor pc"
    and "F (cp_sNewCpSaveOkFilePath st) \<noteq> None" "F (cp_sNewCpMetaFilePath st) = Some m" "F (cp_sNewCpFilePath st) = Some c"
  shows "\<exists>w1 w2. replace_old_checkpoint st w = (C_OK, w1) \<and>
    cp_restart ops pc w1 = (Inl C_FileSystemError, [], w2) \<and>
    content w2 (cp_sCpMetaFilePath st) = None \<and> content w2 (cp_sCpFilePath st) = None \<and>
    fst (cp_restart ops pc w2) = Inl C_FileSystemError"
proof -
  let ?st = "EntryOrderCheckpoint_ctor pc"
  let ?G = "F(cp_sNewCpMetaFilePath st := None, cp_sNewCpFilePath st := None, cp_sCpMetaFilePath st \<mapsto> m, cp_sCpFilePath st \<mapsto> c)"
  let ?H = "?G(cp_sCpMetaFilePath st := None, cp_sCpFilePath st := None)"
  have d: "distinct (cp_paths st)" using ctor_wf [of pc] assms(2) by (simp add: cp_wf_def)
  obtain w1 where w1: "replace_old_checkpoint st w = (C_OK, w1)" "cp_at st ?G w1"
    using replace_old_checkpoint_at [of st F w m c] assms by auto
  have broken: "\<exists>w'. cp_Init st v = (C_FileSystemError, st\<lparr>cp_bInited := True\<rparr>, w') \<and> cp_at st ?H w'"
    if "cp_at st X v" "X = ?G \<or> X = ?H" for X v
  proof -
    have X: "X (cp_sNewCpSaveOkFilePath st) \<noteq> None" "X (cp_sNewCpMetaFilePath st) = None"
      "X(cp_sCpMetaFilePath st := None, cp_sCpFilePath st := None) = ?H"
      using that(2) assms(3) d by (auto simp: cp_paths_def)
    show ?thesis
      using cp_Init_at [OF that(1) check_and_recover_broken [OF _ X(1,2)]] unfolding X(3) .
  qed
  obtain w2 where w2: "cp_Init st w1 = (C_FileSystemError, st\<lparr>cp_bInited := True\<rparr>, w2)" "cp_at st ?H w2"
    using broken [OF w1(2)] by blast
  have "fst (cp_restart ops pc w2) = Inl C_FileSystemError"
    using broken [OF w2(2)] assms(2) by (auto simp: cp_restart_def)
  with w1(1) w2 d assms(2) show ?thesis by (auto simp: cp_restart_def cp_atD(3) [OF w2(2)] cp_paths_def)
qed

theorem crash_in_replace_loses_checkpoint_witness:
  "\<exists>w1 w2. replace_old_checkpoint (EntryOrderCheckpoint_ctor plain_cp) (plain_cp_world plain_new []) = (C_OK, w1) \<and>
    cp_restart plain_ops plain_cp w1 = (Inl C_FileSystemError, [], w2) \<and>
    content w2 (cp_sCpMetaFilePath (EntryOrderCheckpoint_ctor plain_cp)) = None \<and>
    content w2 (cp_sCpFilePath (EntryOrderCheckpoint_ctor plain_cp)) = None \<and>
    fst (cp_restart plain_ops plain_cp w2) = Inl C_FileSystemError"
  by (rule crash_in_replace_loses_checkpoint [OF plain_new_at refl])
    (use plain_distinct in \<open>auto simp: plain_new_def cp_paths_def\<close>)

text \<open>
  C27: a checkpoint that is as new as the client's state stays as it is: Save returns its id and does not
  write it again.
\<close>

theorem Save_up_to_date:
  assumes "cp_at (EntryOrderCheckpoint_ctor pc) F w" "cp_idle pc F w" "st = EntryOrderCheckpoint_ctor pc"
    and "F (cp_sNewStartFlagFilePath st) = None" "cp_meta st F i" "MaxId t (Prepare t s) \<le> i"
  shows "\<exists>w'. cp_Save ops (cp_object pc) t s w = (Inr i, CompletePrepare t (Prepare t s), w') \<and>
    content w' (cp_sCpFilePath st) = F (cp_sCpFilePath st) \<and> content w' (cp_sCpMetaFilePath st) = F (cp_sCpMetaFilePath st)"
proof -
  let ?l = "cp_sLockPath st" and ?st = "cp_object pc"
  have d: "distinct (cp_paths st)" using ctor_wf [of pc] assms(3) by (simp add: cp_wf_def)
  have idle: "cp_sLockPath ?st \<notin> set (s_LockingFiles w)" "cp_sLockPath ?st \<notin> set (w_flocks w)"
    "F (cp_sNewCpSaveOkFilePath st) = None" using assms(2,3) by (simp_all add: cp_idle_def)
  have at0: "cp_at ?st F w" using assms(1) by simp
  obtain w1 where w1: "IsLocking ?l w = (0, w1)" "cp_at ?st F w1" "s_LockingFiles w1 = s_LockingFiles w"
    using IsLocking_at [OF at0 idle(1,2)] assms(3) by auto
  define w2 where "w2 = snd (sys_fork w1)"
  have fk: "sys_fork w1 = (True, w2)" "quiet w1 w2" "s_LockingFiles w2 = s_LockingFiles w1"
    using sys_fork_at [OF w1(2)] by (simp_all add: w2_def)
  have at2: "cp_at ?st F w2" by (rule cp_at_quiet [OF w1(2) fk(2)])
  obtain w3 lc where w3: "LockPath ?l w2 = ((Some (?l, 0), ?l), w3)" "cp_at ?st (F(?l \<mapsto> lc)) w3"
    using LockPath_at [OF at2] idle(1) w1(3) fk(3) assms(3) by auto
  have "cp_meta ?st (F(?l \<mapsto> lc)) i" using assms(3,5) d by (simp add: cp_meta_def cp_paths_def)
  then obtain w4 where w4: "load_meta ?st w3 = (Inr i, w4)" "cp_at ?st (F(?l \<mapsto> lc)) w4" using load_meta_at [OF w3(2)] by blast
  obtain w5 where w5: "CloseFile (Some (?l, 0), ?l) w4 = (True, w5)" "cp_at ?st (F(?l \<mapsto> lc)) w5"
    using CloseFile_at [OF w4(2), of "(Some (?l, 0), ?l)"] by auto
  define w6 where "w6 = snd (Unlink ?l w5)"
  have at6: "cp_at ?st (F(?l := None)) w6"
    using cp_Unlink [OF w5(2), of ?l] assms(3) by (auto simp: w6_def)
  have child: "do_save_in_child ops ?st (MaxId t (Prepare t s)) (Entries t (Prepare t s)) w2 = w6"
    using w3(1) w4(1) w5(1) assms(3,6) by (simp add: do_save_in_child_def child_prepare_def w6_def)
  have at7: "cp_at ?st (F(?l := None)) (w6\<lparr>w_errno := w_errno w2, s_LockingFiles := s_LockingFiles w2\<rparr>)"
    by (rule cp_at_memory [OF at6])
  have "cp_meta ?st (F(?l := None)) i" using assms(3,5) d by (simp add: cp_meta_def cp_paths_def)
  with do_save_in_parent_at [OF at7] assms(3,4) idle(3) d
  obtain w8 where "do_save_in_parent ?st (w6\<lparr>w_errno := w_errno w2, s_LockingFiles := s_LockingFiles w2\<rparr>) = (Inr i, w8)"
    "cp_at ?st (F(?l := None)) w8" by (auto simp: cp_paths_def)
  with w1(1) fk(1) child d assms(3) show ?thesis
    by (auto simp: cp_Save_def Let_def cp_atD(3) cp_paths_def)
qed

theorem Save_up_to_date_witness:
  "\<exists>w'. cp_Save plain_ops (cp_object plain_cp) (plain_traveller 2 [[1]]) 0 (plain_cp_world plain_old []) = (Inr 3, 0, w') \<and>
    content w' (cp_sCpFilePath (EntryOrderCheckpoint_ctor plain_cp)) = Some (checkpoint_bytes 1 [[9]])"
proof -
  note d = plain_distinct [unfolded cp_paths_def]
  have i: "cp_idle plain_cp (map_of plain_old) (plain_cp_world plain_old [])"
    by (rule plain_idle) (use d in \<open>auto simp: plain_old_def\<close>)
  have m: "cp_meta (EntryOrderCheckpoint_ctor plain_cp) (map_of plain_old) 3"
    by (simp add: cp_meta_def plain_old_def)
  show ?thesis
    using Save_up_to_date [OF plain_old_at i refl _ m, of "plain_traveller 2 [[1]]" 0 plain_ops] d
    by (auto simp: plain_traveller_def plain_old_def)
qed

end
