(* ===== verification/StdMap.thy ===== *)
theory StdMap
  imports Prelude
begin

text \<open>
  std::map as the key/value store uses it: the sequence of its elements in iteration order, with the
  operations parameterised by the comparator, as the template is.  The locale \<open>key_order\<close> states what
  std::map requires of a comparator; the lemmas hold for every such comparator.
\<close>

fun sm_find :: "('k \<Rightarrow> 'k \<Rightarrow> bool) \<Rightarrow> 'k \<Rightarrow> ('k \<times> 'v) list \<Rightarrow> 'v option" where
  "sm_find lt k [] = None"
| "sm_find lt k ((k', v) # xs) =
    (if lt k' k then sm_find lt k xs else if lt k k' then None else Some v)"

text \<open>\<open>m[k] = v\<close>: an equivalent key that is there stays, its value is replaced.\<close>

fun sm_set :: "('k \<Rightarrow> 'k \<Rightarrow> bool) \<Rightarrow> 'k \<Rightarrow> 'v \<Rightarrow> ('k \<times> 'v) list \<Rightarrow> ('k \<times> 'v) list" where
  "sm_set lt k v [] = [(k, v)]"
| "sm_set lt k v ((k', v') # xs) =
    (if lt k' k then (k', v') # sm_set lt k v xs
     else if lt k k' then (k, v) # (k', v') # xs
     else (k', v) # xs)"

fun sm_erase :: "('k \<Rightarrow> 'k \<Rightarrow> bool) \<Rightarrow> 'k \<Rightarrow> ('k \<times> 'v) list \<Rightarrow> ('k \<times> 'v) list" where
  "sm_erase lt k [] = []"
| "sm_erase lt k ((k', v') # xs) =
    (if lt k' k then (k', v') # sm_erase lt k xs else if lt k k' then (k', v') # xs else xs)"

text \<open>The position of the first element that is not less than the key; the length is end().\<close>

definition sm_lower_bound :: "('k \<Rightarrow> 'k \<Rightarrow> bool) \<Rightarrow> 'k \<Rightarrow> ('k \<times> 'v) list \<Rightarrow> nat" where
  "sm_lower_bound lt k xs = length (takeWhile (\<lambda>x. lt (fst x) k) xs)"

text \<open>The elements are in the order of the comparator.\<close>

definition sm_ok :: "('k \<Rightarrow> 'k \<Rightarrow> bool) \<Rightarrow> ('k \<times> 'v) list \<Rightarrow> bool" where
  "sm_ok lt xs = sorted_wrt lt (map fst xs)"

locale key_order =
  fixes lt :: "'k \<Rightarrow> 'k \<Rightarrow> bool"
  assumes irrefl: "\<not> lt a a"
    and trans: "lt a b \<Longrightarrow> lt b c \<Longrightarrow> lt a c"
    and total: "\<not> lt a b \<Longrightarrow> \<not> lt b a \<Longrightarrow> a = b"
begin

lemma sm_ok_simps [simp]:
  "sm_ok lt []" "sm_ok lt ((k, v) # xs) = ((\<forall>x \<in> set xs. lt k (fst x)) \<and> sm_ok lt xs)"
  by (auto simp: sm_ok_def)

lemma sm_ok_distinct: "sm_ok lt xs \<Longrightarrow> distinct (map fst xs)"
  unfolding sm_ok_def by (induction xs) (auto simp: irrefl)

lemma not_key_above: "\<forall>x \<in> set xs. lt k (fst x) \<Longrightarrow> map_of xs k = None"
  using irrefl by (force simp: map_of_eq_None_iff)

lemma sm_find_map_of: "sm_ok lt xs \<Longrightarrow> sm_find lt k xs = map_of xs k"
proof (induction xs)
  case (Cons x xs)
  obtain k' v where x: "x = (k', v)" by (cases x)
  have "map_of xs k = None" if "lt k k'"
    using that Cons.prems trans x by (intro not_key_above) auto
  with Cons x total [of k k'] irrefl [of k] show ?case by auto
qed simp

lemma set_sm_set: "x \<in> set (sm_set lt k v xs) \<Longrightarrow> fst x = k \<or> fst x \<in> fst ` set xs"
proof (induction xs)
  case (Cons y xs)
  obtain k' v' where "y = (k', v')" by (cases y)
  with Cons show ?case by (auto split: if_splits)
qed simp

lemma sm_set_ok: "sm_ok lt xs \<Longrightarrow> sm_ok lt (sm_set lt k v xs)"
proof (induction xs)
  case (Cons x xs)
  obtain k' v' where x: "x = (k', v')" by (cases x)
  have "\<forall>y \<in> set (sm_set lt k v xs). lt k' (fst y)" if "lt k' k"
    using that set_sm_set [of _ k v xs] Cons.prems x by fastforce
  moreover have "\<forall>y \<in> set xs. lt k (fst y)" if "lt k k'"
    using that Cons.prems x trans by auto
  ultimately show ?case using Cons x by auto
qed simp

lemma map_of_sm_set: "sm_ok lt xs \<Longrightarrow> map_of (sm_set lt k v xs) = (map_of xs)(k \<mapsto> v)"
proof (induction xs)
  case (Cons x xs)
  obtain k' v' where x: "x = (k', v')" by (cases x)
  show ?case
  proof (cases "lt k' k")
    case True
    then have "k' \<noteq> k" using irrefl by auto
    with True Cons x show ?thesis by (auto simp: fun_upd_twist)
  next
    case False
    with total [of k k'] x show ?thesis by auto
  qed
qed simp

lemma sm_set_value: "x \<in> set (sm_set lt k v xs) \<Longrightarrow> x \<in> set xs \<or> x = (k, v)"
  using total by (induction xs) (auto split: if_splits)

lemma set_sm_erase: "set (sm_erase lt k xs) \<subseteq> set xs"
  by (induction xs) (auto split: if_splits)

lemma sm_erase_ok: "sm_ok lt xs \<Longrightarrow> sm_ok lt (sm_erase lt k xs)"
proof (induction xs)
  case (Cons x xs)
  obtain k' v' where x: "x = (k', v')" by (cases x)
  with Cons set_sm_erase [of k xs] show ?case by auto
qed simp

lemma map_of_sm_erase: "sm_ok lt xs \<Longrightarrow> map_of (sm_erase lt k xs) = (map_of xs)(k := None)"
proof (induction xs)
  case (Cons x xs)
  obtain k' v' where x: "x = (k', v')" by (cases x)
  have above: "\<forall>y \<in> set xs. lt k' (fst y)" using Cons.prems x by simp
  show ?case
  proof (cases "lt k' k")
    case True
    then have "k' \<noteq> k" using irrefl by auto
    with True Cons x show ?thesis by (auto simp: fun_upd_twist)
  next
    case False
    show ?thesis
    proof (cases "lt k k'")
      case True
      then have "map_of (x # xs) k = None" using above trans x irrefl by (intro not_key_above) auto
      with True False x show ?thesis by (simp add: fun_upd_idem)
    next
      case False
      with total [of k k'] \<open>\<not> lt k' k\<close> have "k' = k" by blast
      with x not_key_above [OF above] False show ?thesis by (auto simp: irrefl)
    qed
  qed
qed simp

lemma sm_ok_unique: "sm_ok lt xs \<Longrightarrow> sm_ok lt ys \<Longrightarrow> map_of xs = map_of ys \<Longrightarrow> xs = ys"
proof (induction xs arbitrary: ys)
  case Nil
  have "map_of ys = Map.empty" using Nil.prems(3) by simp
  then show ?case by simp
next
  case (Cons x xs)
  obtain k v where x: "x = (k, v)" by (cases x)
  obtain k' v' ys' where ys: "ys = (k', v') # ys'"
    using Cons.prems(3) x by (cases ys) (auto dest: fun_cong [of _ _ k])
  have "map_of ys k = Some v" "map_of (x # xs) k' = Some v'" 
    using fun_cong [OF Cons.prems(3), of k] fun_cong [OF Cons.prems(3), of k'] x ys by simp_all
  have "k = k'"
  proof (rule ccontr)
    assume "k \<noteq> k'"
    then have "(k, v) \<in> set ys'" "(k', v') \<in> set xs"
      using \<open>map_of ys k = Some v\<close> \<open>map_of (x # xs) k' = Some v'\<close> x ys by (auto dest: map_of_SomeD)
    then have "lt k' k" "lt k k'" using Cons.prems(1,2) x ys by auto
    then show False using trans irrefl by blast
  qed
  moreover from this have "v = v'" using \<open>map_of ys k = Some v\<close> ys by simp
  moreover have "map_of xs = map_of ys'"
  proof
    fix a
    have "map_of xs k = None" "map_of ys' k = None"
      using Cons.prems(1,2) x ys \<open>k = k'\<close> by (auto intro!: not_key_above)
    with fun_cong [OF Cons.prems(3), of a] x ys \<open>k = k'\<close> show "map_of xs a = map_of ys' a" by (auto split: if_splits)
  qed
  ultimately show ?case using Cons x ys by simp
qed

lemma lower_bound_split:
  assumes "sm_ok lt xs"
  shows "drop (sm_lower_bound lt k xs) xs = filter (\<lambda>x. \<not> lt (fst x) k) xs"
    "take (sm_lower_bound lt k xs) xs = filter (\<lambda>x. lt (fst x) k) xs"
proof -
  have "dropWhile (\<lambda>x. lt (fst x) k) xs = filter (\<lambda>x. \<not> lt (fst x) k) xs \<and>
      takeWhile (\<lambda>x. lt (fst x) k) xs = filter (\<lambda>x. lt (fst x) k) xs"
    using assms
  proof (induction xs)
    case (Cons x xs)
    obtain k' v where x: "x = (k', v)" by (cases x)
    have "\<not> lt (fst y) k" if "\<not> lt k' k" "y \<in> set xs" for y
      using that Cons.prems x trans by auto
    with Cons x show ?case by (auto intro!: filter_False [symmetric] filter_True [symmetric])
  qed simp
  note w = this
  show "drop (sm_lower_bound lt k xs) xs = filter (\<lambda>x. \<not> lt (fst x) k) xs"
    unfolding sm_lower_bound_def dropWhile_eq_drop [symmetric] using w by blast
  show "take (sm_lower_bound lt k xs) xs = filter (\<lambda>x. lt (fst x) k) xs"
    unfolding sm_lower_bound_def takeWhile_eq_take [symmetric] using w by blast
qed

end

end
