(* ===== verification/Buffer.thy ===== *)
theory Buffer
  imports Prelude
begin

text \<open>
  common/buffer.h and common/buffer.cc: the window \<open>[pos, last]\<close> on a block of memory that every
  component passes bytes in, with the ownership of the block.  Pointers are addresses, 0 is nullptr;
  memory is a map from addresses to bytes.
\<close>

type_synonym heap = "nat \<Rightarrow> byte"

definition read_heap :: "heap \<Rightarrow> nat \<Rightarrow> nat \<Rightarrow> bytes" where
  "read_heap h a n = map h [a..<a + n]"

definition write_heap :: "nat \<Rightarrow> bytes \<Rightarrow> heap \<Rightarrow> heap" where
  "write_heap a bs h = (\<lambda>x. if a \<le> x \<and> x < a + length bs then bs ! (x - a) else h x)"

record Buffer =
  b_pPos :: nat
  b_pLast :: nat
  b_pStart :: nat
  b_pEnd :: nat
  b_pMpObject :: nat
  b_bAvailable :: bool
  b_bOwn :: bool

definition Buffer_default :: Buffer where
  "Buffer_default = \<lparr>b_pPos = 0, b_pLast = 0, b_pStart = 0, b_pEnd = 0, b_pMpObject = 0, b_bAvailable = False, b_bOwn = False\<rparr>"

text \<open>What Refresh gives back: nothing, an object of the pool, or an array.\<close>

datatype release = Keep | PutObject nat | DeleteArray nat

definition check_available :: "Buffer \<Rightarrow> Buffer" where
  "check_available b =
    (if b_pStart b = 0 \<or> b_pEnd b = 0 \<or> b_pPos b = 0 \<or> b_pLast b = 0 then b\<lparr>b_bAvailable := False\<rparr>
     else b\<lparr>b_bAvailable := b_pPos b \<le> b_pLast b\<rparr>)"

definition Buffer_ctor :: "nat \<Rightarrow> nat \<Rightarrow> nat \<Rightarrow> nat \<Rightarrow> nat \<Rightarrow> bool \<Rightarrow> Buffer" where
  "Buffer_ctor pos lst start fin mpo own =
    check_available \<lparr>b_pPos = pos, b_pLast = lst, b_pStart = start, b_pEnd = fin, b_pMpObject = mpo,
      b_bAvailable = False, b_bOwn = own\<rparr>"

definition Refresh :: "nat \<Rightarrow> nat \<Rightarrow> nat \<Rightarrow> nat \<Rightarrow> nat \<Rightarrow> bool \<Rightarrow> Buffer \<Rightarrow> release \<times> Buffer" where
  "Refresh pos lst start fin mpo own b =
    (if b_bOwn b then (if b_pMpObject b \<noteq> 0 then PutObject (b_pMpObject b) else DeleteArray (b_pStart b)) else Keep,
     check_available (b\<lparr>b_pPos := pos, b_pLast := lst, b_pStart := start, b_pEnd := fin, b_pMpObject := mpo, b_bOwn := own\<rparr>))"

definition Buffer_Put :: "Buffer \<Rightarrow> release \<times> Buffer" where
  "Buffer_Put b = Refresh 0 0 0 0 0 False b"

definition Buffer_Reset :: "Buffer \<Rightarrow> release \<times> Buffer" where
  "Buffer_Reset b = Refresh 0 0 0 0 0 False b"

definition Buffer_dtor :: "Buffer \<Rightarrow> release \<times> Buffer" where
  "Buffer_dtor b = Buffer_Put b"

definition Valid :: "Buffer \<Rightarrow> bool" where
  "Valid b = b_bAvailable b"

definition BZero :: "Buffer \<Rightarrow> heap \<Rightarrow> Buffer \<times> heap" where
  "BZero b h =
    (b\<lparr>b_pPos := 0, b_pLast := 0, b_bAvailable := False\<rparr>,
     write_heap (b_pStart b) (replicate (b_pEnd b - b_pStart b + 1) 0) h)"

definition MoveHeadBack :: "nat \<Rightarrow> Buffer \<Rightarrow> Buffer" where
  "MoveHeadBack n b =
    (if b_pPos b = 0 \<or> b_pLast b = 0 then b\<lparr>b_bAvailable := False\<rparr>
     else check_available (b\<lparr>b_pPos := b_pPos b + n\<rparr>))"

definition MoveTailBack :: "nat \<Rightarrow> Buffer \<Rightarrow> Buffer" where
  "MoveTailBack n b =
    (if b_pLast b \<noteq> 0 then b\<lparr>b_pLast := b_pLast b + n\<rparr>
     else check_available (b\<lparr>b_pLast := b_pStart b + n - 1\<rparr>))"

text \<open>\<open>(int32_t)\<close> of a pointer difference.\<close>

definition int32 :: "int \<Rightarrow> int" where
  "int32 i = (i + 2 ^ 31) mod 2 ^ 32 - 2 ^ 31"

definition TotalLength :: "Buffer \<Rightarrow> int" where
  "TotalLength b =
    (if b_pStart b = 0 \<or> b_pEnd b = 0 then 0 else int32 (int (b_pEnd b) - int (b_pStart b)) + 1)"

definition AvailableLength :: "Buffer \<Rightarrow> int" where
  "AvailableLength b =
    (if \<not> b_bAvailable b then 0
     else if b_pLast b = 0 \<or> b_pPos b = 0 then 0
     else int32 (int (b_pLast b) - int (b_pPos b)) + 1)"

text \<open>\<open>(size_t)\<close> of a pointer difference wraps when the tail is behind the end.\<close>

definition UnusedSize :: "Buffer \<Rightarrow> u64" where
  "UnusedSize b =
    (if \<not> b_bAvailable b then 0
     else if b_pLast b \<noteq> 0 then word_of_int (int (b_pEnd b) - int (b_pLast b))
     else word_of_int (int (b_pEnd b) - int (b_pStart b)) + 1)"

definition SetPos :: "nat \<Rightarrow> Buffer \<Rightarrow> Buffer" where
  "SetPos p b = check_available (b\<lparr>b_pPos := p\<rparr>)"

definition SetLast :: "nat \<Rightarrow> Buffer \<Rightarrow> Buffer" where
  "SetLast l b = check_available (b\<lparr>b_pLast := l\<rparr>)"

definition SetStart :: "nat \<Rightarrow> Buffer \<Rightarrow> Buffer" where
  "SetStart s b = b\<lparr>b_pStart := s\<rparr>"

definition SetEnd :: "nat \<Rightarrow> Buffer \<Rightarrow> Buffer" where
  "SetEnd e b = b\<lparr>b_pEnd := e\<rparr>"

text \<open>The bytes a reader of the buffer sees.\<close>

definition buf_bytes :: "heap \<Rightarrow> Buffer \<Rightarrow> bytes" where
  "buf_bytes h b = read_heap h (b_pPos b) (nat (AvailableLength b))"

subsection \<open>Memory\<close>

lemma length_read_heap [simp]: "length (read_heap h a n) = n"
  by (simp add: read_heap_def)

lemma read_write_same [simp]: "read_heap (write_heap a bs h) a (length bs) = bs"
  by (rule nth_equalityI) (simp_all add: read_heap_def write_heap_def)

lemma read_write_other: "a + n \<le> c \<or> c + length bs \<le> a \<Longrightarrow> read_heap (write_heap c bs h) a n = read_heap h a n"
  by (auto simp: read_heap_def write_heap_def)

lemma read_heap_add: "read_heap h a (m + n) = read_heap h a m @ read_heap h (a + m) n"
  using upt_add_eq_append [of a "a + m" n] by (simp add: read_heap_def add.assoc)

lemma drop_read_heap: "drop m (read_heap h a n) = read_heap h (a + m) (n - m)"
  by (cases "m \<le> n") (simp_all add: read_heap_def drop_map)

subsection \<open>The window\<close>

text \<open>
  The invariant of the class: the flag is the comparison of the pointers.  A window lies in its block.
\<close>

definition buf_ok :: "Buffer \<Rightarrow> bool" where
  "buf_ok b =
    (b_bAvailable b = (b_pStart b \<noteq> 0 \<and> b_pEnd b \<noteq> 0 \<and> b_pPos b \<noteq> 0 \<and> b_pLast b \<noteq> 0 \<and> b_pPos b \<le> b_pLast b))"

lemma check_available_ok [simp]: "buf_ok (check_available b)"
  by (simp add: buf_ok_def check_available_def)

lemma check_available_fields [simp]:
  "b_pPos (check_available b) = b_pPos b" "b_pLast (check_available b) = b_pLast b"
  "b_pStart (check_available b) = b_pStart b" "b_pEnd (check_available b) = b_pEnd b"
  "b_pMpObject (check_available b) = b_pMpObject b" "b_bOwn (check_available b) = b_bOwn b"
  by (simp_all add: check_available_def)

lemma int32_id: "- (2 ^ 31) \<le> i \<Longrightarrow> i < 2 ^ 31 \<Longrightarrow> int32 i = i"
  by (simp add: int32_def)

lemma AvailableLength_window:
  assumes "buf_ok b" "b_pLast b < b_pPos b + 2 ^ 31"
  shows "AvailableLength b = (if b_bAvailable b then int (b_pLast b + 1 - b_pPos b) else 0)"
  using assms by (auto simp: AvailableLength_def buf_ok_def int32_id)

lemma buf_bytes_window:
  assumes "b_bAvailable b" "buf_ok b" "b_pLast b < b_pPos b + 2 ^ 31"
  shows "buf_bytes h b = read_heap h (b_pPos b) (b_pLast b + 1 - b_pPos b)"
  using AvailableLength_window [OF assms(2,3)] assms(1) by (simp add: buf_bytes_def nat_diff_distrib')

text \<open>Every operation keeps the flag in step with the pointers, MoveTailBack only on a valid or tail-less buffer.\<close>

lemma Buffer_ops_ok [simp]:
  "buf_ok (Buffer_ctor p l s e m own)" "buf_ok (snd (Refresh p l s e m own b))"
  "buf_ok (SetPos p b)" "buf_ok (SetLast l b)"
  "buf_ok b \<Longrightarrow> buf_ok (MoveHeadBack n b)" "buf_ok b \<Longrightarrow> buf_ok (fst (BZero b h))"
  "buf_ok b \<Longrightarrow> b_pLast b = 0 \<or> b_bAvailable b \<Longrightarrow> buf_ok (MoveTailBack n b)"
  by (auto simp: Buffer_ctor_def Refresh_def BZero_def MoveHeadBack_def SetPos_def SetLast_def MoveTailBack_def)
    (auto simp: buf_ok_def)

text \<open>
  C29: MoveTailBack does not look at the pointers again when the buffer has a tail, so a reader that has
  consumed everything (MoveHeadBack moved the head past the tail) sees no byte after more have been
  appended: the window is not empty, yet Valid says no and AvailableLength is 0.
\<close>

theorem MoveTailBack_stale_flag:
  assumes "Valid b" "buf_ok b" "n = b_pLast b + 1 - b_pPos b" "0 < k" "b' = MoveTailBack k (MoveHeadBack n b)"
  shows "b_pPos b' \<le> b_pLast b' \<and> \<not> Valid b' \<and> AvailableLength b' = 0"
  using assms by (auto simp: Valid_def buf_ok_def MoveTailBack_def MoveHeadBack_def check_available_def AvailableLength_def)

theorem MoveTailBack_stale_flag_witness:
  "\<not> Valid (MoveTailBack 4 (MoveHeadBack 2 (Buffer_ctor 100 101 100 163 7 True)))"
  using MoveTailBack_stale_flag [of "Buffer_ctor 100 101 100 163 7 True" 2 4]
  by (simp add: Valid_def Buffer_ctor_def check_available_def buf_ok_def)

subsection \<open>Ownership\<close>

datatype buf_op = OpRefresh nat nat nat nat nat bool | OpPut | OpReset | OpMoveHeadBack nat | OpMoveTailBack nat
  | OpSetPos nat | OpSetLast nat | OpSetStart nat | OpSetEnd nat | OpBZero heap

fun buf_step :: "buf_op \<Rightarrow> Buffer \<Rightarrow> release \<times> Buffer" where
  "buf_step (OpRefresh p l s e m own) b = Refresh p l s e m own b"
| "buf_step OpPut b = Buffer_Put b"
| "buf_step OpReset b = Buffer_Reset b"
| "buf_step (OpMoveHeadBack n) b = (Keep, MoveHeadBack n b)"
| "buf_step (OpMoveTailBack n) b = (Keep, MoveTailBack n b)"
| "buf_step (OpSetPos p) b = (Keep, SetPos p b)"
| "buf_step (OpSetLast l) b = (Keep, SetLast l b)"
| "buf_step (OpSetStart s) b = (Keep, SetStart s b)"
| "buf_step (OpSetEnd e) b = (Keep, SetEnd e b)"
| "buf_step (OpBZero h) b = (Keep, fst (BZero b h))"

text \<open>What a buffer releases over a sequence of operations and its destruction, and what it was given to own.\<close>

fun buf_released :: "buf_op list \<Rightarrow> Buffer \<Rightarrow> release list" where
  "buf_released [] b = filter (\<lambda>r. r \<noteq> Keep) [fst (Buffer_dtor b)]"
| "buf_released (op # ops) b = (case buf_step op b of (r, b) \<Rightarrow> filter (\<lambda>r. r \<noteq> Keep) [r] @ buf_released ops b)"

fun buf_acquired :: "buf_op list \<Rightarrow> release list" where
  "buf_acquired [] = []"
| "buf_acquired (OpRefresh p l s e m own # ops) =
    (if own then [if m \<noteq> 0 then PutObject m else DeleteArray s] else []) @ buf_acquired ops"
| "buf_acquired (_ # ops) = buf_acquired ops"

definition owned_block :: "Buffer \<Rightarrow> release list" where
  "owned_block b = (if b_bOwn b then [if b_pMpObject b \<noteq> 0 then PutObject (b_pMpObject b) else DeleteArray (b_pStart b)] else [])"

text \<open>
  Refresh finds an array again by the start pointer.  The sequences of operations in which SetStart
  does not move that pointer while the buffer owns an array.
\<close>

fun start_kept :: "buf_op list \<Rightarrow> Buffer \<Rightarrow> bool" where
  "start_kept [] b = True"
| "start_kept (op # ops) b =
    ((case op of OpSetStart s \<Rightarrow> b_bOwn b \<and> b_pMpObject b = 0 \<longrightarrow> s = b_pStart b | _ \<Rightarrow> True) \<and> start_kept ops (snd (buf_step op b)))"

lemma buf_step_owned:
  "start_kept [op] b \<Longrightarrow>
    filter (\<lambda>r. r \<noteq> Keep) [fst (buf_step op b)] @ owned_block (snd (buf_step op b)) = owned_block b @ buf_acquired [op]"
  by (cases op) (auto simp: owned_block_def Refresh_def Buffer_Put_def Buffer_Reset_def MoveHeadBack_def MoveTailBack_def
      SetPos_def SetLast_def SetStart_def SetEnd_def BZero_def)

lemma buf_acquired_Cons: "buf_acquired (op # ops) = buf_acquired [op] @ buf_acquired ops"
  by (cases op) auto

lemma buf_released_owned: "start_kept ops b \<Longrightarrow> buf_released ops b = owned_block b @ buf_acquired ops"
proof (induction ops arbitrary: b)
  case Nil
  show ?case by (simp add: Buffer_dtor_def Buffer_Put_def Refresh_def owned_block_def)
next
  case (Cons op ops)
  have "buf_released (op # ops) b =
      (filter (\<lambda>r. r \<noteq> Keep) [fst (buf_step op b)] @ owned_block (snd (buf_step op b))) @ buf_acquired ops"
    using Cons.IH Cons.prems by (simp add: split_beta)
  also have "\<dots> = owned_block b @ buf_acquired (op # ops)"
    using buf_step_owned [of op b] Cons.prems unfolding buf_acquired_Cons [of op ops] by simp
  finally show ?case .
qed

text \<open>
  C28: over any sequence of the operations of the class and the destructor, a buffer releases every block
  it was given to own exactly once, in order: nothing leaks and nothing is freed twice.  The one thing a
  caller must not do is to move the start pointer with SetStart while the buffer owns an array that is
  not an object of the pool: then the buffer deletes the pointer it was moved to, and the array leaks.
\<close>

theorem Buffer_releases_once:
  "(start_kept ops Buffer_default \<longrightarrow> buf_released ops Buffer_default = buf_acquired ops) \<and>
   (s \<noteq> s' \<longrightarrow> buf_released [OpRefresh p l s e 0 True, OpSetStart s'] Buffer_default = [DeleteArray s'] \<and>
      buf_acquired [OpRefresh p l s e 0 True, OpSetStart s'] = [DeleteArray s])"
  by (simp add: buf_released_owned owned_block_def Buffer_default_def Refresh_def SetStart_def Buffer_dtor_def Buffer_Put_def)

theorem Buffer_releases_once_witness:
  "buf_released [OpRefresh 8 9 8 15 0 True, OpMoveHeadBack 1, OpRefresh 32 33 32 47 5 True, OpSetStart 36, OpPut] Buffer_default =
    [DeleteArray 8, PutObject 5] \<and>
   buf_released [OpRefresh 8 9 8 15 0 True, OpSetStart 12] Buffer_default = [DeleteArray 12]"
  using Buffer_releases_once [of "[OpRefresh 8 9 8 15 0 True, OpMoveHeadBack 1, OpRefresh 32 33 32 47 5 True, OpSetStart 36, OpPut]" 8 12 8 9 15]
  by (simp add: Buffer_default_def Refresh_def MoveHeadBack_def)

end
