(* ===== verification/KvEntries.thy ===== *)
theory KvEntries
  imports Buffer Entry
begin

text \<open>
  kv/entries: the entries MiniKV stores, a raw key/value message in the checkpoint (RawPbEntryEntry), a
  put and a delete record in the log (WalPutEntry, WalDeleteEntry), and utils/protobuf-utils.cc.  The
  methods run on buffers and memory as in the source; \<open>kv_wal_ops\<close> and \<open>kv_cp_ops\<close> are the same
  entries as the log and the checkpoint see them, and the refinement lemmas connect the two.

  The message type is proto/meta.proto. Its serialisation is generated code and a library: the record
  \<open>protobuf\<close> stands for it, and \<open>pb_ok\<close> states what protobuf documents.
\<close>

record PbEntry =
  pb_key :: bytes
  pb_value :: bytes

record protobuf =
  ByteSize :: "PbEntry \<Rightarrow> nat"
  SerializeToArray :: "PbEntry \<Rightarrow> bytes option"
  ParseFromArray :: "bytes \<Rightarrow> PbEntry option"

text \<open>SerializeToArray writes ByteSize bytes, and parsing what was written gives the message back.\<close>

definition pb_ok :: "protobuf \<Rightarrow> bool" where
  "pb_ok pb = (\<forall>e bs. SerializeToArray pb e = Some bs \<longrightarrow> length bs = ByteSize pb e \<and> ParseFromArray pb bs = Some e)"

datatype EntryType = RawEntry | WalPut | WalDelete

fun EntryType_code :: "EntryType \<Rightarrow> byte" where
  "EntryType_code RawEntry = 1"
| "EntryType_code WalPut = 2"
| "EntryType_code WalDelete = 3"

datatype KvEntry =
    RawPbEntryEntry "PbEntry option"
  | WalPutEntry "PbEntry option"
  | WalDeleteEntry "bytes option" nat

fun TypeId :: "KvEntry \<Rightarrow> EntryType" where
  "TypeId (RawPbEntryEntry _) = RawEntry"
| "TypeId (WalPutEntry _) = WalPut"
| "TypeId (WalDeleteEntry _ _) = WalDelete"

subsection \<open>Protobuf on buffers\<close>

definition Deserialize :: "protobuf \<Rightarrow> Buffer \<Rightarrow> heap \<Rightarrow> PbEntry option" where
  "Deserialize pb b h = ParseFromArray pb (buf_bytes h b)"

text \<open>\<open>mo\<close> is what the memory pool returned: pointer and size of the object; \<open>fst mo\<close> also names it.\<close>

definition Serialize_mp :: "protobuf \<Rightarrow> PbEntry \<Rightarrow> nat \<times> nat \<Rightarrow> Buffer \<Rightarrow> heap \<Rightarrow> (Buffer \<times> heap) option" where
  "Serialize_mp pb e mo to h =
    (let len = unat (word_of_nat (ByteSize pb e) :: u32); start = fst mo
     in case SerializeToArray pb e of
          None \<Rightarrow> None
        | Some bs \<Rightarrow> Some (snd (Refresh start (start + len - 1) start (start + snd mo - 1) (fst mo) True to), write_heap start bs h))"

definition Serialize :: "protobuf \<Rightarrow> PbEntry \<Rightarrow> Buffer \<Rightarrow> heap \<Rightarrow> heap option" where
  "Serialize pb e to h = (case SerializeToArray pb e of None \<Rightarrow> None | Some bs \<Rightarrow> Some (write_heap (b_pPos to) bs h))"

subsection \<open>Encode and Decode on buffers\<close>

definition RawPbEntryEntry_Encode :: "protobuf \<Rightarrow> PbEntry option \<Rightarrow> nat \<times> nat \<Rightarrow> heap \<Rightarrow> (Buffer \<times> heap) option" where
  "RawPbEntryEntry_Encode pb cnt mo h =
    (case cnt of None \<Rightarrow> None | Some e \<Rightarrow> Serialize_mp pb e mo Buffer_default h)"

definition RawPbEntryEntry_Decode :: "protobuf \<Rightarrow> Buffer \<Rightarrow> heap \<Rightarrow> PbEntry option option" where
  "RawPbEntryEntry_Decode pb b h =
    (if \<not> Valid b then None
     else case Deserialize pb b h of None \<Rightarrow> None | Some e \<Rightarrow> Some (Some e))"

definition WalPutEntry_Encode :: "protobuf \<Rightarrow> PbEntry option \<Rightarrow> nat \<times> nat \<Rightarrow> heap \<Rightarrow> (Buffer \<times> heap) option" where
  "WalPutEntry_Encode pb cnt mo h =
    (case cnt of
       None \<Rightarrow> None
     | Some e \<Rightarrow>
         let pbSize = ByteSize pb e;
             totalLen = pbSize + 1;
             start = fst mo;
             b = snd (Refresh start (start + totalLen - 1) start (start + snd mo - 1) (fst mo) True Buffer_default);
             h = write_heap (b_pPos b) [EntryType_code WalPut] h;
             b = MoveHeadBack 1 b
         in case Serialize pb e b h of
              None \<Rightarrow> None
            | Some h \<Rightarrow> Some (SetPos start b, h))"

definition WalPutEntry_Decode :: "protobuf \<Rightarrow> Buffer \<Rightarrow> heap \<Rightarrow> PbEntry option option" where
  "WalPutEntry_Decode pb b h =
    (if \<not> Valid b then None
     else let b = MoveHeadBack 1 b
          in if \<not> Valid b then None
             else case Deserialize pb b h of None \<Rightarrow> None | Some e \<Rightarrow> Some (Some e))"

definition WalDeleteEntry_Encode :: "bytes option \<Rightarrow> nat \<Rightarrow> nat \<times> nat \<Rightarrow> heap \<Rightarrow> (Buffer \<times> heap) option" where
  "WalDeleteEntry_Encode cnt iSize mo h =
    (case cnt of
       None \<Rightarrow> None
     | Some c \<Rightarrow>
         let totalLen = iSize + 1;
             start = fst mo;
             b = snd (Refresh start (start + totalLen - 1) start (start + snd mo - 1) (fst mo) True Buffer_default);
             h = write_heap (b_pPos b) [EntryType_code WalDelete] h;
             b = MoveHeadBack 1 b;
             h = write_heap (b_pPos b) (take iSize c) h
         in Some (SetPos start b, h))"

text \<open>The content gets a terminating NUL, \<open>m_iSize\<close> is not touched.\<close>

definition WalDeleteEntry_Decode :: "nat \<Rightarrow> Buffer \<Rightarrow> heap \<Rightarrow> (bytes option \<times> nat) option" where
  "WalDeleteEntry_Decode iSize b h =
    (if \<not> Valid b then None
     else let b = MoveHeadBack 1 b
          in if \<not> Valid b then None
             else Some (Some (buf_bytes h b @ [0]), iSize))"

subsection \<open>The entries of the log and of the checkpoint\<close>

fun kv_Encode :: "protobuf \<Rightarrow> KvEntry \<Rightarrow> bytes option" where
  "kv_Encode pb (RawPbEntryEntry cnt) = (case cnt of None \<Rightarrow> None | Some e \<Rightarrow> SerializeToArray pb e)"
| "kv_Encode pb (WalPutEntry cnt) =
    (case cnt of None \<Rightarrow> None
     | Some e \<Rightarrow> map_option (\<lambda>bs. EntryType_code WalPut # bs) (SerializeToArray pb e))"
| "kv_Encode pb (WalDeleteEntry cnt iSize) =
    (case cnt of None \<Rightarrow> None | Some c \<Rightarrow> Some (EntryType_code WalDelete # take iSize c))"

text \<open>A buffer of the given bytes; one that is not valid holds none.\<close>

fun kv_Decode :: "protobuf \<Rightarrow> KvEntry \<Rightarrow> bytes \<Rightarrow> KvEntry option" where
  "kv_Decode pb (RawPbEntryEntry _) cnt =
    (if cnt = [] then None else map_option (\<lambda>e. RawPbEntryEntry (Some e)) (ParseFromArray pb cnt))"
| "kv_Decode pb (WalPutEntry _) cnt =
    (if length cnt < 2 then None else map_option (\<lambda>e. WalPutEntry (Some e)) (ParseFromArray pb (tl cnt)))"
| "kv_Decode pb (WalDeleteEntry _ iSize) cnt =
    (if length cnt < 2 then None else Some (WalDeleteEntry (Some (tl cnt @ [0])) iSize))"

definition create_wal_new_entry :: "bytes \<Rightarrow> KvEntry option" where
  "create_wal_new_entry b =
    (let type = hd b
     in if type = EntryType_code WalPut then Some (WalPutEntry None)
        else if type = EntryType_code WalDelete then Some (WalDeleteEntry None 0)
        else None)"

definition create_checkpoint_new_entry :: "bytes \<Rightarrow> KvEntry option" where
  "create_checkpoint_new_entry b = Some (RawPbEntryEntry None)"

definition kv_wal_ops :: "protobuf \<Rightarrow> KvEntry entry_ops" where
  "kv_wal_ops pb = \<lparr>Encode = kv_Encode pb, Create = create_wal_new_entry, Decode = kv_Decode pb\<rparr>"

definition kv_cp_ops :: "protobuf \<Rightarrow> KvEntry entry_ops" where
  "kv_cp_ops pb = \<lparr>Encode = kv_Encode pb, Create = create_checkpoint_new_entry, Decode = kv_Decode pb\<rparr>"

text \<open>The creators look at the type byte only, as the readers of log and checkpoint require.\<close>

interpretation kvw: local_entries "kv_wal_ops pb" for pb
  by unfold_locales (simp add: create_local_def kv_wal_ops_def create_wal_new_entry_def)

interpretation kvc: local_entries "kv_cp_ops pb" for pb
  by unfold_locales (simp add: create_local_def kv_cp_ops_def create_checkpoint_new_entry_def)

subsection \<open>Refinement\<close>

text \<open>A fresh object of the pool with room for \<open>n\<close> bytes.\<close>

definition mo_fits :: "nat \<times> nat \<Rightarrow> nat \<Rightarrow> bool" where
  "mo_fits mo n = (0 < fst mo \<and> n \<le> snd mo \<and> 0 < n \<and> n < 2 ^ 31)"

lemma window_bytes:
  assumes "b_bAvailable b" "buf_ok b" "b_pLast b + 1 = b_pPos b + length bs" "length bs < 2 ^ 31"
    and "read_heap h (b_pPos b) (length bs) = bs"
  shows "Valid b \<and> buf_bytes h b = bs"
proof -
  have "b_pLast b < b_pPos b + 2 ^ 31" "b_pLast b + 1 - b_pPos b = length bs" using assms(3,4) by simp_all
  with buf_bytes_window [OF assms(1,2)] assms(1,5) show ?thesis by (simp add: Valid_def)
qed

lemma tagged_write: "read_heap (write_heap (Suc a) bs (write_heap a [t] h)) a (Suc (length bs)) = t # bs"
proof -
  have "read_heap (write_heap (Suc a) bs (write_heap a [t] h)) a (1 + length bs) = [t] @ bs"
    unfolding read_heap_add using read_write_same [of a "[t]" h] by (simp add: read_write_other)
  then show ?thesis by simp
qed

lemma encoded_window:
  assumes "mo_fits mo (length bs)" "b_pPos b = fst mo" "b_pLast b = fst mo + length bs - 1"
    and "b_pStart b = fst mo" "b_pEnd b = fst mo + snd mo - 1" "buf_ok b" "read_heap h (fst mo) (length bs) = bs"
  shows "Valid b" "buf_bytes h b = bs"
proof -
  have m: "0 < fst mo" "0 < length bs" "length bs \<le> snd mo" "length bs < 2 ^ 31" using assms(1) by (simp_all add: mo_fits_def)
  have "b_pLast b \<noteq> 0" "b_pEnd b \<noteq> 0" "b_pPos b \<le> b_pLast b" "b_pLast b + 1 = b_pPos b + length bs"
    unfolding assms(2-5) using m(1-3) by linarith+
  moreover from this have "b_bAvailable b" using assms(2,4,6) m(1) by (simp add: buf_ok_def)
  ultimately show "Valid b" "buf_bytes h b = bs" using window_bytes [of b bs h] assms m(4) by simp_all
qed

text \<open>The encoder the dynamic type of an entry selects.\<close>

definition buf_Encode :: "protobuf \<Rightarrow> KvEntry \<Rightarrow> nat \<times> nat \<Rightarrow> heap \<Rightarrow> (Buffer \<times> heap) option" where
  "buf_Encode pb e mo h =
    (case e of RawPbEntryEntry cnt \<Rightarrow> RawPbEntryEntry_Encode pb cnt mo h
     | WalPutEntry cnt \<Rightarrow> WalPutEntry_Encode pb cnt mo h
     | WalDeleteEntry cnt n \<Rightarrow> WalDeleteEntry_Encode cnt n mo h)"

lemma buf_Encode_None: "kv_Encode pb e = None \<Longrightarrow> buf_Encode pb e mo h = None"
  by (cases e) (auto simp: buf_Encode_def RawPbEntryEntry_Encode_def Serialize_mp_def WalPutEntry_Encode_def Serialize_def
      WalDeleteEntry_Encode_def Let_def split: option.splits)

text \<open>
  C19: the encoders on buffers refine the entries as the log and the checkpoint see them: they fail on the
  same entries, and otherwise the returned buffer is valid and holds exactly the encoded bytes.
\<close>

theorem Encode_refines:
  assumes "pb_ok pb" "\<And>bs. kv_Encode pb e = Some bs \<Longrightarrow> mo_fits mo (length bs)"
    and "\<And>c n. e = WalDeleteEntry (Some c) n \<Longrightarrow> n \<le> length c"
  shows "map_option (\<lambda>(b, h). (Valid b, buf_bytes h b)) (buf_Encode pb e mo h) = map_option (\<lambda>bs. (True, bs)) (kv_Encode pb e)"
proof (cases "kv_Encode pb e")
  case None
  then show ?thesis by (simp add: buf_Encode_None)
next
  case (Some bs)
  note w = encoded_window(1) [OF assms(2) [OF Some] _ _ _ _ _ read_write_same] encoded_window(2) [OF assms(2) [OF Some]]
  have mo: "0 < fst mo" using assms(2) [OF Some] by (simp add: mo_fits_def)
  have "\<exists>b h'. buf_Encode pb e mo h = Some (b, h') \<and> Valid b \<and> buf_bytes h' b = bs"
  proof (cases e)
    case (RawPbEntryEntry cnt)
    with Some obtain x where x: "cnt = Some x" "SerializeToArray pb x = Some bs" by (auto split: option.splits)
    then have "unat (word_of_nat (ByteSize pb x) :: u32) = length bs"
      using assms(1) assms(2) [OF Some] by (simp add: pb_ok_def mo_fits_def unat_word_of_nat_u32)
    with x w RawPbEntryEntry show ?thesis
      by (simp add: buf_Encode_def RawPbEntryEntry_Encode_def Serialize_mp_def Refresh_def Let_def)
  next
    case (WalPutEntry cnt)
    with Some obtain x cs where x: "cnt = Some x" "SerializeToArray pb x = Some cs" "bs = 2 # cs"
      by (auto split: option.splits)
    then have "ByteSize pb x = length cs" using assms(1) by (simp add: pb_ok_def)
    with x w WalPutEntry mo show ?thesis
      by (simp add: buf_Encode_def WalPutEntry_Encode_def Serialize_def Refresh_def MoveHeadBack_def SetPos_def tagged_write Let_def)
  next
    case (WalDeleteEntry cnt n)
    with Some obtain c where x: "cnt = Some c" "bs = 3 # take n c" by (auto split: option.splits)
    have "length (take n c) = n" using assms(3) WalDeleteEntry x(1) by simp
    with x w WalDeleteEntry mo tagged_write [of "fst mo" "take n c" 3 h] show ?thesis
      by (simp add: buf_Encode_def WalDeleteEntry_Encode_def Refresh_def MoveHeadBack_def SetPos_def Let_def)
  qed
  with Some show ?thesis by auto
qed

text \<open>A message format for concrete runs: the lengths of key and value as one byte each.\<close>

definition small_pb :: protobuf where
  "small_pb = \<lparr>ByteSize = (\<lambda>e. length (pb_key e) + length (pb_value e) + 1),
     SerializeToArray = (\<lambda>e. if length (pb_key e) < 256 then Some (word_of_nat (length (pb_key e)) # pb_key e @ pb_value e) else None),
     ParseFromArray = (\<lambda>bs. case bs of [] \<Rightarrow> None
       | n # cs \<Rightarrow> if length cs < unat n then None else Some \<lparr>pb_key = take (unat n) cs, pb_value = drop (unat n) cs\<rparr>)\<rparr>"

lemma small_pb_ok: "pb_ok small_pb"
  by (simp add: pb_ok_def small_pb_def unat_of_nat)

theorem Encode_refines_witness:
  "map_option (\<lambda>(b, h). (Valid b, buf_bytes h b))
     (buf_Encode small_pb (WalPutEntry (Some \<lparr>pb_key = [7], pb_value = [8, 9]\<rparr>)) (4096, 32) (\<lambda>_. 0)) =
   Some (True, [2, 1, 7, 8, 9])"
  using Encode_refines [OF small_pb_ok, of "WalPutEntry (Some \<lparr>pb_key = [7], pb_value = [8, 9]\<rparr>)" "(4096, 32)" "\<lambda>_. 0"]
  by (simp add: small_pb_def mo_fits_def)

text \<open>The decoders on buffers: the same result as on the bytes the buffer holds, for every buffer.\<close>

lemma MoveHeadBack_bytes:
  assumes "buf_ok b" "b_pLast b < b_pPos b + 2 ^ 31" "Valid b"
  shows "Valid (MoveHeadBack 1 b) = (2 \<le> length (buf_bytes h b))"
    "Valid (MoveHeadBack 1 b) \<Longrightarrow> buf_bytes h (MoveHeadBack 1 b) = tl (buf_bytes h b)"
proof -
  have b: "b_pStart b \<noteq> 0" "b_pEnd b \<noteq> 0" "b_pPos b \<noteq> 0" "b_pLast b \<noteq> 0" "b_pPos b \<le> b_pLast b"
    using assms(1,3) by (auto simp: buf_ok_def Valid_def)
  have len: "buf_bytes h b = read_heap h (b_pPos b) (b_pLast b + 1 - b_pPos b)"
    using buf_bytes_window assms by (simp add: Valid_def)
  show v: "Valid (MoveHeadBack 1 b) = (2 \<le> length (buf_bytes h b))"
    unfolding len using b by (auto simp: Valid_def MoveHeadBack_def check_available_def)
  assume "Valid (MoveHeadBack 1 b)"
  moreover have "buf_ok (MoveHeadBack 1 b)" using assms(1) by simp
  ultimately have "buf_bytes h (MoveHeadBack 1 b) = read_heap h (b_pPos b + 1) (b_pLast b + 1 - (b_pPos b + 1))"
    using buf_bytes_window [of "MoveHeadBack 1 b" h] assms(2) b by (simp add: Valid_def MoveHeadBack_def)
  then show "buf_bytes h (MoveHeadBack 1 b) = tl (buf_bytes h b)"
    unfolding len using drop_read_heap [of 1 h "b_pPos b"] by (simp add: drop_Suc)
qed

text \<open>
  C20: the decoders on a buffer give what the decoders on its bytes give, errors included: an invalid
  buffer and a log entry that ends after its type byte are refused.
\<close>

theorem Decode_refines:
  assumes "buf_ok b" "b_pLast b < b_pPos b + 2 ^ 31"
  shows "map_option RawPbEntryEntry (RawPbEntryEntry_Decode pb b h) = kv_Decode pb (RawPbEntryEntry x) (buf_bytes h b) \<and>
    map_option WalPutEntry (WalPutEntry_Decode pb b h) = kv_Decode pb (WalPutEntry x) (buf_bytes h b) \<and>
    map_option (\<lambda>(c, n). WalDeleteEntry c n) (WalDeleteEntry_Decode n b h) = kv_Decode pb (WalDeleteEntry y n) (buf_bytes h b)"
proof (cases "Valid b")
  case False
  then have "buf_bytes h b = []" by (simp add: buf_bytes_def AvailableLength_def Valid_def read_heap_def)
  with False show ?thesis by (simp add: RawPbEntryEntry_Decode_def WalPutEntry_Decode_def WalDeleteEntry_Decode_def)
next
  case True
  note m = MoveHeadBack_bytes [OF assms True, of h]
  have "buf_bytes h b \<noteq> []"
    using buf_bytes_window [of b h] True assms by (auto simp: buf_ok_def Valid_def dest: arg_cong [of _ _ length])
  moreover have "(\<not> length (buf_bytes h b) < 2) = Valid (MoveHeadBack 1 b)" unfolding m(1) by auto
  ultimately show ?thesis
    using True m by (cases "Valid (MoveHeadBack 1 b)")
      (auto simp: RawPbEntryEntry_Decode_def WalPutEntry_Decode_def WalDeleteEntry_Decode_def Deserialize_def
        split: option.splits)
qed

theorem Decode_refines_witness:
  "WalPutEntry_Decode small_pb (Buffer_ctor 100 103 100 131 9 True) (write_heap 100 [2, 1, 7, 8] (\<lambda>_. 0)) =
   Some (Some \<lparr>pb_key = [7], pb_value = [8]\<rparr>)"
proof -
  let ?b = "Buffer_ctor 100 103 100 131 9 True" and ?h = "write_heap 100 [2, 1, 7, 8] (\<lambda>_. 0)"
  have "buf_bytes ?h ?b = [2, 1, 7, 8]"
    using window_bytes [of ?b "[2, 1, 7, 8]" ?h] read_write_same [of 100 "[2, 1, 7, 8]" "\<lambda>_. 0"]
    by (simp add: Buffer_ctor_def) (simp add: check_available_def)
  then have "map_option WalPutEntry (WalPutEntry_Decode small_pb ?b ?h) =
      Some (WalPutEntry (Some \<lparr>pb_key = [7], pb_value = [8]\<rparr>))"
    using Decode_refines [of ?b small_pb ?h None 0 None] by (simp add: Buffer_ctor_def small_pb_def)
  then show ?thesis by auto
qed

text \<open>What the entries come back as, from the log and from the checkpoint.\<close>

lemma kv_stored:
  assumes "pb_ok pb"
  shows "SerializeToArray pb e = Some bs \<Longrightarrow> bs \<noteq> [] \<Longrightarrow> stored (kv_wal_ops pb) (WalPutEntry (Some e)) = WalPutEntry (Some e)"
    "SerializeToArray pb e = Some bs \<Longrightarrow> bs \<noteq> [] \<Longrightarrow> stored (kv_cp_ops pb) (RawPbEntryEntry (Some e)) = RawPbEntryEntry (Some e)"
    "k \<noteq> [] \<Longrightarrow> stored (kv_wal_ops pb) (WalDeleteEntry (Some k) (length k)) = WalDeleteEntry (Some (k @ [0])) 0"
  using assms
  by (auto simp: stored_def kv_wal_ops_def kv_cp_ops_def decode_entry_def create_wal_new_entry_def
      create_checkpoint_new_entry_def pb_ok_def Let_def neq_Nil_conv)

end
