(* ===== verification/MiniKv.thy ===== *)
theory MiniKv
  imports StdMap KvEntries Wal Checkpoint
begin

text \<open>
  kv/mini-kv: the key/value store on top of the log and the checkpoint, and the traveller that hands
  its entries to a checkpoint.
\<close>

subsection \<open>Keys\<close>

text \<open>memcmp: the sign of the first difference.\<close>

fun memcmp :: "bytes \<Rightarrow> bytes \<Rightarrow> nat \<Rightarrow> int" where
  "memcmp (x # xs) (y # ys) (Suc n) = (if x < y then -1 else if y < x then 1 else memcmp xs ys n)"
| "memcmp _ _ _ = 0"

definition Key_less :: "bytes \<Rightarrow> bytes \<Rightarrow> bool" where
  "Key_less a b =
    (let minLen = (if length a < length b then length a else length b);
         lessThanB = length a < length b;
         rs = memcmp a b minLen
     in if rs < 0 then True else if rs = 0 then lessThanB else False)"

lemma Key_less_simps [simp]:
  "Key_less [] b = (b \<noteq> [])" "Key_less (x # xs) [] = False"
  "Key_less (x # xs) (y # ys) = (x < y \<or> x = y \<and> Key_less xs ys)"
  by (auto simp: Key_less_def Let_def)

lemma Key_less_irrefl: "\<not> Key_less a a"
  by (induction a) auto

lemma Key_less_trans: "Key_less a b \<Longrightarrow> Key_less b c \<Longrightarrow> Key_less a c"
proof (induction a arbitrary: b c)
  case Nil
  then show ?case by (cases b; cases c) auto
next
  case (Cons x xs)
  then obtain y ys z zs where "b = y # ys" "c = z # zs" by (cases b; cases c) auto
  with Cons show ?case by auto
qed

lemma Key_less_total: "\<not> Key_less a b \<Longrightarrow> \<not> Key_less b a \<Longrightarrow> a = b"
proof (induction a arbitrary: b)
  case Nil
  then show ?case by simp
next
  case (Cons x xs)
  then obtain y ys where "b = y # ys" by (cases b) auto
  with Cons show ?case by auto
qed

interpretation kv: key_order Key_less
  by unfold_locales (fact Key_less_irrefl Key_less_trans Key_less_total)+

subsection \<open>Messages\<close>

text \<open>The messages of proto/kvrpc.proto; the texts of kv/mini-kv/errors.h, or the message of a log error.\<close>

datatype Code = OK | ArgsErr | InternalErr

datatype SortOrder = Asc | Desc

datatype errmsg = NoMsg | ServiceIsStoppedError | EntryOrKeyIsEmptyError | KeyIsEmptyError | WalErrmsg wal_code

record PutResponse =
  put_rc :: Code
  put_errmsg :: errmsg

record GetResponse =
  get_rc :: Code
  get_entry :: "PbEntry option"
  get_errmsg :: errmsg

record DeleteResponse =
  del_rc :: Code
  del_errmsg :: errmsg

record ScanRequest =
  startKey :: bytes
  containStartKey :: bool
  order :: SortOrder
  limit :: u32

record ScanResponse =
  scan_rc :: Code
  scan_entries :: "PbEntry list"
  scan_errmsg :: errmsg

subsection \<open>State\<close>

record KVConfig =
  kc_Type :: string
  kc_AccConfPath :: path
  kc_WalType :: string
  kc_WalRootDirPath :: path
  kc_WalWriteEntryVersion :: byte
  kc_WalMaxSegmentSize :: u32
  kc_WalReadBatchSize :: u32
  kc_CheckpointType :: string
  kc_CheckpointRootDirPath :: path
  kc_CheckpointWriteEntryVersion :: byte
  kc_CheckpointReadBatchSize :: u32
  kc_CheckWalSizeTickSeconds :: u32
  kc_DoCheckpointWalSizeBytes :: u32

definition walConf :: "KVConfig \<Rightarrow> LogCleanWalConfig" where
  "walConf pc = \<lparr>RootDirPath = kc_WalRootDirPath pc, WriteEntryVersion = kc_WalWriteEntryVersion pc,
    MaxSegmentSize = kc_WalMaxSegmentSize pc, ReadBatchSize = kc_WalReadBatchSize pc\<rparr>"

definition checkpointConf :: "KVConfig \<Rightarrow> EntryOrderCheckpointConfig" where
  "checkpointConf pc = \<lparr>cpc_RootDirPath = kc_CheckpointRootDirPath pc,
    cpc_WriteEntryVersion = kc_CheckpointWriteEntryVersion pc, cpc_BatchReadSize = kc_CheckpointReadBatchSize pc\<rparr>"

text \<open>The factories; None is a null pointer, or the constructor's fatal error.\<close>

definition WALFactory_CreateInstance :: "string \<Rightarrow> LogCleanWalConfig \<Rightarrow> LogCleanWal option" where
  "WALFactory_CreateInstance type pc = (if type = ''log-clean'' then LogCleanWal_ctor pc else None)"

definition CheckpointFactory_CreateInstance :: "string \<Rightarrow> EntryOrderCheckpointConfig \<Rightarrow> EntryOrderCheckpoint option" where
  "CheckpointFactory_CreateInstance type pc = (if type = ''entry-order'' then Some (EntryOrderCheckpoint_ctor pc) else None)"

type_synonym kvs = "(bytes \<times> PbEntry) list"

text \<open>
  \<open>k_timer\<close> counts the registered timer events. \<open>k_walLock\<close> is the mutex around the log.
\<close>

record MiniKV =
  k_bStopped :: bool
  k_kvs :: kvs
  k_wal :: LogCleanWal
  k_checkpoint :: EntryOrderCheckpoint
  k_walLock :: bool
  k_tick :: u32
  k_triggerSize :: u32
  k_applyId :: u64
  k_bCheck :: bool
  k_timer :: nat

text \<open>
  The constructor, without the granter, which no request asks; None is a fatal error.  The last applied
  id, which the source leaves uninitialised and Start sets before any use, is 0.  The keys of the
  map point into the text of the entry that was first put under them; that entry is never freed while
  the key is in the map, since an overwrite leaks it.
\<close>

definition MiniKV_ctor :: "KVConfig \<Rightarrow> MiniKV option" where
  "MiniKV_ctor pc =
    (case WALFactory_CreateInstance (kc_WalType pc) (walConf pc) of
       None \<Rightarrow> None
     | Some wal \<Rightarrow>
         (case CheckpointFactory_CreateInstance (kc_CheckpointType pc) (checkpointConf pc) of
            None \<Rightarrow> None
          | Some cp \<Rightarrow>
              Some \<lparr>k_bStopped = True, k_kvs = [], k_wal = wal, k_checkpoint = cp,
                k_walLock = False, k_tick = kc_CheckWalSizeTickSeconds pc, k_triggerSize = kc_DoCheckpointWalSizeBytes pc,
                k_applyId = 0, k_bCheck = False, k_timer = 0\<rparr>))"

definition KVFactory_CreateInstance :: "KVConfig \<Rightarrow> MiniKV option" where
  "KVFactory_CreateInstance pc = (if kc_Type pc = ''mini'' then MiniKV_ctor pc else None)"

subsection \<open>Start\<close>

text \<open>An entry of the checkpoint carries its key; \<open>Get()\<close> of an entry without content is a null pointer (None).\<close>

fun on_checkpoint_load_entry :: "KvEntry list \<Rightarrow> kvs \<Rightarrow> kvs option" where
  "on_checkpoint_load_entry [] kvs = Some kvs"
| "on_checkpoint_load_entry (p # es) kvs =
    (case p of
       RawPbEntryEntry (Some e) \<Rightarrow> on_checkpoint_load_entry es (sm_set Key_less (pb_key e) e kvs)
     | _ \<Rightarrow> None)"

definition strlen :: "bytes \<Rightarrow> nat" where
  "strlen s = length (takeWhile (\<lambda>c. c \<noteq> 0) s)"

text \<open>None is the fatal error on an unknown entry type, or a null pointer.\<close>

fun on_wal_load_entries :: "(u64 \<times> KvEntry) list \<Rightarrow> kvs \<times> u64 \<Rightarrow> (kvs \<times> u64) option" where
  "on_wal_load_entries [] (kvs, applyId) = Some (kvs, applyId)"
| "on_wal_load_entries ((i, p) # es) (kvs, applyId) =
    (if applyId > i then on_wal_load_entries es (kvs, applyId)
     else case p of
         WalDeleteEntry (Some kStr) _ \<Rightarrow> on_wal_load_entries es (sm_erase Key_less (take (strlen kStr) kStr) kvs, i)
       | WalPutEntry (Some e) \<Rightarrow> on_wal_load_entries es (sm_set Key_less (pb_key e) e kvs, i)
       | _ \<Rightarrow> None)"

text \<open>The handlers run once per batch.\<close>

fun load_batches :: "('b \<Rightarrow> 's \<Rightarrow> 's option) \<Rightarrow> 'b list \<Rightarrow> 's \<Rightarrow> 's option" where
  "load_batches f [] s = Some s"
| "load_batches f (b # bs) s = (case f b s of None \<Rightarrow> None | Some s \<Rightarrow> load_batches f bs s)"

definition register_trigger_check_wal_timer :: "MiniKV \<Rightarrow> MiniKV" where
  "register_trigger_check_wal_timer kv = kv\<lparr>k_timer := k_timer kv + 1\<rparr>"

text \<open>None when a handler aborts the process.\<close>

definition Start :: "protobuf \<Rightarrow> MiniKV \<Rightarrow> world \<Rightarrow> (bool \<times> MiniKV \<times> world) option" where
  "Start pb kv w =
    (case cp_Init (k_checkpoint kv) w of
       (rc, cp, w) \<Rightarrow>
         let kv = kv\<lparr>k_checkpoint := cp\<rparr>
         in if rc \<noteq> C_OK then Some (False, kv, w)
            else case cp_Load (kv_cp_ops pb) cp w of
                (cpLoadRs, batches, w) \<Rightarrow>
                  (case load_batches on_checkpoint_load_entry batches (k_kvs kv) of
                     None \<Rightarrow> None
                   | Some kvs \<Rightarrow>
                       let kv = kv\<lparr>k_kvs := kvs\<rparr>
                       in case cpLoadRs of
                            Inl rc \<Rightarrow> Some (False, kv, w)
                          | Inr maxId \<Rightarrow>
                              let kv = kv\<lparr>k_applyId := maxId\<rparr>
                              in case Init (k_wal kv) w of
                                   (rc, wal, w) \<Rightarrow>
                                     let kv = kv\<lparr>k_wal := wal\<rparr>
                                     in if rc \<noteq> W_OK then Some (False, kv, w)
                                        else case Load (kv_wal_ops pb) wal w of
                                            (rc, batches, wal, w) \<Rightarrow>
                                              let kv = kv\<lparr>k_wal := wal\<rparr>
                                              in case load_batches on_wal_load_entries batches (k_kvs kv, k_applyId kv) of
                                                   None \<Rightarrow> None
                                                 | Some (kvs, applyId) \<Rightarrow>
                                                     let kv = kv\<lparr>k_kvs := kvs, k_applyId := applyId\<rparr>
                                                     in if rc = W_OK
                                                        then Some (True, register_trigger_check_wal_timer (kv\<lparr>k_bStopped := False\<rparr>), w)
                                                        else Some (False, kv, w)))"

definition Stop :: "MiniKV \<Rightarrow> bool \<times> MiniKV" where
  "Stop kv = (True, kv\<lparr>k_bStopped := True\<rparr>)"

subsection \<open>Requests\<close>

text \<open>
  A request that waits for the mutex of the log while it is held, and is never released, does not
  return: None.  \<open>req\<close> of Put is the entry of the request, if it has one.
\<close>

definition Put :: "protobuf \<Rightarrow> PbEntry option \<Rightarrow> MiniKV \<Rightarrow> world \<Rightarrow> (PutResponse \<times> MiniKV \<times> world) option" where
  "Put pb req kv w =
    (if k_bStopped kv then Some (\<lparr>put_rc = InternalErr, put_errmsg = ServiceIsStoppedError\<rparr>, kv, w)
     else case req of
         None \<Rightarrow> Some (\<lparr>put_rc = ArgsErr, put_errmsg = EntryOrKeyIsEmptyError\<rparr>, kv, w)
       | Some e \<Rightarrow>
           if pb_key e = [] then Some (\<lparr>put_rc = ArgsErr, put_errmsg = EntryOrKeyIsEmptyError\<rparr>, kv, w)
           else if k_walLock kv then None
           else case AppendEntry (kv_wal_ops pb) (k_wal kv) (WalPutEntry (Some e)) w of
               (Inl rc, wal, w) \<Rightarrow> Some (\<lparr>put_rc = InternalErr, put_errmsg = WalErrmsg rc\<rparr>, kv\<lparr>k_wal := wal\<rparr>, w)
             | (Inr i, wal, w) \<Rightarrow>
                 Some (\<lparr>put_rc = OK, put_errmsg = NoMsg\<rparr>,
                   kv\<lparr>k_kvs := sm_set Key_less (pb_key e) e (k_kvs kv), k_wal := wal,
                       k_applyId := (if k_applyId kv < i then i else k_applyId kv)\<rparr>, w))"

definition Get :: "bytes \<Rightarrow> MiniKV \<Rightarrow> GetResponse" where
  "Get key kv =
    (if k_bStopped kv then \<lparr>get_rc = InternalErr, get_entry = None, get_errmsg = ServiceIsStoppedError\<rparr>
     else if key = [] then \<lparr>get_rc = ArgsErr, get_entry = None, get_errmsg = KeyIsEmptyError\<rparr>
     else \<lparr>get_rc = OK, get_entry = sm_find Key_less key (k_kvs kv), get_errmsg = NoMsg\<rparr>)"

definition Delete :: "protobuf \<Rightarrow> bytes \<Rightarrow> MiniKV \<Rightarrow> world \<Rightarrow> (DeleteResponse \<times> MiniKV \<times> world) option" where
  "Delete pb key kv w =
    (if k_bStopped kv then Some (\<lparr>del_rc = InternalErr, del_errmsg = ServiceIsStoppedError\<rparr>, kv, w)
     else if key = [] then Some (\<lparr>del_rc = ArgsErr, del_errmsg = KeyIsEmptyError\<rparr>, kv, w)
     else if k_walLock kv then None
     else case AppendEntry (kv_wal_ops pb) (k_wal kv) (WalDeleteEntry (Some key) (length key)) w of
         (Inl rc, wal, w) \<Rightarrow> Some (\<lparr>del_rc = InternalErr, del_errmsg = WalErrmsg rc\<rparr>, kv\<lparr>k_wal := wal\<rparr>, w)
       | (Inr i, wal, w) \<Rightarrow>
           Some (\<lparr>del_rc = OK, del_errmsg = NoMsg\<rparr>,
             kv\<lparr>k_kvs := sm_erase Key_less key (k_kvs kv), k_wal := wal,
                 k_applyId := (if k_applyId kv < i then i else k_applyId kv)\<rparr>, w))"

text \<open>
  The loops of Scan from the position \<open>i\<close> on.  Moving the iterator back from the first element is
  undefined (None).
\<close>

fun scan_asc :: "kvs \<Rightarrow> nat \<Rightarrow> PbEntry list" where
  "scan_asc [] n = []"
| "scan_asc (x # xs) n = (if n = 0 then [] else snd x # scan_asc xs (n - 1))"

fun scan_desc :: "kvs \<Rightarrow> nat \<Rightarrow> nat \<Rightarrow> PbEntry list option" where
  "scan_desc kvs i 0 = Some []"
| "scan_desc kvs 0 (Suc n) = None"
| "scan_desc kvs (Suc i) (Suc n) = map_option (\<lambda>es. snd (kvs ! Suc i) # es) (scan_desc kvs i n)"

definition Scan :: "ScanRequest \<Rightarrow> MiniKV \<Rightarrow> ScanResponse option" where
  "Scan req kv =
    (if k_bStopped kv then Some \<lparr>scan_rc = InternalErr, scan_entries = [], scan_errmsg = ServiceIsStoppedError\<rparr>
     else if limit req = 0 then Some \<lparr>scan_rc = OK, scan_entries = [], scan_errmsg = NoMsg\<rparr>
     else
       let kvs = k_kvs kv;
           iter = sm_lower_bound Key_less (startKey req) kvs
       in if iter = length kvs then Some \<lparr>scan_rc = OK, scan_entries = [], scan_errmsg = NoMsg\<rparr>
          else
            let first = (if containStartKey req then [snd (kvs ! iter)] else []);
                left = unat (limit req) - length first
            in map_option (\<lambda>es. \<lparr>scan_rc = OK, scan_entries = first @ es, scan_errmsg = NoMsg\<rparr>)
                 (case order req of
                    Asc \<Rightarrow> Some (scan_asc (drop (Suc iter) kvs) left)
                  | Desc \<Rightarrow> if iter = 0 then None else scan_desc kvs (iter - 1) left))"

text \<open>The requests that update the store, and whether it acknowledged them.\<close>

datatype kv_req = PutReq "PbEntry option" | DeleteReq bytes

fun kv_run :: "protobuf \<Rightarrow> kv_req \<Rightarrow> MiniKV \<times> world \<Rightarrow> (bool \<times> MiniKV \<times> world) option" where
  "kv_run pb (PutReq e) (kv, w) = map_option (\<lambda>(r, s). (put_rc r = OK, s)) (Put pb e kv w)"
| "kv_run pb (DeleteReq k) (kv, w) = map_option (\<lambda>(r, s). (del_rc r = OK, s)) (Delete pb k kv w)"

subsection \<open>Checkpoints\<close>

definition on_checkpoint_prepare :: "MiniKV \<Rightarrow> MiniKV" where
  "on_checkpoint_prepare kv = kv\<lparr>k_walLock := True\<rparr>"

definition on_checkpoint_complete_prepare :: "MiniKV \<Rightarrow> MiniKV" where
  "on_checkpoint_complete_prepare kv = kv\<lparr>k_walLock := False\<rparr>"

text \<open>
  The traveller is constructed before Save, without a lock: it takes the last applied id and the
  iterator to the first element.  The iterator is the key of its element, None for the end of the map.
  What it enumerates later are the elements from that one on, in the map as it is then.
\<close>

definition map_begin :: "kvs \<Rightarrow> bytes option" where
  "map_begin kvs = (case kvs of [] \<Rightarrow> None | x # _ \<Rightarrow> Some (fst x))"

definition elements_from :: "bytes option \<Rightarrow> kvs \<Rightarrow> kvs" where
  "elements_from cur kvs = (case cur of None \<Rightarrow> [] | Some k \<Rightarrow> dropWhile (\<lambda>x. fst x \<noteq> k) kvs)"

definition MiniKVTraveller :: "bytes option \<Rightarrow> u64 \<Rightarrow> (MiniKV, KvEntry) IEntriesTraveller" where
  "MiniKVTraveller cur maxId =
    \<lparr>Prepare = on_checkpoint_prepare, CompletePrepare = on_checkpoint_complete_prepare,
     Entries = (\<lambda>kv. map (\<lambda>x. RawPbEntryEntry (Some (snd x))) (elements_from cur (k_kvs kv))), MaxId = (\<lambda>_. maxId)\<rparr>"

definition trigger_check_wal :: "MiniKV \<Rightarrow> MiniKV" where
  "trigger_check_wal kv = kv\<lparr>k_bCheck := True\<rparr>"

text \<open>
  The requests other threads run while the checker holds no lock, each of them atomic under the mutex of
  the log.  One that waits for the mutex while nobody will release it changes nothing.  The flag tells
  that the element of the iterator \<open>cur\<close> has stayed in the map: erasing it invalidates the iterator.
\<close>

definition iterator_valid :: "bytes option \<Rightarrow> kvs \<Rightarrow> bool" where
  "iterator_valid cur kvs = (case cur of None \<Rightarrow> True | Some k \<Rightarrow> map_of kvs k \<noteq> None)"

fun run_others :: "protobuf \<Rightarrow> bytes option \<Rightarrow> kv_req list \<Rightarrow> MiniKV \<times> world \<Rightarrow> bool \<times> MiniKV \<times> world" where
  "run_others pb cur [] s = (True, s)"
| "run_others pb cur (r # rs) s =
    (let s = (case kv_run pb r s of None \<Rightarrow> s | Some (_, s) \<Rightarrow> s);
         (valid, s') = run_others pb cur rs s
     in (iterator_valid cur (k_kvs (fst s)) \<and> valid, s'))"

text \<open>Save gets as far as Prepare, and as far as the child.\<close>

definition Save_prepares :: "EntryOrderCheckpoint \<Rightarrow> world \<Rightarrow> bool" where
  "Save_prepares st w = (cp_bInited st \<and> fst (IsLocking (cp_sLockPath st) w) \<notin> {-1, 1})"

definition Save_forks :: "EntryOrderCheckpoint \<Rightarrow> world \<Rightarrow> bool" where
  "Save_forks st w = (Save_prepares st w \<and> fst (sys_fork (snd (IsLocking (cp_sLockPath st) w))))"

text \<open>
  check_wal up to the return of Save.  Other threads run the requests \<open>rs\<close> between the construction of the
  traveller and Prepare; a request that is half done while the traveller reads the map and the id without
  a lock is a data race and is left out, and so are requests between Size, which only reads the sizes of
  the segments, and the construction.  None is a fatal error, a wait for ever in Prepare, or a child that enumerates
  from an iterator whose element is gone.
\<close>

definition check_wal_save ::
    "protobuf \<Rightarrow> kv_req list \<Rightarrow> MiniKV \<Rightarrow> world \<Rightarrow> (u64 option \<times> MiniKV \<times> world) option" where
  "check_wal_save pb rs kv w =
    (case Size (k_wal kv) w of
       (Inl rc, w) \<Rightarrow> None
     | (Inr sz, w) \<Rightarrow>
         if sz \<ge> ucast (k_triggerSize kv)
         then let cur = map_begin (k_kvs kv);
                  traveller = MiniKVTraveller cur (k_applyId kv);
                  (valid, kv, w) = run_others pb cur rs (kv, w)
              in if k_walLock kv \<and> Save_prepares (k_checkpoint kv) w then None
                 else if \<not> valid \<and> Save_forks (k_checkpoint kv) w then None
                 else case cp_Save (kv_cp_ops pb) (k_checkpoint kv) traveller kv w of
                     (Inr maxId, kv, w) \<Rightarrow> Some (Some maxId, kv, w)
                   | (Inl rc, kv, w) \<Rightarrow> Some (None, kv, w)
         else Some (None, kv, w))"

definition check_wal_truncate :: "u64 option \<Rightarrow> MiniKV \<Rightarrow> world \<Rightarrow> (MiniKV \<times> world) option" where
  "check_wal_truncate cpRs kv w =
    (case cpRs of
       None \<Rightarrow> Some (register_trigger_check_wal_timer kv, w)
     | Some maxId \<Rightarrow>
         if k_walLock kv then None
         else case Truncate (k_wal kv) maxId w of
             (rc, wal, w) \<Rightarrow>
               if rc \<noteq> W_OK then None
               else Some (register_trigger_check_wal_timer (kv\<lparr>k_wal := wal\<rparr>), w))"

text \<open>
  Save releases the mutex right after the fork, and check_wal takes it again for Truncate: other threads
  run the requests \<open>rs'\<close> in between.  The child works on a copy of the memory and on files that requests
  do not touch, so that it may run before them.
\<close>

definition check_wal :: "protobuf \<Rightarrow> kv_req list \<Rightarrow> kv_req list \<Rightarrow> MiniKV \<Rightarrow> world \<Rightarrow> (MiniKV \<times> world) option" where
  "check_wal pb rs rs' kv w =
    (let kv = kv\<lparr>k_bCheck := False\<rparr>
     in if k_bStopped kv then Some (kv, w)
        else case check_wal_save pb rs kv w of
            None \<Rightarrow> None
          | Some (cpRs, kv, w) \<Rightarrow> (let (_, kv, w) = run_others pb None rs' (kv, w) in check_wal_truncate cpRs kv w))"

end
