(* ===== verification/KvStore.thy ===== *)
theory KvStore
  imports MiniKv
begin

text \<open>
  The requests of the key/value store against the map they implement: under every schedule of system
  calls, a request that is acknowledged updates the map, one that is not leaves it unchanged.
\<close>

subsection \<open>The map in memory\<close>

text \<open>The elements are in key order and every element is stored under the key of its entry.\<close>

definition kv_ok :: "kvs \<Rightarrow> bool" where
  "kv_ok kvs = (sm_ok Key_less kvs \<and> (\<forall>x \<in> set kvs. pb_key (snd x) = fst x))"

named_theorems kv_laws

lemma kv_ok_nil [simp]: "kv_ok []"
  by (simp add: kv_ok_def)

lemma kv_ok_set [kv_laws]: "kv_ok kvs \<Longrightarrow> kv_ok (sm_set Key_less (pb_key e) e kvs)"
  by (fastforce simp: kv_ok_def kv.sm_set_ok dest: kv.sm_set_value)

lemma kv_ok_erase [kv_laws]: "kv_ok kvs \<Longrightarrow> kv_ok (sm_erase Key_less k kvs)"
  using kv.set_sm_erase [of k kvs] by (auto simp: kv_ok_def kv.sm_erase_ok)

lemma kv_ok_map [kv_laws]:
  "kv_ok kvs \<Longrightarrow> sm_find Key_less k kvs = map_of kvs k"
  "kv_ok kvs \<Longrightarrow> map_of (sm_set Key_less k e kvs) = (map_of kvs)(k \<mapsto> e)"
  "kv_ok kvs \<Longrightarrow> map_of (sm_erase Key_less k kvs) = (map_of kvs)(k := None)"
  by (simp_all add: kv_ok_def kv.sm_find_map_of kv.map_of_sm_set kv.map_of_sm_erase)

text \<open>Loading keeps the map well formed.\<close>

lemma on_checkpoint_load_entry_ok: "on_checkpoint_load_entry es kvs = Some kvs' \<Longrightarrow> kv_ok kvs \<Longrightarrow> kv_ok kvs'"
  by (induction es kvs rule: on_checkpoint_load_entry.induct) (auto simp: kv_laws split: KvEntry.splits option.splits)

lemma on_wal_load_entries_ok: "on_wal_load_entries es s = Some (kvs', i') \<Longrightarrow> kv_ok (fst s) \<Longrightarrow> kv_ok kvs'"
  by (induction es s rule: on_wal_load_entries.induct)
    (auto simp: kv_laws split: if_splits KvEntry.splits option.splits)

lemma load_batches_inv:
  assumes "\<And>b s s'. f b s = Some s' \<Longrightarrow> I s \<Longrightarrow> I s'"
  shows "load_batches f bs s = Some s' \<Longrightarrow> I s \<Longrightarrow> I s'"
  by (induction bs arbitrary: s) (auto split: option.splits intro: assms)

text \<open>One batch after the other is the same as all entries at once.\<close>

lemma on_checkpoint_load_append:
  "on_checkpoint_load_entry (xs @ ys) kvs = Option.bind (on_checkpoint_load_entry xs kvs) (on_checkpoint_load_entry ys)"
  by (induction xs kvs rule: on_checkpoint_load_entry.induct) (auto split: KvEntry.split option.split)

lemma on_wal_load_append:
  "on_wal_load_entries (xs @ ys) s = Option.bind (on_wal_load_entries xs s) (on_wal_load_entries ys)"
  by (induction xs s rule: on_wal_load_entries.induct) (auto split: KvEntry.split option.split)

lemma load_batches_concat:
  assumes "\<And>xs ys s. f (xs @ ys) s = Option.bind (f xs s) (f ys)" "\<And>s. f [] s = Some s"
  shows "load_batches f bs s = f (concat bs) s"
  by (induction bs arbitrary: s) (auto simp: assms split: option.split bind_split)

lemma on_wal_load_nil [simp]: "on_wal_load_entries [] s = Some s"
  by (cases s) simp

lemmas load_batches_all =
  load_batches_concat [of on_checkpoint_load_entry, OF on_checkpoint_load_append on_checkpoint_load_entry.simps(1)]
  load_batches_concat [of on_wal_load_entries, OF on_wal_load_append on_wal_load_nil]

subsection \<open>A service over a map\<close>

text \<open>Runs a sequence of requests; the result lists the acknowledged ones.\<close>

fun run_all :: "('r \<Rightarrow> 's \<Rightarrow> (bool \<times> 's) option) \<Rightarrow> 'r list \<Rightarrow> 's \<Rightarrow> ('r list \<times> 's) option" where
  "run_all run [] s = Some ([], s)"
| "run_all run (r # rs) s =
    (case run r s of
       None \<Rightarrow> None
     | Some (ok, s) \<Rightarrow> map_option (\<lambda>(acks, s). (if ok then r # acks else acks, s)) (run_all run rs s))"

locale map_service =
  fixes inv :: "'s \<Rightarrow> bool"
    and abs :: "'s \<Rightarrow> 'm"
    and run :: "'r \<Rightarrow> 's \<Rightarrow> (bool \<times> 's) option"
    and spec :: "'r \<Rightarrow> 'm \<Rightarrow> 'm"
  assumes inv_step: "inv s \<Longrightarrow> run r s = Some (ok, s') \<Longrightarrow> inv s'"
    and abs_step: "inv s \<Longrightarrow> run r s = Some (ok, s') \<Longrightarrow> abs s' = (if ok then spec r (abs s) else abs s)"
begin

lemma run_all_refines:
  "inv s \<Longrightarrow> run_all run rs s = Some (acks, s') \<Longrightarrow> inv s' \<and> abs s' = fold spec acks (abs s)"
proof (induction rs arbitrary: s acks)
  case (Cons r rs)
  obtain ok t acks' where t: "run r s = Some (ok, t)" "run_all run rs t = Some (acks', s')" "acks = (if ok then r # acks' else acks')"
    using Cons.prems(2) by (auto split: option.splits)
  with Cons.IH [OF inv_step [OF Cons.prems(1) t(1)] t(2)] abs_step [OF Cons.prems(1) t(1)] show ?case by auto
qed simp

end

text \<open>What the requests that update the store mean.\<close>

fun kv_spec :: "kv_req \<Rightarrow> (bytes \<rightharpoonup> PbEntry) \<Rightarrow> (bytes \<rightharpoonup> PbEntry)" where
  "kv_spec (PutReq (Some e)) m = m(pb_key e \<mapsto> e)"
| "kv_spec (PutReq None) m = m"
| "kv_spec (DeleteReq k) m = m(k := None)"

fun kv_serving :: "MiniKV \<times> world \<Rightarrow> bool" where
  "kv_serving (kv, w) = (kv_ok (k_kvs kv) \<and> \<not> k_bStopped kv)"

fun kv_map :: "MiniKV \<times> world \<Rightarrow> (bytes \<rightharpoonup> PbEntry)" where
  "kv_map (kv, w) = map_of (k_kvs kv)"

lemma Put_step:
  assumes "Put pb req kv w = Some (r, kv', w')" "kv_serving (kv, w)"
  shows "kv_serving (kv', w') \<and> kv_map (kv', w') = (if put_rc r = OK then kv_spec (PutReq req) (kv_map (kv, w)) else kv_map (kv, w))"
  using assms by (auto simp: Put_def kv_laws split: option.splits if_splits sum.splits prod.splits)

lemma Delete_step:
  assumes "Delete pb k kv w = Some (r, kv', w')" "kv_serving (kv, w)"
  shows "kv_serving (kv', w') \<and> kv_map (kv', w') = (if del_rc r = OK then kv_spec (DeleteReq k) (kv_map (kv, w)) else kv_map (kv, w))"
  using assms by (auto simp: Delete_def kv_laws split: option.splits if_splits sum.splits prod.splits)

interpretation kvm: map_service kv_serving kv_map "kv_run pb" kv_spec for pb
proof
  fix s r ok s'
  assume a: "kv_serving s" "kv_run pb r s = Some (ok, s')"
  obtain kv w kv' w' where s: "s = (kv, w)" "s' = (kv', w')" by (cases s; cases s')
  from a show "kv_serving s'"
    by (cases r) (auto simp: s simp del: kv_serving.simps dest: Put_step Delete_step)
  from a show "kv_map s' = (if ok then kv_spec r (kv_map s) else kv_map s)"
    by (cases r) (auto simp: s simp del: kv_serving.simps kv_map.simps dest: Put_step Delete_step)
qed

subsection \<open>Scan\<close>

lemma scan_asc_take: "scan_asc xs n = map snd (take n xs)"
  by (induction xs n rule: scan_asc.induct) (auto simp: take_Cons')

lemma scan_desc_take:
  "i < length kvs \<Longrightarrow> scan_desc kvs i n = (if n \<le> i then Some (map snd (take n (rev (take (Suc i) kvs)))) else None)"
proof (induction kvs i n rule: scan_desc.induct)
  case (3 kvs i n)
  have "rev (take (Suc (Suc i)) kvs) = kvs ! Suc i # rev (take (Suc i) kvs)"
    using 3(2) by (simp add: take_Suc_conv_app_nth)
  with 3 show ?case by simp
qed simp_all

text \<open>The elements from the start key on, and those before it, nearest first.\<close>

definition from_key :: "bytes \<Rightarrow> kvs \<Rightarrow> kvs" where
  "from_key k kvs = filter (\<lambda>x. \<not> Key_less (fst x) k) kvs"

definition before_key :: "bytes \<Rightarrow> kvs \<Rightarrow> kvs" where
  "before_key k kvs = rev (filter (\<lambda>x. Key_less (fst x) k) kvs)"

lemma scan_position:
  assumes "kv_ok kvs" "i = sm_lower_bound Key_less k kvs"
  shows "i \<le> length kvs" "drop i kvs = from_key k kvs" "rev (take i kvs) = before_key k kvs"
    "i = length kvs \<longleftrightarrow> from_key k kvs = []" "i = length (before_key k kvs)"
proof -
  have ok: "sm_ok Key_less kvs" using assms(1) by (simp add: kv_ok_def)
  note split = kv.lower_bound_split [OF ok, of k]
  show "i \<le> length kvs" by (simp add: assms(2) sm_lower_bound_def length_takeWhile_le)
  moreover from this have "i = length (take i kvs)" by simp
  ultimately show "drop i kvs = from_key k kvs" "rev (take i kvs) = before_key k kvs" "i = length kvs \<longleftrightarrow> from_key k kvs = []"
    "i = length (before_key k kvs)"
    using split drop_eq_Nil [of i kvs] by (auto simp: assms(2) from_key_def before_key_def simp del: drop_eq_Nil)
qed

text \<open>A configuration and a store with three keys, for the witnesses.\<close>

definition demo_conf :: KVConfig where
  "demo_conf = \<lparr>kc_Type = ''mini'', kc_AccConfPath = [], kc_WalType = ''log-clean'', kc_WalRootDirPath = ''/w'',
     kc_WalWriteEntryVersion = 1, kc_WalMaxSegmentSize = 60, kc_WalReadBatchSize = 100, kc_CheckpointType = ''entry-order'',
     kc_CheckpointRootDirPath = ''/c'', kc_CheckpointWriteEntryVersion = 1, kc_CheckpointReadBatchSize = 100,
     kc_CheckWalSizeTickSeconds = 1, kc_DoCheckpointWalSizeBytes = 10\<rparr>"

definition demo_world :: world where
  "demo_world = \<lparr>w_files = [], w_dirs = [''/w'', ''/c''], w_sched = [], w_errno = ENONE, s_LockingFiles = [], w_flocks = []\<rparr>"

definition demo_kv :: MiniKV where
  "demo_kv = (the (MiniKV_ctor demo_conf))\<lparr>k_bStopped := False, k_kvs :=
    [([1], \<lparr>pb_key = [1], pb_value = [7]\<rparr>), ([3], \<lparr>pb_key = [3], pb_value = [8]\<rparr>), ([5], \<lparr>pb_key = [5], pb_value = []\<rparr>)]\<rparr>"

lemma demo_kv_ok: "kv_ok (k_kvs demo_kv)" "\<not> k_bStopped demo_kv"
  by (simp_all add: demo_kv_def kv_ok_def)

text \<open>
  C21: an ascending Scan with the start key answers the entries of the keys that are not less than the
  start key, in key order, at most limit of them.  Without the start key it drops the first of
  these, whether or not that is the start key itself.
\<close>

theorem Scan_ascending:
  assumes "kv_ok (k_kvs kv)" "\<not> k_bStopped kv" "order req = Asc"
  shows "Scan req kv = Some \<lparr>scan_rc = OK,
    scan_entries = map snd (take (unat (limit req))
      (if containStartKey req then from_key (startKey req) (k_kvs kv) else tl (from_key (startKey req) (k_kvs kv)))),
    scan_errmsg = NoMsg\<rparr>"
proof -
  define i where "i = sm_lower_bound Key_less (startKey req) (k_kvs kv)"
  note p = scan_position [OF assms(1) i_def]
  show ?thesis
  proof (cases "limit req = 0 \<or> i = length (k_kvs kv)")
    case True
    with assms p(4) show ?thesis by (auto simp: Scan_def i_def [symmetric])
  next
    case False
    then have "i < length (k_kvs kv)" using p(1) by simp
    then have d: "from_key (startKey req) (k_kvs kv) = k_kvs kv ! i # drop (Suc i) (k_kvs kv)"
      using p(2) by (simp add: Cons_nth_drop_Suc)
    have "0 < unat (limit req)" using False by (simp add: unat_gt_0)
    with False assms d show ?thesis
      by (auto simp: Scan_def i_def [symmetric] scan_asc_take Let_def take_Cons')
  qed
qed

theorem Scan_ascending_witness:
  "map_option scan_entries (Scan \<lparr>startKey = [2], containStartKey = False, order = Asc, limit = 9\<rparr> demo_kv) =
   Some [\<lparr>pb_key = [5], pb_value = []\<rparr>]"
  using Scan_ascending [OF demo_kv_ok, of "\<lparr>startKey = [2], containStartKey = False, order = Asc, limit = 9\<rparr>"]
  by (simp add: demo_kv_def from_key_def)

text \<open>
  C22: a descending Scan that finds an element at or after the start key answers that element, if the
  start key is wanted, and then the entries before it, nearest first, provided that it reaches the
  limit before it comes to the smallest key; if it does not, the loop moves the iterator back from the
  first element.
\<close>

theorem Scan_descending:
  assumes "kv_ok (k_kvs kv)" "\<not> k_bStopped kv" "order req = Desc" "limit req \<noteq> 0"
    "from_key (startKey req) (k_kvs kv) \<noteq> []"
  shows "Scan req kv =
    (let first = (if containStartKey req then [hd (from_key (startKey req) (k_kvs kv))] else []);
         rest = before_key (startKey req) (k_kvs kv);
         left = unat (limit req) - length first
     in if left < length rest
        then Some \<lparr>scan_rc = OK, scan_entries = map snd (first @ take left rest), scan_errmsg = NoMsg\<rparr>
        else None)"
proof -
  define i where "i = sm_lower_bound Key_less (startKey req) (k_kvs kv)"
  note p = scan_position [OF assms(1) i_def]
  have i: "i < length (k_kvs kv)" using p(1,4) assms(5) by simp
  then have h: "hd (from_key (startKey req) (k_kvs kv)) = k_kvs kv ! i"
    using p(2) by (metis hd_drop_conv_nth)
  show ?thesis
  proof (cases i)
    case 0
    with assms i p(5) show ?thesis by (simp add: Scan_def i_def [symmetric] Let_def)
  next
    case (Suc j)
    with assms i h p(3,5) show ?thesis
      by (auto simp: Scan_def i_def [symmetric] Let_def scan_desc_take)
  qed
qed

theorem Scan_descending_witness:
  "map_option scan_entries (Scan \<lparr>startKey = [5], containStartKey = True, order = Desc, limit = 2\<rparr> demo_kv) =
     Some [\<lparr>pb_key = [5], pb_value = []\<rparr>, \<lparr>pb_key = [3], pb_value = [8]\<rparr>] \<and>
   Scan \<lparr>startKey = [5], containStartKey = True, order = Desc, limit = 3\<rparr> demo_kv = None"
  using Scan_descending [OF demo_kv_ok, of "\<lparr>startKey = [5], containStartKey = True, order = Desc, limit = 2\<rparr>"]
    Scan_descending [OF demo_kv_ok, of "\<lparr>startKey = [5], containStartKey = True, order = Desc, limit = 3\<rparr>"]
  by (simp add: demo_kv_def from_key_def before_key_def Let_def)

subsection \<open>The invariant\<close>

text \<open>
  Every state the object can reach: it is constructed, then any of its operations runs, in any order,
  each in a world of its own (any files, any schedule of system calls).
\<close>

inductive kv_reachable :: "protobuf \<Rightarrow> KVConfig \<Rightarrow> MiniKV \<Rightarrow> bool" for pb pc where
  constructed: "MiniKV_ctor pc = Some kv \<Longrightarrow> kv_reachable pb pc kv"
| started: "kv_reachable pb pc kv \<Longrightarrow> Start pb kv w = Some (ok, kv', w') \<Longrightarrow> kv_reachable pb pc kv'"
| put: "kv_reachable pb pc kv \<Longrightarrow> Put pb req kv w = Some (r, kv', w') \<Longrightarrow> kv_reachable pb pc kv'"
| deleted: "kv_reachable pb pc kv \<Longrightarrow> Delete pb k kv w = Some (d, kv', w') \<Longrightarrow> kv_reachable pb pc kv'"
| triggered: "kv_reachable pb pc kv \<Longrightarrow> kv_reachable pb pc (trigger_check_wal kv)"
| checked: "kv_reachable pb pc kv \<Longrightarrow> check_wal pb rs rs' kv w = Some (kv', w') \<Longrightarrow> kv_reachable pb pc kv'"
| stopped: "kv_reachable pb pc kv \<Longrightarrow> kv_reachable pb pc (snd (Stop kv))"

lemma Put_kv_ok: "Put pb req kv w = Some (r, kv', w') \<Longrightarrow> kv_ok (k_kvs kv) \<Longrightarrow> kv_ok (k_kvs kv')"
  by (auto simp: Put_def kv_laws split: option.splits if_splits sum.splits prod.splits)

lemma Delete_kv_ok: "Delete pb k kv w = Some (r, kv', w') \<Longrightarrow> kv_ok (k_kvs kv) \<Longrightarrow> kv_ok (k_kvs kv')"
  by (auto simp: Delete_def kv_laws split: option.splits if_splits sum.splits prod.splits)

lemma Start_kv_ok: "Start pb kv w = Some (ok, kv', w') \<Longrightarrow> kv_ok (k_kvs kv) \<Longrightarrow> kv_ok (k_kvs kv')"
  by (auto simp: Start_def Let_def load_batches_all register_trigger_check_wal_timer_def
      split: option.splits if_splits sum.splits prod.splits
      dest!: on_checkpoint_load_entry_ok on_wal_load_entries_ok)

lemma Save_client: "fst (snd (cp_Save ops st t s w)) \<in> {s, Prepare t s, CompletePrepare t (Prepare t s)}"
  by (simp add: cp_Save_def Let_def split_beta split: bool.split)

lemma Save_kvs: "cp_Save ops st (MiniKVTraveller cur i) kv w = (r, kv', w') \<Longrightarrow> k_kvs kv' = k_kvs kv"
  using Save_client [of ops st "MiniKVTraveller cur i" kv w]
  by (auto simp: MiniKVTraveller_def on_checkpoint_prepare_def on_checkpoint_complete_prepare_def)

lemma run_others_ok: "run_others pb cur rs (kv, w) = (v, kv', w') \<Longrightarrow> kv_ok (k_kvs kv) \<Longrightarrow> kv_ok (k_kvs kv')"
proof (induction rs arbitrary: kv w v)
  case (Cons r rs)
  obtain kv1 w1 where s: "(case kv_run pb r (kv, w) of None \<Rightarrow> (kv, w) | Some (_, s) \<Rightarrow> s) = (kv1, w1)" by fastforce
  then have "kv_ok (k_kvs kv1)" using Cons.prems(2) by (cases r) (auto split: option.splits dest: Put_kv_ok Delete_kv_ok)
  moreover obtain v1 where "run_others pb cur rs (kv1, w1) = (v1, kv', w')" using Cons.prems(1) s by (auto simp: Let_def split: prod.splits)
  ultimately show ?case using Cons.IH by blast
qed simp

lemma check_wal_save_ok:
  assumes "check_wal_save pb rs kv w = Some (r, kv', w')" "kv_ok (k_kvs kv)"
  shows "kv_ok (k_kvs kv')"
proof -
  obtain rc w1 where sz: "Size (k_wal kv) w = (rc, w1)" by fastforce
  obtain v kv1 w2 where o: "run_others pb (map_begin (k_kvs kv)) rs (kv, w1) = (v, kv1, w2)" by (metis surj_pair)
  have "kv_ok (k_kvs kv1)" by (rule run_others_ok [OF o assms(2)])
  moreover have "kv' = kv \<or> (\<exists>rc. cp_Save (kv_cp_ops pb) (k_checkpoint kv1) (MiniKVTraveller (map_begin (k_kvs kv)) (k_applyId kv)) kv1 w2 = (rc, kv', w'))"
    using assms(1) sz o by (auto simp: check_wal_save_def Let_def split: sum.splits if_splits prod.splits)
  ultimately show ?thesis using assms(2) Save_kvs by metis
qed

lemma check_wal_kv_ok:
  assumes "check_wal pb rs rs' kv w = Some (kv', w')" "kv_ok (k_kvs kv)"
  shows "kv_ok (k_kvs kv')"
proof (cases "k_bStopped kv")
  case False
  then obtain r kv1 w1 v kv2 w2 where s: "check_wal_save pb rs (kv\<lparr>k_bCheck := False\<rparr>) w = Some (r, kv1, w1)"
    "run_others pb None rs' (kv1, w1) = (v, kv2, w2)" "check_wal_truncate r kv2 w2 = Some (kv', w')"
    using assms(1) by (auto simp: check_wal_def split: option.splits prod.splits)
  have "kv_ok (k_kvs kv1)" by (rule check_wal_save_ok [OF s(1)]) (use assms(2) in simp)
  then have "kv_ok (k_kvs kv2)" by (rule run_others_ok [OF s(2)])
  moreover have "k_kvs kv' = k_kvs kv2"
    using s(3) by (auto simp: check_wal_truncate_def register_trigger_check_wal_timer_def split: option.splits if_splits prod.splits)
  ultimately show ?thesis by simp
qed (use assms in \<open>auto simp: check_wal_def\<close>)

text \<open>
  C14: in every state the store can reach, under any sequence of operations, any files on the disk and
  any failures, the map is in key order without duplicates and every entry lies under its own key.
\<close>

theorem kv_reachable_ok: "kv_reachable pb pc kv \<Longrightarrow> kv_ok (k_kvs kv)"
proof (induction rule: kv_reachable.induct)
  case (constructed kv)
  then show ?case by (auto simp: MiniKV_ctor_def split: option.splits)
qed (auto simp: trigger_check_wal_def Stop_def dest: Put_kv_ok Delete_kv_ok Start_kv_ok check_wal_kv_ok)

end
