(* ===== verification/CheckpointFrame.thy ===== *)
theory CheckpointFrame
  imports CheckpointCrash
begin

text \<open>
  The checkpoint touches its own files only, under every schedule: the frame a client relies on that
  keeps other files in the same world, such as the segments of the log.
\<close>

abbreviation (input) cp_own :: "EntryOrderCheckpoint \<Rightarrow> world \<Rightarrow> world \<Rightarrow> bool" where
  "cp_own st \<equiv> touches (set (cp_paths st)) {}"

lemma touches_read [touch]:
  "touches P D w (snd (ReadFully_V4 fd n w))" "touches P D w (snd (GetFileSize_fd fd w))" "touches P D w (snd (sys_getlk fd w))"
  by (rule touches_quiet; simp)+

lemma touches_processes [touch]: "touches P D w (snd (sys_fork w))" "touches P D w (snd (sys_waitpid w))"
  unfolding sys_fork_def sys_waitpid_def by (rule touches_syscall; simp)+

lemma touches_own: "cp_touches st w w' \<Longrightarrow> cp_own st w w'"
proof -
  assume "cp_touches st w w'"
  then have "touches (set (cp_paths st)) (set (cp_paths st)) w w'" by (rule touches_mono) (auto simp: cp_paths_def)
  then show ?thesis by (auto simp: touches_def)
qed

lemma touches_IsLocking: "touches P D w (snd (IsLocking p w))"
proof -
  let ?e = "sys_access p w"
  let ?o = "sys_open p False False (snd ?e)"
  let ?g = "sys_getlk (fst ?o) (snd ?o)"
  have t1: "touches P D w (snd ?e)" by (rule touches_sys(1))
  have t2: "touches P D w (snd ?o)" by (rule touches_trans [OF t1 touches_open_existing])
  have t3: "touches P D w (snd ?g)" by (rule touches_trans [OF t2 touches_read(3)])
  have t4: "touches P D w (snd (sys_close (fst ?o) (snd ?g)))" by (rule touches_trans [OF t3 touches_sys(3)])
  have "snd (IsLocking p w) \<in> {w, snd ?e, snd ?o, snd (sys_close (fst ?o) (snd ?g))}"
    by (cases "fst ?o") (simp_all add: IsLocking_def Open_def Let_def split_beta split: option.split bool.split)
  with t1 t2 t4 show ?thesis by fastforce
qed

lemma replace_old_checkpoint_own: "cp_own st w (snd (replace_old_checkpoint st w))"
proof -
  let ?u = "unlink_all [cp_sCpMetaFilePath st, cp_sCpFilePath st] w"
  let ?r = "sys_rename (cp_sNewCpMetaFilePath st) (cp_sCpMetaFilePath st) (snd ?u)"
  let ?s = "sys_rename (cp_sNewCpFilePath st) (cp_sCpFilePath st) (snd ?r)"
  have t1: "cp_own st w (snd ?u)" by (rule touches_unlink_all) simp
  have t2: "cp_own st w (snd ?r)" by (rule touches_trans [OF t1 touches_rename]) simp_all
  have t3: "cp_own st w (snd ?s)" by (rule touches_trans [OF t2 touches_rename]) simp_all
  have "snd (replace_old_checkpoint st w) \<in> {snd ?u, snd ?r, snd ?s}"
    by (cases "fst ?u") (simp_all add: replace_old_checkpoint_def split_beta del: unlink_all.simps split: bool.split)
  with t1 t2 t3 show ?thesis by fastforce
qed

lemma check_and_recover_own: "cp_own st w (snd (check_and_recover st w))"
proof -
  let ?d = "is_completed st w"
  let ?x = "Exist (cp_sNewCpSaveOkFilePath st) (snd ?d)"
  let ?r = "replace_old_checkpoint st (snd ?x)"
  let ?u = "sys_unlink (cp_sNewCpSaveOkFilePath st) (snd ?r)"
  let ?c = "clean_new_cp_tmp st (snd ?x)"
  have t1: "cp_own st w (snd ?d)" by (rule touches_is_completed)
  have t2: "cp_own st w (snd ?x)" by (rule touches_trans [OF t1 touches_Exist])
  have t3: "cp_own st w (snd ?r)" by (rule touches_trans [OF t2 replace_old_checkpoint_own])
  have t4: "cp_own st w (snd ?u)" by (rule touches_trans [OF t3 touches_unlink]) simp
  have t5: "cp_own st w (snd ?c)" unfolding clean_new_cp_tmp_def by (rule touches_trans [OF t2 touches_unlink_all]) simp
  have "snd (check_and_recover st w) \<in> {snd ?d, snd ?x, snd ?r, snd ?u, snd ?c}"
    by (cases "fst ?r") (simp_all add: check_and_recover_def split_beta Let_def split: bool.split)
  with t1 t2 t3 t4 t5 show ?thesis by fastforce
qed

lemma child_commit_own:
  assumes "snd f = cp_sLockPath st"
  shows "cp_own st w (child_commit st f w)"
proof -
  let ?c = "CloseFile f w"
  let ?u = "unlink_all [snd f, cp_sNewStartFlagFilePath st] (snd ?c)"
  let ?r = "replace_old_checkpoint st (snd ?u)"
  let ?k = "Unlink (cp_sNewCpSaveOkFilePath st) (snd ?r)"
  have t1: "cp_own st w (snd ?c)" by (rule touches_CloseFile)
  have t2: "cp_own st w (snd ?u)" by (rule touches_trans [OF t1 touches_unlink_all]) (simp add: assms)
  have t3: "cp_own st w (snd ?r)" by (rule touches_trans [OF t2 replace_old_checkpoint_own])
  have t4: "cp_own st w (snd ?k)" by (rule touches_trans [OF t3 touches_Unlink]) simp
  have "child_commit st f w \<in> {snd ?c, snd ?u, snd ?r, snd ?k}"
    by (simp_all add: cp_code_if child_commit_def split_beta del: unlink_all.simps split: bool.split)
  with t1 t2 t3 t4 show ?thesis by fastforce
qed

lemma create_ok_flag_own: "cp_own st w (snd (create_ok_flag st w))"
  unfolding create_ok_flag_def Let_def Open_def by (intro touches_seq touch) (simp_all add: touch)

lemma child_prepare_own: "cp_own st w (snd (child_prepare ops st maxId es w))"
proof -
  let ?L = "LockPath (cp_sLockPath st) w"
  define m where "m = load_meta st (snd ?L)"
  define r where "r = check_and_recover st (snd m)"
  define i where "i = init_new_checkpoint st maxId (snd r)"
  define s where "s = save_new_checkpoint ops st es (snd i)"
  define c where "c = CloseFile (fst ?L) (snd m)"
  define u where "u = Unlink (snd (fst ?L)) (snd c)"
  have t1: "cp_own st w (snd ?L)" by (rule touches_LockPath) simp
  have t2: "cp_own st w (snd m)" unfolding m_def by (rule touches_trans [OF t1 touches_load_meta])
  have t3: "cp_own st w (snd r)" unfolding r_def by (rule touches_trans [OF t2 check_and_recover_own])
  have t4: "cp_own st w (snd i)" unfolding i_def by (rule touches_trans [OF t3 touches_own [OF init_new_checkpoint_touches]])
  have t5: "cp_own st w (snd s)" unfolding s_def by (rule touches_trans [OF t4 touches_own [OF save_new_checkpoint_touches]])
  have t6: "cp_own st w (snd c)" unfolding c_def by (rule touches_trans [OF t2 touches_CloseFile])
  have t7: "cp_own st w (snd u)" if "fst (fst ?L) \<noteq> None"
    unfolding u_def LockPath_path [OF that] by (rule touches_trans [OF t6 touches_Unlink]) simp
  have "snd (child_prepare ops st maxId es w) \<in> {snd ?L, snd m, snd r, snd i, snd s, snd c} \<union> (if fst (fst ?L) \<noteq> None then {snd u} else {})"
    by (simp_all add: cp_code_if child_prepare_def m_def r_def i_def s_def c_def u_def split_beta Let_def split: sum.split bool.split)
  with t1 t2 t3 t4 t5 t6 t7 show ?thesis by (auto split: if_splits)
qed

lemma child_prepare_lock: "fst (child_prepare ops st maxId es w) = Some f \<Longrightarrow> snd f = cp_sLockPath st"
  by (auto simp: cp_code_if child_prepare_def Let_def split_beta LockPath_path split: if_splits sum.splits bool.splits)

lemma do_save_in_child_own: "cp_own st w (do_save_in_child ops st maxId es w)"
proof -
  obtain f w1 where p: "child_prepare ops st maxId es w = (f, w1)" by fastforce
  have t1: "cp_own st w w1" using child_prepare_own [of st w ops maxId es] p by simp
  show ?thesis
  proof (cases f)
    case None
    with p t1 show ?thesis by (simp add: do_save_in_child_def)
  next
    case (Some f')
    let ?k = "create_ok_flag st w1"
    have t2: "cp_own st w (snd ?k)" by (rule touches_trans [OF t1 create_ok_flag_own])
    have "snd f' = cp_sLockPath st" using child_prepare_lock [of ops st maxId es w f'] p Some by simp
    then have t3: "cp_own st w (child_commit st f' (snd ?k))" by (rule touches_trans [OF t2 child_commit_own])
    from t2 t3 p Some show ?thesis by (simp add: cp_code_if do_save_in_child_def split_beta)
  qed
qed

lemma do_save_in_parent_touches: "touches P D w (snd (do_save_in_parent st w))"
proof (induction st w rule: do_save_in_parent.induct)
  case (1 st w)
  obtain b w1 where wp: "sys_waitpid w = (b, w1)" by fastforce
  have t1: "touches P D w w1" using touches_processes(2) [of P D w] wp by simp
  have t2: "touches P D w1 (snd (is_completed st w1))" by (rule touches_is_completed)
  have t3: "touches P D w1 (snd (load_meta st (snd (is_completed st w1))))" by (rule touches_trans [OF t2 touches_load_meta])
  show ?case
  proof (cases b)
    case True
    with wp touches_trans [OF t1 t2] touches_trans [OF t1 t3] show ?thesis
      by (simp add: do_save_in_parent.simps [of st w] split_beta split: bool.split)
  next
    case False
    with 1 wp t1 touches_trans [OF t1] show ?thesis by (simp add: do_save_in_parent.simps [of st w])
  qed
qed

lemma cp_Save_own: "cp_own st w (snd (snd (cp_Save ops st t s w)))"
proof -
  let ?l = "IsLocking (cp_sLockPath st) w"
  let ?f = "sys_fork (snd ?l)"
  let ?c = "do_save_in_child ops st (MaxId t (Prepare t s)) (Entries t (Prepare t s)) (snd ?f)"
  let ?m = "?c\<lparr>w_errno := w_errno (snd ?f), s_LockingFiles := s_LockingFiles (snd ?f)\<rparr>"
  have t1: "cp_own st w (snd ?l)" by (rule touches_IsLocking)
  have t2: "cp_own st w (snd ?f)" by (rule touches_trans [OF t1 touches_processes(1)])
  have t3: "cp_own st w ?c" by (rule touches_trans [OF t2 do_save_in_child_own])
  have t4: "cp_own st w ?m" by (rule touches_trans [OF t3]) (rule touches_quiet; simp)
  have t5: "cp_own st w (snd (do_save_in_parent st ?m))" by (rule touches_trans [OF t4 do_save_in_parent_touches])
  from t1 t2 t5 show ?thesis by (simp add: cp_Save_def split_beta Let_def split: bool.split)
qed

subsection \<open>Init and Load\<close>

lemma cp_load_loop_touches: "touches P D w (snd (snd (cp_load_loop ops B h left cpOff batches w)))"
proof (induction ops B h left cpOff batches w rule: cp_load_loop.induct)
  case (1 ops B p off left cpOff batches w)
  obtain r fd w1 where rd: "ReadFully_V4 (Some (p, off)) B w = ((r, fd), w1)" by (metis surj_pair)
  have t: "touches P D w w1" using touches_read(1) [of P D w "Some (p, off)" B] rd by simp
  show ?case
  proof (cases r)
    case None
    with rd t show ?thesis by (simp add: cp_load_loop.simps [of ops B p])
  next
    case (Some bs)
    obtain rc ents where b: "cp_load_batch ops (length bs = B) (left @ bs) cpOff [] = (rc, ents)" by fastforce
    have "touches P D w1 (snd (snd (cp_load_loop ops B (p, off + length bs) left' cpOff' (batches @ [ents]) w1)))"
      if "rc = Inr (left', cpOff')" "bs \<noteq> []" "length bs = B" "\<not> 2 ^ 32 \<le> B + length left" for left' cpOff'
      by (rule 1 [of _ _ "Some bs" fd bs]) (use that rd Some b in auto)
    with rd Some b t touches_trans [OF t] show ?thesis
      by (auto simp: cp_load_loop.simps [of ops B p] Let_def split: sum.split)
  qed
qed

lemma cp_load_file_touches: "touches P D w (snd (snd (cp_load_file ops st fd w)))"
proof -
  let ?s = "GetFileSize_fd fd w"
  let ?r = "ReadFully_V4 fd EOCP_MAGIC_NO_LEN (snd ?s)"
  let ?l = "cp_load_loop ops (unat (cp_batchReadSize st)) (the (snd (fst ?r))) [] 4 [] (snd ?r)"
  have t1: "touches P D w (snd ?s)" by (rule touches_read(2))
  have t2: "touches P D w (snd ?r)" by (rule touches_trans [OF t1 touches_read(1)])
  have t3: "touches P D w (snd (snd ?l))" by (rule touches_trans [OF t2 cp_load_loop_touches])
  have "touches P D w (snd (sys_close fd (snd ?s)))" "touches P D w (snd (sys_close (snd (fst ?r)) (snd ?r)))"
    "touches P D w (snd (sys_close (snd (fst ?r)) (snd (snd ?l))))"
    using t1 t2 t3 touches_trans touches_sys(3) by blast+
  then show ?thesis
    by (simp add: cp_load_file_def split_beta Let_def split: option.split)
qed

lemma cp_Load_touches: "touches P D w (snd (snd (cp_Load ops st w)))"
proof -
  let ?m = "load_meta st w"
  let ?e = "sys_access (cp_sCpFilePath st) (snd ?m)"
  let ?o = "sys_open (cp_sCpFilePath st) False False (snd ?e)"
  have t1: "touches P D w (snd ?m)" by (rule touches_load_meta)
  have t2: "touches P D w (snd ?e)" by (rule touches_trans [OF t1 touches_sys(1)])
  have t3: "touches P D w (snd ?o)" by (rule touches_trans [OF t2 touches_open_existing])
  have t4: "touches P D w (snd (snd (cp_load_file ops st (fst ?o) (snd ?o))))" by (rule touches_trans [OF t3 cp_load_file_touches])
  from t1 t2 t3 t4 show ?thesis
    by (simp add: cp_Load_def Exist_def Open_def split_beta Let_def split: sum.split)
qed

lemma cp_Init_own:
  assumes "cp_at st F w"
  shows "cp_own st w (snd (snd (cp_Init st w)))"
proof -
  have t1: "cp_own st w (snd (CreateDirPath (cp_sRootDir st) w))"
    using CreateDirPath_ready(2,3,5) [OF cp_atD(1,4) [OF assms]] by (rule touches_quiet)
  have "cp_own st w (snd (check_and_recover st (snd (CreateDirPath (cp_sRootDir st) w))))"
    by (rule touches_trans [OF t1 check_and_recover_own])
  with t1 show ?thesis by (simp add: cp_Init_def split_beta Let_def)
qed

text \<open>
  C34: Save touches no file but the seven of its own directory, whatever calls fail on the way, in
  the child and in the parent; no directory appears or disappears.
\<close>

theorem Save_touches_own_files: "touches (set (cp_paths st)) {} w (snd (snd (cp_Save ops st t s w)))"
  by (rule cp_Save_own)

end
