(* ===== verification/WalFrame.thy ===== *)
theory WalFrame
  imports WalRecover Touch
begin

text \<open>
  The log touches files of its own directory only, under every schedule: the frame a client relies on
  that keeps other files in the same world.
\<close>

abbreviation (input) in_dir :: "path \<Rightarrow> path set" where
  "in_dir root \<equiv> {p. parent p = root}"

text \<open>The open segment and the truncation files lie in the directory.\<close>

definition wal_in_dir :: "LogCleanWal \<Rightarrow> bool" where
  "wal_in_dir st = (fd_path (m_currentSegFd st) \<subseteq> in_dir (m_sRootDir st) \<and> wal_paths st)"

lemma wal_ok_in_dir: "wal_ok ops st w m L \<Longrightarrow> wal_in_dir st"
  by (auto simp: wal_ok_def wal_handle_def wal_conf_def wal_in_dir_def)

lemma touches_reads [touch]:
  "touches P D w (snd (ReadFully_V4 fd n w))" "touches P D w (snd (GetFileSize_fd fd w))" "touches P D w (snd (GetFileSize p w))"
  "touches P D w (snd (sys_lseek_cur fd n w))"
  by (rule touches_quiet; simp)+

lemma create_new_segment_file_touches:
  "touches (in_dir (m_sRootDir st)) D w (snd (snd (create_new_segment_file st w)))"
proof -
  let ?c = "if m_currentSegFd st \<noteq> None then sys_close (m_currentSegFd st) w else (True, w)"
  let ?p = "seg_path (m_sRootDir st) (m_currentSegmentId st + 1)"
  let ?o = "sys_open ?p True False (snd ?c)"
  let ?h = "WriteUInt32 (replicate LOGCLEAN_WAL_MAGIC_NO_LEN 0) LOGCLEAN_WAL_MAGIC_NO"
  let ?r = "WriteFully (fst ?o) ?h (snd ?o)"
  have t1: "touches (in_dir (m_sRootDir st)) D w (snd ?c)" by (simp add: touches_sys)
  have t2: "touches (in_dir (m_sRootDir st)) D w (snd ?o)" by (rule touches_trans [OF t1 touches_open]) simp
  have "fd_path (fst ?o) \<subseteq> in_dir (m_sRootDir st)" using fd_path_open [of ?p True False "snd ?c"] by auto
  then have t3: "touches (in_dir (m_sRootDir st)) D w (snd ?r)" by (rule touches_trans [OF t2 WriteFully_touches(1)])
  have "snd (snd (create_new_segment_file st w)) \<in> {snd ?c, snd ?o, snd ?r}"
    by (simp add: create_new_segment_file_def Open_def split_beta Let_def)
  with t1 t2 t3 show ?thesis by fastforce
qed

lemma append_result_world:
  "snd (snd (case r of (W_OK, st, w) \<Rightarrow> (Inr (f st), st, w) | (rc, st, w) \<Rightarrow> (Inl rc, st, w))) = snd (snd r)"
  by (cases r; cases "fst r") simp_all

lemma AppendEntry_touches:
  assumes "wal_in_dir st"
  shows "touches (in_dir (m_sRootDir st)) D w (snd (snd (AppendEntry ops st e w)))"
proof (cases "Encode ops e")
  case None
  then show ?thesis by (simp add: AppendEntry_def)
next
  case (Some eb)
  let ?T = "touches (in_dir (m_sRootDir st)) D w"
  let ?b = "wal_entry_bytes (m_writeEntryVersion st) (m_currentEntryIdx st + 1) eb (m_curSegFileSize st)"
  obtain n fd w1 b w2 where r: "WriteFully (m_currentSegFd st) ?b w = ((n, fd), w1)" "sys_fdatasync fd w1 = (b, w2)"
    by (metis surj_pair)
  have "?T (snd (WriteFully (m_currentSegFd st) ?b w))"
    by (rule WriteFully_touches) (use assms in \<open>simp add: wal_in_dir_def\<close>)
  then have t1: "?T w1" by (simp add: r)
  have t2: "?T w2" using touches_trans [OF t1 touches_sys(4) [of _ _ w1 fd]] by (simp add: r)
  have t3: "?T (snd (snd (create_new_segment_file st' w2)))" if "m_sRootDir st' = m_sRootDir st" for st'
    using create_new_segment_file_touches [of st' D w2] that by (intro touches_trans [OF t2]) simp
  from t1 t2 t3 Some show ?thesis
    by (simp add: AppendEntry_def Let_def r append_result_world if_distrib [of snd] cong: if_cong)
qed

lemma create_trunc_info_touches:
  assumes "wal_paths st"
  shows "touches (in_dir (m_sRootDir st)) D w (snd (create_trunc_info st i w))"
proof -
  let ?o = "sys_open (m_sTruncInfoFilePath st) True True w"
  let ?r = "WriteFully (fst ?o) (bytes_of_string (ToString i)) (snd ?o)"
  let ?c = "sys_close (snd (fst ?r)) (snd ?r)"
  have p: "parent (m_sTruncInfoFilePath st) = m_sRootDir st" using assms by (simp add: wal_paths_def)
  have t1: "touches (in_dir (m_sRootDir st)) D w (snd ?o)" by (rule touches_open) (simp add: p)
  have "fd_path (fst ?o) \<subseteq> in_dir (m_sRootDir st)" using fd_path_open [of "m_sTruncInfoFilePath st" True True w] p by auto
  then have t2: "touches (in_dir (m_sRootDir st)) D w (snd ?r)" by (rule touches_trans [OF t1 WriteFully_touches(1)])
  have t3: "touches (in_dir (m_sRootDir st)) D w (snd ?c)" by (rule touches_trans [OF t2 touches_sys(3)])
  have "snd (create_trunc_info st i w) \<in> {snd ?o, snd ?c}"
    by (simp add: create_trunc_info_def Open_def split_beta Let_def)
  with t1 t3 show ?thesis by fastforce
qed

lemma create_trunc_ok_flag_touches:
  assumes "wal_paths st"
  shows "touches (in_dir (m_sRootDir st)) D w (snd (create_trunc_ok_flag st w))"
  unfolding create_trunc_ok_flag_def Let_def Open_def
  by (intro touches_seq touch) (use assms in \<open>simp_all add: touch wal_paths_def\<close>)

lemma clean_trunc_status_touches:
  assumes "wal_paths st"
  shows "touches (in_dir (m_sRootDir st)) D w (snd (clean_trunc_status st w))"
  unfolding clean_trunc_status_def Let_def Exist_def
  by (intro touches_seq touch) (use assms in \<open>simp_all add: touch wal_paths_def split_beta\<close>)

lemma load_segment_max_entry_id_touches: "touches P D w (snd (load_segment_max_entry_id p w))"
  unfolding load_segment_max_entry_id_def Let_def Open_def
  by (intro touches_seq touch)

lemma Truncate_loop_touches:
  "touches (in_dir (m_sRootDir st)) D w (snd (Truncate_loop st maxSeg is maxClean w))"
proof (induction "is" arbitrary: maxClean w)
  case (Cons i "is")
  show ?case
    unfolding Truncate_loop.simps Let_def
    by (intro touches_seq touch load_segment_max_entry_id_touches Cons.IH) simp
qed simp

lemma finish_result_world:
  "snd (snd (case r of (W_OK, w) \<Rightarrow> (let (rc, w) = f w in (rc, st, w)) | (rc, w) \<Rightarrow> (rc, st, w))) =
    (if fst r = W_OK then snd (f (snd r)) else snd r)"
  by (cases r; cases "fst r") (simp_all add: split_beta)

lemma Truncate_finish_touches:
  assumes "wal_paths st"
  shows "touches (in_dir (m_sRootDir st)) D w (snd (snd (Truncate_finish st maxSeg maxClean w)))"
proof -
  have t1: "touches (in_dir (m_sRootDir st)) D w (snd (create_trunc_ok_flag st' w))"
    if "wal_paths st'" "m_sRootDir st' = m_sRootDir st" for st'
    using create_trunc_ok_flag_touches [OF that(1), of D w] that(2) by simp
  have t2: "touches (in_dir (m_sRootDir st)) D w (snd (clean_trunc_status st' (snd (create_trunc_ok_flag st' w))))"
    if "wal_paths st'" "m_sRootDir st' = m_sRootDir st" for st'
    using touches_trans [OF t1 [OF that]] clean_trunc_status_touches [OF that(1)] that(2) by simp
  show ?thesis
  proof (cases "maxClean = 0 \<or> u64_range (m_lastTruncMaxIdx st) maxClean = None")
    case True
    then show ?thesis by (auto simp: Truncate_finish_def)
  next
    case False
    then obtain "is" where "is": "u64_range (m_lastTruncMaxIdx st) maxClean = Some is" "maxClean \<noteq> 0" by blast
    define st' where "st' = st\<lparr>m_mpEntriesIdSegId := erase_entries is (m_mpEntriesIdSegId st),
        m_lastTruncMaxIdx := maxClean + 1, m_minSegmentId := maxSeg + 1\<rparr>"
    have st': "wal_paths st'" "m_sRootDir st' = m_sRootDir st" using assms by (simp_all add: st'_def wal_paths_def)
    have "Truncate_finish st maxSeg maxClean w =
        (case create_trunc_ok_flag st' w of (W_OK, w) \<Rightarrow> (let (rc, w) = clean_trunc_status st' w in (rc, st', w)) | (rc, w) \<Rightarrow> (rc, st', w))"
      unfolding Truncate_finish_def st'_def "is"(1) option.case Let_def using "is"(2) by (rule if_not_P)
    with t1 [OF st'] t2 [OF st'] show ?thesis by (simp add: finish_result_world)
  qed
qed

lemma Truncate_touches:
  assumes "wal_paths st"
  shows "touches (in_dir (m_sRootDir st)) D w (snd (snd (Truncate st i w)))"
proof -
  obtain rc w1 where r: "create_trunc_info st i w = (rc, w1)" by fastforce
  have t1: "touches (in_dir (m_sRootDir st)) D w w1" using create_trunc_info_touches [OF assms, of D w i] r by simp
  have t2: "touches (in_dir (m_sRootDir st)) D w (snd (GetFileSize p w1))" for p by (rule touches_trans [OF t1 touches_reads(3)])
  have t3: "touches (in_dir (m_sRootDir st)) D w (snd (Truncate_loop st a b c (snd (GetFileSize p w1))))" for a b c p
    by (rule touches_trans [OF t2 Truncate_loop_touches])
  have t4: "touches (in_dir (m_sRootDir st)) D w
      (snd (snd (Truncate_finish st d e (snd (Truncate_loop st a b c (snd (GetFileSize p w1)))))))" for a b c p d e
    by (rule touches_trans [OF t3 Truncate_finish_touches [OF assms]])
  from t1 t2 t3 t4 show ?thesis
    by (simp add: Truncate_def r split_beta Let_def split: option.split sum.split)
qed

lemma list_segments_asc_touches: "touches P D w (snd (list_segments_asc st w))"
proof -
  let ?c = "CollectFileChildren (m_sRootDir st) (str_find LOGCLEAN_WAL_SEGMENT_PREFIX_NAME) w"
  have t: "touches P D w (snd ?c)" by (rule touches_quiet; simp)
  then have "touches P D w (set_errno e (snd ?c))" for e by (rule touches_trans [OF _ touches_memory(3)])
  with t show ?thesis by (simp add: list_segments_asc_def split_beta Let_def split: option.split)
qed

lemma Size_touches: "touches P D w (snd (Size st w))"
proof -
  have "touches P D w (snd (Size_loop ss acc w))" for ss acc w
  proof (induction ss arbitrary: acc w)
    case (Cons s ss)
    show ?case unfolding Size_loop.simps by (intro touches_seq touch Cons.IH)
  qed simp
  then show ?thesis unfolding Size_def by (intro touches_seq touch list_segments_asc_touches)
qed

text \<open>Size adds up the segments.\<close>

definition log_bytes :: "log_entry list list \<Rightarrow> nat" where
  "log_bytes L = sum_list (map (\<lambda>es. length (segment_bytes es)) L)"

lemma Size_loop_done:
  assumes "reliable w" "list_all2 (\<lambda>s es. content w (snd s) = Some (segment_bytes es) \<and> \<not> is_dir w (snd s)) ss L"
  shows "\<exists>w'. Size_loop ss acc w = (Inr (acc + word_of_nat (log_bytes L)), w') \<and> quiet w w'"
  using assms
proof (induction ss arbitrary: L acc w)
  case Nil
  then show ?case by (simp add: log_bytes_def)
next
  case (Cons s ss)
  obtain es L' where L: "L = es # L'" "content w (snd s) = Some (segment_bytes es)" "\<not> is_dir w (snd s)"
    "list_all2 (\<lambda>s es. content w (snd s) = Some (segment_bytes es) \<and> \<not> is_dir w (snd s)) ss L'"
    using Cons.prems(2) by (cases L) auto
  define w1 where "w1 = snd (GetFileSize (snd s) w)"
  have g: "GetFileSize (snd s) w = (Some (length (segment_bytes es)), w1)" "quiet w w1" "reliable w1"
    using L(2,3) Cons.prems(1) by (simp_all add: w1_def prod_eq_iff quiet_def)
  have "list_all2 (\<lambda>s es. content w1 (snd s) = Some (segment_bytes es) \<and> \<not> is_dir w1 (snd s)) ss L'"
    using L(4) g(2) by (simp add: quiet_def)
  from Cons.IH [OF g(3) this, of "acc + word_of_nat (length (segment_bytes es))"] g quiet_trans [OF g(2)] show ?case
    by (auto simp: L(1) log_bytes_def add.assoc)
qed

lemma Size_done:
  assumes "wal_ok ops st w m L"
  shows "\<exists>w'. Size st w = (Inr (word_of_nat (log_bytes L)), w') \<and> quiet w w'"
proof -
  let ?root = "m_sRootDir st"
  have o: "log_world w ?root" "log_segments w ?root m L" "L \<noteq> []" using assms by (simp_all add: wal_ok_def)
  obtain w1 where w1: "list_segments_asc st w = (Inr (segment_list ?root m (length L)), w1)"
    "content w1 = content w" "is_dir w1 = is_dir w" "log_world w1 ?root" using list_segments_asc_done [OF o(1,2)] by blast
  have "list_all2 (\<lambda>s es. content w1 (snd s) = Some (segment_bytes es) \<and> \<not> is_dir w1 (snd s)) (segment_list ?root m (length L)) L"
    using o(2) w1(2) w1(4) by (simp add: list_all2_conv_all_nth segment_list_def log_segments_def log_world_def)
  from Size_loop_done [OF _ this, of 0] w1(4) obtain w2 where
    "Size_loop (segment_list ?root m (length L)) 0 w1 = (Inr (word_of_nat (log_bytes L)), w2)" "quiet w1 w2"
    by (auto simp: log_world_def)
  moreover have "quiet w w1" using w1(2-4) by (simp add: quiet_def log_world_def)
  moreover have "segment_list ?root m (length L) \<noteq> []" using o(3) by (simp add: segment_list_def)
  ultimately show ?thesis using w1(1) quiet_trans by (auto simp: Size_def)
qed

text \<open>Reading the directory leaves the locks alone.\<close>

abbreviation (input) locks :: "world \<Rightarrow> path list \<times> path list" where
  "locks w \<equiv> (s_LockingFiles w, w_flocks w)"

lemma sys_locks: "locks (snd (sys_stat p w)) = locks w" "locks (snd (sys_readdir d w)) = locks w"
  by (auto simp: sys_stat_def sys_readdir_def syscall_def split: list.splits sysev.splits option.splits)

lemma GetFileSize_locks: "locks (snd (GetFileSize p w)) = locks w"
  using sys_locks(1) [of p w] by (simp add: GetFileSize_def split_beta split: option.split file_stat.split)

lemma CollectFileChildren_locks: "locks (snd (CollectFileChildren d flt w)) = locks w"
proof -
  have "locks (snd (CollectFileChildren_loop ps flt rs w)) = locks w" for ps rs w
  proof (induction ps flt rs w rule: CollectFileChildren_loop.induct)
    case (2 p ps flt rs w)
    obtain r w1 where r: "sys_stat p w = (r, w1)" by fastforce
    with sys_locks(1) [of p w] have "locks w1 = locks w" by simp
    with 2 r show ?case by (auto split: option.splits file_stat.splits)
  qed simp
  with sys_locks(2) [of d w] show ?thesis by (auto simp: CollectFileChildren_def split_beta split: option.split)
qed

lemma Size_locks: "locks (snd (Size st w)) = locks w"
proof -
  have loop: "locks (snd (Size_loop ss acc w)) = locks w" for ss acc w
  proof (induction ss acc w rule: Size_loop.induct)
    case (2 s ss acc w)
    obtain r w1 where r: "GetFileSize (snd s) w = (r, w1)" by fastforce
    with GetFileSize_locks [of "snd s" w] have "locks w1 = locks w" by simp
    with 2 r show ?case by (auto split: option.splits)
  qed simp
  have "locks (snd (list_segments_asc st w)) = locks w"
    using CollectFileChildren_locks [of "m_sRootDir st" "str_find LOGCLEAN_WAL_SEGMENT_PREFIX_NAME" w]
    by (simp add: list_segments_asc_def split_beta Let_def split: option.split)
  with loop show ?thesis by (simp add: Size_def split_beta split: sum.split)
qed

end
