(* ===== verification/KvDurable.thy ===== *)
theory KvDurable
  imports KvStore WalProps CheckpointFrame CheckpointProps WalFrame
begin

text \<open>
  Durability of the key/value store: what its log and its checkpoint hold on the disk, that requests
  keep it equal to the map in memory, and that a start brings it back.
\<close>

subsection \<open>The store on the disk\<close>

abbreviation (input) kv_cp :: "KVConfig \<Rightarrow> EntryOrderCheckpoint" where
  "kv_cp pc \<equiv> EntryOrderCheckpoint_ctor (checkpointConf pc)"

text \<open>A configuration the constructor accepts, with different directories for log and checkpoint.\<close>

definition kv_conf :: "KVConfig \<Rightarrow> bool" where
  "kv_conf pc =
    (kc_WalType pc = ''log-clean'' \<and> kc_CheckpointType pc = ''entry-order'' \<and>
     kc_WalRootDirPath pc \<noteq> kc_CheckpointRootDirPath pc \<and>
     (case LogCleanWal_ctor (walConf pc) of None \<Rightarrow> False | Some st \<Rightarrow> wal_conf st))"

text \<open>The directory of the checkpoint between two Saves.\<close>

definition cp_clean :: "KVConfig \<Rightarrow> world \<Rightarrow> bool" where
  "cp_clean pc w =
    (cp_at (kv_cp pc) (content w) w \<and> content w (cp_sLockPath (kv_cp pc)) = None \<and>
     content w (cp_sNewStartFlagFilePath (kv_cp pc)) = None \<and> content w (cp_sNewCpSaveOkFilePath (kv_cp pc)) = None)"

text \<open>The checkpoint of id \<open>cid\<close>, followed by the log, gives \<open>s\<close>: the map and the last applied id.\<close>

definition kv_recovers ::
    "protobuf \<Rightarrow> KVConfig \<Rightarrow> world \<Rightarrow> (u64 \<times> KvEntry) list \<Rightarrow> u64 \<Rightarrow> kvs \<times> u64 \<Rightarrow> bool" where
  "kv_recovers pb pc w log cid s =
    (\<exists>ces ckvs. cp_holds (kv_cp_ops pb) (checkpointConf pc) (content w) cid ces \<and>
       on_checkpoint_load_entry ces [] = Some ckvs \<and> on_wal_load_entries log (ckvs, cid) = Some s)"

definition kv_disk :: "protobuf \<Rightarrow> KVConfig \<Rightarrow> LogCleanWal \<Rightarrow> world \<Rightarrow> kvs \<times> u64 \<Rightarrow> bool" where
  "kv_disk pb pc wal w s =
    (kv_conf pc \<and> cp_clean pc w \<and>
     (\<exists>log cid. wal_repr (kv_wal_ops pb) (walConf pc) (wal, w) log \<and> m_currentEntryIdx wal = last_id log \<and>
        cid \<le> last_id log \<and> kv_recovers pb pc w log cid s))"

text \<open>A serving store whose memory is what the disk holds.\<close>

definition kv_repr :: "protobuf \<Rightarrow> KVConfig \<Rightarrow> MiniKV \<Rightarrow> world \<Rightarrow> bool" where
  "kv_repr pb pc kv w =
    (kv_disk pb pc (k_wal kv) w (k_kvs kv, k_applyId kv) \<and> \<not> k_bStopped kv \<and> \<not> k_walLock kv \<and>
     k_checkpoint kv = cp_object (checkpointConf pc))"

subsection \<open>Frames\<close>

lemma conf_roots [simp]:
  "RootDirPath (walConf pc) = kc_WalRootDirPath pc" "cpc_RootDirPath (checkpointConf pc) = kc_CheckpointRootDirPath pc"
  by (simp_all add: walConf_def checkpointConf_def)

lemma kv_cp_path: "p \<in> set (cp_paths (kv_cp pc)) \<Longrightarrow> parent p = kc_CheckpointRootDirPath pc"
  using ctor_wf [of "checkpointConf pc"] by (simp add: cp_wf_def)

text \<open>What the log writes leaves the checkpoint alone.\<close>

lemma cp_clean_frame:
  assumes "touches (in_dir r) {} w w'" "r \<noteq> kc_CheckpointRootDirPath pc" "reliable w'" "cp_clean pc w"
  shows "cp_clean pc w'" "cp_holds ops (checkpointConf pc) (content w') i es = cp_holds ops (checkpointConf pc) (content w) i es"
proof -
  have same: "content w' p = content w p" if "p \<in> set (cp_paths (kv_cp pc))" for p
    by (rule touches_file [OF assms(1)]) (use kv_cp_path [OF that] assms(2) in auto)
  have at: "cp_at (kv_cp pc) (content w) w" using assms(4) by (simp add: cp_clean_def)
  have "cp_at (kv_cp pc) (content w') w'"
    by (rule cp_at_step [OF at refl]) (use touches_world [OF assms(1)] cp_atD(2) [OF at] assms(3) in auto)
  then show "cp_clean pc w'" using assms(4) same by (simp add: cp_clean_def)
  show "cp_holds ops (checkpointConf pc) (content w') i es = cp_holds ops (checkpointConf pc) (content w) i es"
    using cp_holds_cong [of ops "checkpointConf pc" "content w" i es "content w'"]
      cp_holds_cong [of ops "checkpointConf pc" "content w'" i es "content w"] same by auto
qed

text \<open>The log depends on the files of its directory only.\<close>

lemma wal_repr_frame:
  assumes "wal_repr ops pc (st, w) log" "\<And>p. parent p = RootDirPath pc \<Longrightarrow> content w' p = content w p"
    and "is_dir w' = is_dir w" "reliable w'" "wf_world w'"
  shows "wal_repr ops pc (st, w') log"
proof -
  obtain m L where L: "wal_ok ops st w m L" "no_trunc_files w (m_sRootDir st)" "wal_configured pc st" "log = decoded ops (concat L)"
    using assms(1) by (auto simp: wal_repr_def)
  have root: "m_sRootDir st = RootDirPath pc"
    using L(3) by (auto simp: wal_configured_def same_conf_def dest!: ctor_fresh split: option.splits)
  have "log_world w' (RootDirPath pc)"
    using log_world_step [OF _ assms(3-5)] L(1) root by (simp add: wal_ok_def)
  moreover have "log_segments w' (RootDirPath pc) m L"
    using L(1) assms(2) unfolding wal_ok_def log_segments_def root by (metis parent_seg_path)
  ultimately have "wal_ok ops st w' m L" using L(1) root by (simp add: wal_ok_def)
  moreover have "no_trunc_files w' (RootDirPath pc)"
    using L(2) assms(2,3) root by (simp add: no_trunc_files_def)
  ultimately show ?thesis using L(3,4) root unfolding wal_repr_def by auto
qed

text \<open>Only the files and the directories count, not the memory of the process.\<close>

lemma kv_disk_same:
  assumes "kv_disk pb pc wal w s" "content w' = content w" "is_dir w' = is_dir w" "reliable w'" "wf_world w'"
  shows "kv_disk pb pc wal w' s"
proof -
  have "cp_clean pc w'" using assms cp_at_step [OF _ refl assms(3-5)] unfolding kv_disk_def cp_clean_def by metis
  with assms wal_repr_frame [of "kv_wal_ops pb" "walConf pc" wal w _ w'] show ?thesis
    unfolding kv_disk_def kv_recovers_def by (metis (no_types, lifting))
qed

subsection \<open>Replay\<close>

lemma on_wal_load_id: "on_wal_load_entries log s = Some (kvs, i) \<Longrightarrow> i = snd s \<or> i \<in> fst ` set log"
  by (induction log s rule: on_wal_load_entries.induct) (auto split: if_splits KvEntry.splits option.splits)

lemma replay_id_bound:
  assumes "on_wal_load_entries log (kvs, cid) = Some (kvs', i)" "sorted_wrt (<) (map fst log)" "cid \<le> last_id log"
  shows "i \<le> last_id log"
proof -
  have "j \<le> fst (last log)" if "j \<in> fst ` set log" for j
  proof -
    from that have "log \<noteq> []" by auto
    then have "log = butlast log @ [last log]" by simp
    then have "sorted_wrt (<) (map fst (butlast log) @ [fst (last log)])" "j \<in> insert (fst (last log)) (fst ` set (butlast log))"
      using assms(2) that by (metis list.simps(8,9) map_append, metis image_insert insert_is_Un list.set(1,2) set_append sup_commute)
    then show ?thesis by (auto simp: sorted_wrt_append order.strict_implies_order)
  qed
  with on_wal_load_id [OF assms(1)] assms(3) show ?thesis by (auto simp: last_id_def)
qed

text \<open>The entries a request logs, as the log hands them back, and what replaying them does.\<close>

lemma strlen_terminated: "0 \<notin> set k \<Longrightarrow> strlen (k @ [0]) = length k"
proof -
  assume "0 \<notin> set k"
  then have "takeWhile (\<lambda>c. c \<noteq> 0) (k @ [0]) = k @ takeWhile (\<lambda>c. c \<noteq> 0) [0]" by (intro takeWhile_append2) auto
  then show ?thesis by (simp add: strlen_def)
qed

lemma take_strlen: "take (strlen (k @ [0])) (k @ [0]) = takeWhile (\<lambda>c. c \<noteq> 0) k"
proof (induction k)
  case Nil
  then show ?case by (simp add: strlen_def)
next
  case (Cons c k)
  then show ?case by (cases "c = 0") (simp_all add: strlen_def)
qed

lemma replay_put: "i \<le> j \<Longrightarrow> on_wal_load_entries [(j, WalPutEntry (Some e))] (kvs, i) = Some (sm_set Key_less (pb_key e) e kvs, j)"
  by (auto dest: leD)

lemma replay_delete:
  "i \<le> j \<Longrightarrow> on_wal_load_entries [(j, WalDeleteEntry (Some (k @ [0])) n)] (kvs, i) =
    Some (sm_erase Key_less (takeWhile (\<lambda>c. c \<noteq> 0) k) kvs, j)"
  using take_strlen [of k] by (auto dest: leD simp del: take_append)

subsection \<open>Appending\<close>

lemma wal_repr_root:
  assumes "wal_repr ops pc (st, w) log"
  shows "m_sRootDir st = RootDirPath pc" "wal_in_dir st" "reliable w"
  using assms wal_ok_in_dir [of ops st w]
  by (auto simp: wal_repr_def wal_configured_def same_conf_def dest!: ctor_fresh split: option.splits)
    (auto simp: wal_ok_def log_world_def)

lemma kv_append:
  assumes "kv_disk pb pc wal w (kvs, i)" "wal_good (kv_wal_ops pb) (walConf pc) e" "wal_room (wal, w) (Suc n)"
    and "\<And>j. i < j \<Longrightarrow> on_wal_load_entries [(j, stored (kv_wal_ops pb) e)] (kvs, i) = Some (kvs', j)"
  shows "\<exists>j wal' w'. AppendEntry (kv_wal_ops pb) wal e w = (Inr j, wal', w') \<and> i < j \<and>
    kv_disk pb pc wal' w' (kvs', j) \<and> wal_room (wal', w') n"
proof -
  let ?ops = "kv_wal_ops pb"
  obtain log cid where l: "wal_repr ?ops (walConf pc) (wal, w) log" "m_currentEntryIdx wal = last_id log" "cid \<le> last_id log"
    "kv_recovers pb pc w log cid (kvs, i)" and c: "kv_conf pc" "cp_clean pc w"
    using assms(1) by (auto simp: kv_disk_def)
  define j where "j = next_id wal"
  obtain wal' w' where r: "AppendEntry ?ops wal e w = (Inr j, wal', w')"
    "wal_repr ?ops (walConf pc) (wal', w') (log @ [(j, stored ?ops e)])" "wal_room (wal', w') n" "m_currentEntryIdx wal' = j"
    using wal_append_step [OF l(1) assms(2,3)] by (fastforce simp: wal_append_def j_def)
  obtain ces ckvs where k: "cp_holds (kv_cp_ops pb) (checkpointConf pc) (content w) cid ces"
    "on_checkpoint_load_entry ces [] = Some ckvs" "on_wal_load_entries log (ckvs, cid) = Some (kvs, i)"
    using l(4) by (auto simp: kv_recovers_def)
  have inc: "sorted_wrt (<) (map fst log)" using wal_repr_increasing [OF l(1)] by simp
  have "last_id log < j"
    using assms(3) l(2) by (simp add: j_def wal_room_def word_less_nat_alt unat_plus_no_wrap)
  moreover have "i \<le> last_id log" by (rule replay_id_bound [OF k(3) inc l(3)])
  ultimately have ij: "i < j" by simp
  have "touches (in_dir (kc_WalRootDirPath pc)) {} w w'"
    using AppendEntry_touches [of wal "{}" w ?ops e] wal_repr_root [OF l(1)] r(1) by simp
  note f = cp_clean_frame [OF this _ _ c(2)]
  have w': "kc_WalRootDirPath pc \<noteq> kc_CheckpointRootDirPath pc" "reliable w'"
    using c(1) wal_repr_root [OF r(2)] by (simp_all add: kv_conf_def)
  have "on_wal_load_entries (log @ [(j, stored ?ops e)]) (ckvs, cid) = Some (kvs', j)"
    using assms(4) [OF ij] k(3) by (simp add: on_wal_load_append)
  then have "kv_recovers pb pc w' (log @ [(j, stored ?ops e)]) cid (kvs', j)"
    using k(1,2) f(2) [OF w'] unfolding kv_recovers_def by blast
  moreover have "last_id (log @ [(j, stored ?ops e)]) = j" by (simp add: last_id_def)
  moreover have "cid \<le> j" using l(3) \<open>last_id log < j\<close> by simp
  ultimately have "kv_disk pb pc wal' w' (kvs', j)"
    using c(1) f(1) [OF w'] r(2,4) unfolding kv_disk_def by metis
  with r(1,3) ij show ?thesis by blast
qed

subsection \<open>Starting\<close>

lemma cp_start:
  assumes "cp_clean pc w" "cp_holds ops (checkpointConf pc) (content w) cid ces" "create_local ops"
  shows "\<exists>bs w1 w2. cp_Init (kv_cp pc) w = (C_OK, cp_object (checkpointConf pc), w1) \<and>
    cp_Load ops (cp_object (checkpointConf pc)) w1 = (Inr cid, bs, w2) \<and> concat bs = ces \<and> quiet w w2"
proof -
  let ?st = "kv_cp pc" and ?F = "content w"
  have at: "cp_at ?st ?F w" and F: "?F (cp_sLockPath ?st) = None" "?F (cp_sNewStartFlagFilePath ?st) = None" "?F (cp_sNewCpSaveOkFilePath ?st) = None"
    using assms(1) by (simp_all add: cp_clean_def)
  obtain w1 where w1: "cp_Init ?st w = (C_OK, cp_object (checkpointConf pc), w1)" "cp_at ?st ?F w1"
    using cp_Init_at [OF at check_and_recover_completed [OF _ F]] by blast
  have "\<exists>bs w2. cp_Load ops (cp_object (checkpointConf pc)) w1 = (Inr cid, bs, w2) \<and> concat bs = ces \<and> cp_at ?st ?F w2"
  proof (cases "cid = 0")
    case True
    with cp_Load_none [of "cp_object (checkpointConf pc)" ?F w1 ops] w1(2) assms(2) show ?thesis by (auto simp: cp_holds_def)
  next
    case False
    then obtain c where "?F (cp_sCpFilePath ?st) = Some c" "cp_fits (checkpointConf pc) c" "cp_parse ops c = Inr ces"
      using assms(2) by (auto simp: cp_holds_def split: option.splits)
    with cp_Load_at [of "cp_object (checkpointConf pc)" ?F w1 ops cid c ces] w1(2) assms(2,3) False show ?thesis
      by (auto simp: cp_holds_def cp_fits_def)
  qed
  then obtain bs w2 where w2: "cp_Load ops (cp_object (checkpointConf pc)) w1 = (Inr cid, bs, w2)" "concat bs = ces" "cp_at ?st ?F w2" by blast
  have "is_dir w2 = is_dir w"
    using touches_world(1) [OF cp_Init_own [OF at]] touches_world(1) [OF cp_Load_touches [of "{}" "{}" w1 ops "cp_object (checkpointConf pc)"]]
    by (simp add: w1(1) w2(1))
  with w2(3) have "quiet w w2" by (auto simp: quiet_def dest: cp_atD)
  with w1(1) w2(1,2) show ?thesis by blast
qed

text \<open>A start on what the disk holds gives the map it stands for, and leaves the disk alone.\<close>

lemma kv_conf_ctor:
  assumes "kv_conf pc"
  obtains kv st0 where "MiniKV_ctor pc = Some kv" "LogCleanWal_ctor (walConf pc) = Some st0" "wal_conf st0"
    "k_wal kv = st0" "k_checkpoint kv = kv_cp pc" "k_kvs kv = []" "\<not> k_walLock kv"
  using assms
  by (auto simp: kv_conf_def MiniKV_ctor_def WALFactory_CreateInstance_def CheckpointFactory_CreateInstance_def split: option.splits)

lemma Start_run:
  assumes "cp_Init (k_checkpoint kv) w = (C_OK, cp, w1)" "cp_Load (kv_cp_ops pb) cp w1 = (Inr cid, cbs, w2)"
    and "on_checkpoint_load_entry (concat cbs) (k_kvs kv) = Some ckvs"
    and "wal_start (kv_wal_ops pb) (k_wal kv) w2 = (W_OK, bs, wal, w3)"
    and "on_wal_load_entries (concat bs) (ckvs, cid) = Some (kvs, i)"
  shows "Start pb kv w = Some (True, kv\<lparr>k_checkpoint := cp, k_kvs := kvs, k_applyId := i, k_wal := wal, k_bStopped := False,
    k_timer := k_timer kv + 1\<rparr>, w3)"
proof -
  obtain wal1 w1' where "Init (k_wal kv) w2 = (W_OK, wal1, w1')" "Load (kv_wal_ops pb) wal1 w1' = (W_OK, bs, wal, w3)"
    using assms(4) by (auto simp: wal_start_def split: prod.splits if_splits)
  with assms show ?thesis
    by (simp add: Start_def Let_def load_batches_all register_trigger_check_wal_timer_def)
qed

lemma Start_recovers:
  assumes "kv_disk pb pc wal w (kvs, i)" "MiniKV_ctor pc = Some kv0"
  shows "\<exists>kv w'. Start pb kv0 w = Some (True, kv, w') \<and> kv_repr pb pc kv w' \<and> k_kvs kv = kvs \<and>
    m_currentEntryIdx (k_wal kv) = m_currentEntryIdx wal \<and> m_currentSegmentId (k_wal kv) = m_currentSegmentId wal"
proof -
  let ?ops = "kv_wal_ops pb"
  obtain log cid where l: "wal_repr ?ops (walConf pc) (wal, w) log" "m_currentEntryIdx wal = last_id log" "cid \<le> last_id log"
    "kv_recovers pb pc w log cid (kvs, i)" and c: "kv_conf pc" "cp_clean pc w"
    using assms(1) by (auto simp: kv_disk_def)
  obtain ces ckvs where k: "cp_holds (kv_cp_ops pb) (checkpointConf pc) (content w) cid ces"
    "on_checkpoint_load_entry ces [] = Some ckvs" "on_wal_load_entries log (ckvs, cid) = Some (kvs, i)"
    using l(4) by (auto simp: kv_recovers_def)
  obtain st0 where st0: "LogCleanWal_ctor (walConf pc) = Some st0" "k_wal kv0 = st0" "k_checkpoint kv0 = kv_cp pc" "k_kvs kv0 = []"
    "\<not> k_walLock kv0" using kv_conf_ctor [OF c(1)] assms(2) by (metis option.inject)
  obtain cbs w1 w2 where cp: "cp_Init (kv_cp pc) w = (C_OK, cp_object (checkpointConf pc), w1)"
    "cp_Load (kv_cp_ops pb) (cp_object (checkpointConf pc)) w1 = (Inr cid, cbs, w2)" "concat cbs = ces" "quiet w w2"
    using cp_start [OF c(2) k(1) kvc.local_creator] by blast
  have rw: "reliable w" "wf_world w" using c(2) cp_atD(1,2) [of "kv_cp pc" "content w" w] by (simp_all add: cp_clean_def)
  have "wal_repr ?ops (walConf pc) (wal, w2) log"
    by (rule wal_repr_frame [OF l(1)]) (use cp(4) rw in \<open>auto simp: quiet_def\<close>)
  from wal_restart_step [OF this] st0(1) obtain bs wal' w3 where s: "wal_start ?ops st0 w2 = (W_OK, bs, wal', w3)" "concat bs = log"
    "wal_repr ?ops (walConf pc) (wal', w3) log" "quiet w2 w3" "m_currentEntryIdx wal' = last_id log"
    "m_currentSegmentId wal' = m_currentSegmentId wal" by auto
  let ?kv = "kv0\<lparr>k_checkpoint := cp_object (checkpointConf pc), k_kvs := kvs, k_applyId := i, k_wal := wal', k_bStopped := False,
    k_timer := k_timer kv0 + 1\<rparr>"
  have "Start pb kv0 w = Some (True, ?kv, w3)"
    by (rule Start_run [of kv0 w _ w1 pb cid cbs w2 ckvs bs wal' w3 kvs i]) (use cp s st0 k in auto)
  moreover have "kv_disk pb pc wal' w3 (kvs, i)"
  proof -
    have "quiet w w3" by (rule quiet_trans [OF cp(4) s(4)])
    then have q: "content w3 = content w" "is_dir w3 = is_dir w" "reliable w3" "wf_world w3" using rw by (auto simp: quiet_def)
    have "kv_disk pb pc wal w3 (kvs, i)" by (rule kv_disk_same [OF assms(1) q])
    then have "cp_clean pc w3" by (simp add: kv_disk_def)
    moreover have "kv_recovers pb pc w3 log cid (kvs, i)" using l(4) by (simp add: kv_recovers_def q(1))
    ultimately show ?thesis using c(1) s(3,5) l(3) by (auto simp: kv_disk_def)
  qed
  ultimately show ?thesis using s(5,6) l(2) st0(5) by (intro exI [of _ ?kv] exI [of _ w3]) (simp add: kv_repr_def)
qed

subsection \<open>Requests\<close>

lemma kv_repr_ok: "kv_repr pb pc kv w \<Longrightarrow> kv_ok (k_kvs kv)"
  by (auto simp: kv_repr_def kv_disk_def kv_recovers_def dest!: on_checkpoint_load_entry_ok on_wal_load_entries_ok)

text \<open>
  Requests the log accepts: the encoding exists and fits a read batch; a key to delete has no NUL byte.
  A request with invalid arguments is answered with an error and does not reach the log.
\<close>

definition value_fits :: "KVConfig \<Rightarrow> bytes \<Rightarrow> bool" where
  "value_fits pc bs = (bs \<noteq> [] \<and> length bs + 35 \<le> unat (kc_WalReadBatchSize pc) \<and> length bs + 1 < 2 ^ 31)"

fun req_fits :: "protobuf \<Rightarrow> KVConfig \<Rightarrow> kv_req \<Rightarrow> bool" where
  "req_fits pb pc (PutReq (Some e)) =
    (pb_key e \<noteq> [] \<and> (case SerializeToArray pb e of None \<Rightarrow> False | Some bs \<Rightarrow> value_fits pc bs))"
| "req_fits pb pc (PutReq None) = False"
| "req_fits pb pc (DeleteReq k) = (value_fits pc k \<and> 0 \<notin> set k)"

lemma good_put:
  assumes "pb_ok pb" "SerializeToArray pb e = Some bs" "value_fits pc bs"
  shows "wal_good (kv_wal_ops pb) (walConf pc) (WalPutEntry (Some e))"
proof -
  have "ParseFromArray pb bs = Some e" using assms(1,2) by (simp add: pb_ok_def)
  with assms(2,3) show ?thesis
    by (auto simp: wal_good_def kv_wal_ops_def decode_entry_def create_wal_new_entry_def value_fits_def walConf_def Let_def neq_Nil_conv)
qed

lemma good_delete:
  assumes "value_fits pc k"
  shows "wal_good (kv_wal_ops pb) (walConf pc) (WalDeleteEntry (Some k) (length k))"
  using assms by (auto simp: wal_good_def kv_wal_ops_def decode_entry_def create_wal_new_entry_def value_fits_def
      walConf_def Let_def neq_Nil_conv)

lemma Put_done:
  assumes "kv_repr pb pc kv w" "pb_ok pb" "req_fits pb pc (PutReq (Some e))" "wal_room (k_wal kv, w) (Suc n)"
  shows "\<exists>kv' w'. Put pb (Some e) kv w = Some (\<lparr>put_rc = OK, put_errmsg = NoMsg\<rparr>, kv', w') \<and> kv_repr pb pc kv' w' \<and>
    wal_room (k_wal kv', w') n \<and> k_kvs kv' = sm_set Key_less (pb_key e) e (k_kvs kv)"
proof -
  let ?e = "WalPutEntry (Some e)" and ?kvs = "sm_set Key_less (pb_key e) e (k_kvs kv)"
  have r: "kv_disk pb pc (k_wal kv) w (k_kvs kv, k_applyId kv)" "\<not> k_bStopped kv" "\<not> k_walLock kv"
    "k_checkpoint kv = cp_object (checkpointConf pc)" using assms(1) by (simp_all add: kv_repr_def)
  obtain bs where bs: "SerializeToArray pb e = Some bs" "value_fits pc bs" "pb_key e \<noteq> []"
    using assms(3) by (auto split: option.splits)
  have "on_wal_load_entries [(j, stored (kv_wal_ops pb) ?e)] (k_kvs kv, k_applyId kv) = Some (?kvs, j)" if "k_applyId kv < j" for j
    using kv_stored(1) [OF assms(2) bs(1)] bs(2) replay_put [of "k_applyId kv" j] that by (simp add: value_fits_def)
  from kv_append [OF r(1) good_put [OF assms(2) bs(1,2)] assms(4) this] obtain j wal' w' where
    "AppendEntry (kv_wal_ops pb) (k_wal kv) ?e w = (Inr j, wal', w')" "k_applyId kv < j" "kv_disk pb pc wal' w' (?kvs, j)"
    "wal_room (wal', w') n" by blast
  with r bs(3) show ?thesis by (simp add: Put_def kv_repr_def)
qed

text \<open>Delete logs the key; the replay of the entry erases the key up to its first NUL byte.\<close>

lemma Delete_logged:
  assumes "kv_repr pb pc kv w" "pb_ok pb" "value_fits pc k" "wal_room (k_wal kv, w) (Suc n)"
  shows "\<exists>kv' w'. Delete pb k kv w = Some (\<lparr>del_rc = OK, del_errmsg = NoMsg\<rparr>, kv', w') \<and>
    kv_disk pb pc (k_wal kv') w' (sm_erase Key_less (takeWhile (\<lambda>c. c \<noteq> 0) k) (k_kvs kv), k_applyId kv') \<and>
    wal_room (k_wal kv', w') n \<and> k_kvs kv' = sm_erase Key_less k (k_kvs kv) \<and> \<not> k_bStopped kv' \<and> \<not> k_walLock kv' \<and>
    k_checkpoint kv' = cp_object (checkpointConf pc)"
proof -
  let ?e = "WalDeleteEntry (Some k) (length k)" and ?kvs = "sm_erase Key_less (takeWhile (\<lambda>c. c \<noteq> 0) k) (k_kvs kv)"
  have r: "kv_disk pb pc (k_wal kv) w (k_kvs kv, k_applyId kv)" "\<not> k_bStopped kv" "\<not> k_walLock kv"
    "k_checkpoint kv = cp_object (checkpointConf pc)" using assms(1) by (simp_all add: kv_repr_def)
  have k: "k \<noteq> []" using assms(3) by (simp add: value_fits_def)
  have "on_wal_load_entries [(j, stored (kv_wal_ops pb) ?e)] (k_kvs kv, k_applyId kv) = Some (?kvs, j)" if "k_applyId kv < j" for j
    using kv_stored(3) [OF assms(2) k] replay_delete [of "k_applyId kv" j k] that by (simp del: on_wal_load_entries.simps)
  from kv_append [OF r(1) good_delete [OF assms(3)] assms(4) this] obtain j wal' w' where
    "AppendEntry (kv_wal_ops pb) (k_wal kv) ?e w = (Inr j, wal', w')" "k_applyId kv < j" "kv_disk pb pc wal' w' (?kvs, j)"
    "wal_room (wal', w') n" by blast
  with r k show ?thesis by (simp add: Delete_def)
qed

lemma Delete_done:
  assumes "kv_repr pb pc kv w" "pb_ok pb" "req_fits pb pc (DeleteReq k)" "wal_room (k_wal kv, w) (Suc n)"
  shows "\<exists>kv' w'. Delete pb k kv w = Some (\<lparr>del_rc = OK, del_errmsg = NoMsg\<rparr>, kv', w') \<and> kv_repr pb pc kv' w' \<and>
    wal_room (k_wal kv', w') n \<and> k_kvs kv' = sm_erase Key_less k (k_kvs kv)"
proof -
  have "takeWhile (\<lambda>c. c \<noteq> 0) k = k" "value_fits pc k" using assms(3) by (auto simp: takeWhile_eq_all_conv)
  with Delete_logged [OF assms(1,2) _ assms(4), of k] show ?thesis by (auto simp: kv_repr_def)
qed

end
