(* ===== verification/KvProps.thy ===== *)
theory KvProps
  imports KvDurable
begin

text \<open>The properties of the key/value store that span its log, its checkpoint and restarts.\<close>

subsection \<open>Requests\<close>

text \<open>
  C9: the store is a map.  Whatever system calls fail or are interrupted, after any sequence of Put
  and Delete requests that return, Get answers every key with the entry the acknowledged requests
  left under it, and a request that was answered with an error changed nothing.
\<close>

theorem requests_refine_map:
  assumes "kv_ok (k_kvs kv)" "\<not> k_bStopped kv" "run_all (kv_run pb) rs (kv, w) = Some (acks, (kv', w'))" "key \<noteq> []"
  shows "Get key kv' = \<lparr>get_rc = OK, get_entry = fold kv_spec acks (map_of (k_kvs kv)) key, get_errmsg = NoMsg\<rparr>"
proof -
  have "kv_serving (kv', w') \<and> kv_map (kv', w') = fold kv_spec acks (kv_map (kv, w))"
    by (rule kvm.run_all_refines [OF _ assms(3)]) (use assms in simp)
  with assms(4) show ?thesis by (simp add: Get_def kv_laws)
qed

subsection \<open>Requests and restarts\<close>

datatype ('r, 'c) step = Request 'r | Restart 'c

fun requests :: "('r, 'c) step list \<Rightarrow> 'r list" where
  "requests [] = []"
| "requests (Request r # xs) = r # requests xs"
| "requests (Restart c # xs) = requests xs"

text \<open>Runs the steps; the result lists the acknowledged requests.\<close>

fun run_steps ::
    "('r \<Rightarrow> 's \<Rightarrow> (bool \<times> 's) option) \<Rightarrow> ('c \<Rightarrow> 's \<Rightarrow> 's option) \<Rightarrow> ('r, 'c) step list \<Rightarrow> 's \<Rightarrow> ('r list \<times> 's) option" where
  "run_steps run restart [] s = Some ([], s)"
| "run_steps run restart (Request r # xs) s =
    (case run r s of
       None \<Rightarrow> None
     | Some (ok, s) \<Rightarrow> map_option (\<lambda>(acks, s). (if ok then r # acks else acks, s)) (run_steps run restart xs s))"
| "run_steps run restart (Restart c # xs) s =
    (case restart c s of None \<Rightarrow> None | Some s \<Rightarrow> run_steps run restart xs s)"

fun good_step :: "('r \<Rightarrow> bool) \<Rightarrow> ('c \<Rightarrow> bool) \<Rightarrow> ('r, 'c) step \<Rightarrow> bool" where
  "good_step good clean (Request r) = good r"
| "good_step good clean (Restart c) = clean c"

locale durable_map =
  fixes repr :: "'s \<Rightarrow> 'm \<Rightarrow> bool"
    and good :: "'r \<Rightarrow> bool"
    and clean :: "'c \<Rightarrow> bool"
    and room :: "'s \<Rightarrow> nat \<Rightarrow> bool"
    and run :: "'r \<Rightarrow> 's \<Rightarrow> (bool \<times> 's) option"
    and restart :: "'c \<Rightarrow> 's \<Rightarrow> 's option"
    and spec :: "'r \<Rightarrow> 'm \<Rightarrow> 'm"
  assumes run_law: "repr s m \<Longrightarrow> good r \<Longrightarrow> room s (Suc n) \<Longrightarrow> \<exists>s'. run r s = Some (True, s') \<and> repr s' (spec r m) \<and> room s' n"
    and restart_law: "repr s m \<Longrightarrow> clean c \<Longrightarrow> room s (Suc n) \<Longrightarrow> \<exists>s'. restart c s = Some s' \<and> repr s' m \<and> room s' n"
begin

lemma steps_durable:
  "repr s m \<Longrightarrow> list_all (good_step good clean) steps \<Longrightarrow> room s (length steps) \<Longrightarrow>
   \<exists>s'. run_steps run restart steps s = Some (requests steps, s') \<and> repr s' (fold spec (requests steps) m)"
proof (induction steps arbitrary: s m)
  case (Cons x xs)
  show ?case
  proof (cases x)
    case (Request r)
    with run_law [OF Cons.prems(1), of r "length xs"] Cons.prems obtain s1 where
      "run r s = Some (True, s1)" "repr s1 (spec r m)" "room s1 (length xs)" by auto
    with Cons.IH [of s1 "spec r m"] Cons.prems(2) Request show ?thesis by auto
  next
    case (Restart c)
    with restart_law [OF Cons.prems(1), of c "length xs"] Cons.prems obtain s1 where
      "restart c s = Some s1" "repr s1 m" "room s1 (length xs)" by auto
    with Cons.IH [of s1 m] Cons.prems(2) Restart show ?thesis by auto
  qed
qed simp

end

text \<open>
  A restart of the store: the process is killed, a new one constructs the store and starts it, with its
  own schedule of system calls.
\<close>

definition kv_restart :: "protobuf \<Rightarrow> KVConfig \<Rightarrow> sysev list \<Rightarrow> MiniKV \<times> world \<Rightarrow> (MiniKV \<times> world) option" where
  "kv_restart pb pc sch s =
    (case MiniKV_ctor pc of
       None \<Rightarrow> None
     | Some kv \<Rightarrow>
         (case Start pb kv (reboot sch (snd s)) of
            Some (True, s) \<Rightarrow> Some s
          | _ \<Rightarrow> None))"

definition kv_holds :: "protobuf \<Rightarrow> KVConfig \<Rightarrow> MiniKV \<times> world \<Rightarrow> (bytes \<rightharpoonup> PbEntry) \<Rightarrow> bool" where
  "kv_holds pb pc s m = (kv_repr pb pc (fst s) (snd s) \<and> map_of (k_kvs (fst s)) = m)"

definition kv_room :: "MiniKV \<times> world \<Rightarrow> nat \<Rightarrow> bool" where
  "kv_room s n = wal_room (k_wal (fst s), snd s) n"

definition no_failure :: "sysev list \<Rightarrow> bool" where
  "no_failure sch = (\<forall>ev \<in> set sch. case ev of SysFail _ \<Rightarrow> False | _ \<Rightarrow> True)"

lemma kv_restart_disk:
  assumes "kv_disk pb pc wal w (kvs, i)" "no_failure sch"
  shows "\<exists>kv' w'. kv_restart pb pc sch (kv, w) = Some (kv', w') \<and> kv_repr pb pc kv' w' \<and> k_kvs kv' = kvs \<and>
    m_currentEntryIdx (k_wal kv') = m_currentEntryIdx wal \<and> m_currentSegmentId (k_wal kv') = m_currentSegmentId wal"
proof -
  have "kv_conf pc" and at: "cp_at (kv_cp pc) (content w) w" using assms(1) by (auto simp: kv_disk_def cp_clean_def)
  then obtain kv0 where kv0: "MiniKV_ctor pc = Some kv0" using kv_conf_ctor by metis
  have "kv_disk pb pc wal (reboot sch w) (kvs, i)"
    by (rule kv_disk_same [OF assms(1)]) (use assms(2) cp_atD(2) [OF at] in \<open>auto simp: no_failure_def\<close>)
  from Start_recovers [OF this kv0] kv0 show ?thesis by (auto simp: kv_restart_def)
qed

interpretation kvd: durable_map "kv_holds pb pc" "\<lambda>r. pb_ok pb \<and> req_fits pb pc r" no_failure kv_room "kv_run pb"
    "kv_restart pb pc" kv_spec for pb pc
proof (unfold_locales, goal_cases)
  case (1 s m r n)
  obtain kv w where s: "s = (kv, w)" by fastforce
  have r: "kv_repr pb pc kv w" "wal_room (k_wal kv, w) (Suc n)" "m = map_of (k_kvs kv)"
    using 1 by (simp_all add: s kv_holds_def kv_room_def)
  have pb: "pb_ok pb" using 1 by simp
  show ?case
  proof (cases r)
    case (PutReq x)
    with 1 obtain e where e: "x = Some e" by (cases x) auto
    with Put_done [OF r(1) pb _ r(2), of e] 1 PutReq show ?thesis
      by (fastforce simp: s kv_holds_def kv_room_def r(3) kv_ok_map [OF kv_repr_ok [OF r(1)]])
  next
    case (DeleteReq k)
    with Delete_done [OF r(1) pb _ r(2), of k] 1 show ?thesis
      by (fastforce simp: s kv_holds_def kv_room_def r(3) kv_ok_map [OF kv_repr_ok [OF r(1)]])
  qed
next
  case (2 s m c n)
  obtain kv w where s: "s = (kv, w)" by fastforce
  have "kv_disk pb pc (k_wal kv) w (k_kvs kv, k_applyId kv)" using 2(1) by (simp add: s kv_holds_def kv_repr_def)
  from kv_restart_disk [OF this 2(2), of kv] obtain kv' w' where "kv_restart pb pc c (kv, w) = Some (kv', w')" "kv_repr pb pc kv' w'"
    "k_kvs kv' = k_kvs kv" "m_currentEntryIdx (k_wal kv') = m_currentEntryIdx (k_wal kv)"
    "m_currentSegmentId (k_wal kv') = m_currentSegmentId (k_wal kv)" by blast
  with 2 show ?case by (auto simp: s kv_holds_def kv_room_def wal_room_def)
qed

text \<open>The directories of a new store: no segment, no truncation file, no checkpoint.\<close>

definition kv_empty :: "KVConfig \<Rightarrow> world \<Rightarrow> bool" where
  "kv_empty pc w = (empty_log_dir w (kc_WalRootDirPath pc) \<and> cp_clean pc w \<and> content w (cp_sCpMetaFilePath (kv_cp pc)) = None)"

lemma Start_empty:
  assumes "kv_conf pc" "kv_empty pc w" "MiniKV_ctor pc = Some kv0"
  shows "\<exists>kv w'. Start pb kv0 w = Some (True, kv, w') \<and> kv_repr pb pc kv w' \<and> k_kvs kv = [] \<and>
    m_currentEntryIdx (k_wal kv) = 1 \<and> m_currentSegmentId (k_wal kv) = 1"
proof -
  let ?ops = "kv_wal_ops pb"
  have e: "empty_log_dir w (kc_WalRootDirPath pc)" "cp_clean pc w" "cp_holds (kv_cp_ops pb) (checkpointConf pc) (content w) 0 []"
    using assms(2) by (simp_all add: kv_empty_def cp_holds_def cp_meta_def)
  obtain st0 where st0: "LogCleanWal_ctor (walConf pc) = Some st0" "k_wal kv0 = st0" "k_checkpoint kv0 = kv_cp pc" "k_kvs kv0 = []"
    "\<not> k_walLock kv0" "wal_conf st0" using kv_conf_ctor [OF assms(1)] assms(3) by (metis option.inject)
  obtain cbs w1 w2 where cp: "cp_Init (kv_cp pc) w = (C_OK, cp_object (checkpointConf pc), w1)"
    "cp_Load (kv_cp_ops pb) (cp_object (checkpointConf pc)) w1 = (Inr 0, cbs, w2)" "concat cbs = []" "quiet w w2"
    using cp_start [OF e(2,3) kvc.local_creator] by blast
  have rw: "reliable w" "wf_world w" using e(2) cp_atD(1,2) [of "kv_cp pc" "content w" w] by (simp_all add: cp_clean_def)
  then have q: "content w2 = content w" "is_dir w2 = is_dir w" "reliable w2" "wf_world w2" using cp(4) by (auto simp: quiet_def)
  have e2: "empty_log_dir w2 (RootDirPath (walConf pc))"
    using e(1) log_world_step [OF _ q(2-4)] unfolding empty_log_dir_def log_segments_cong [OF q(1)] no_trunc_files_cong [OF q(1,2)]
    by simp
  obtain wal' w3 where s: "wal_start ?ops st0 w2 = (W_OK, [], wal', w3)" "wal_repr ?ops (walConf pc) (wal', w3) []"
    "m_currentEntryIdx wal' = 1" "m_currentSegmentId wal' = 1"
    "content w3 = (content w2)(seg_path (kc_WalRootDirPath pc) 1 \<mapsto> segment_bytes [])" "is_dir w3 = is_dir w2"
    using wal_boot_step [OF kvw.local_creator [of pb] st0(1,6) e2] by auto
  let ?kv = "kv0\<lparr>k_checkpoint := cp_object (checkpointConf pc), k_kvs := [], k_applyId := 0, k_wal := wal', k_bStopped := False,
    k_timer := k_timer kv0 + 1\<rparr>"
  have "Start pb kv0 w = Some (True, ?kv, w3)"
    by (rule Start_run [of kv0 w _ w1 pb 0 cbs w2 "[]" "[]" wal' w3 "[]" 0]) (use cp s st0 in \<open>simp_all del: concat_eq_Nil_conv\<close>)
  moreover have "kv_disk pb pc wal' w3 ([], 0)"
  proof -
    have rw3: "reliable w3" "wf_world w3" using s(2) by (auto simp: wal_repr_def wal_ok_def log_world_def)
    have "touches (in_dir (kc_WalRootDirPath pc)) {} w w3" using s(5,6) q(1,2) rw3(2) by (simp add: touches_def)
    moreover have "kc_WalRootDirPath pc \<noteq> kc_CheckpointRootDirPath pc" using assms(1) by (simp add: kv_conf_def)
    ultimately have f: "cp_clean pc w3" "cp_holds (kv_cp_ops pb) (checkpointConf pc) (content w3) 0 []"
      using cp_clean_frame [OF _ _ rw3(1) e(2)] e(3) by blast+
    then have "kv_recovers pb pc w3 [] 0 ([], 0)"
      unfolding kv_recovers_def by (intro exI [of _ "[]"]) simp
    moreover have "m_currentEntryIdx wal' = last_id ([] :: (u64 \<times> KvEntry) list)" by (simp add: s(3) last_id_def)
    ultimately show ?thesis unfolding kv_disk_def by (intro conjI exI [of _ "[]"] exI [of _ 0] assms(1) f(1) s(2)) simp_all
  qed
  ultimately show ?thesis using s(3,4) st0(5) by (intro exI [of _ ?kv] exI [of _ w3]) (simp add: kv_repr_def)
qed

text \<open>
  C1: the store is durable.  On empty directories it starts; then any sequence of Put and Delete
  requests and restarts, in any order, runs through: every request is acknowledged with OK, every
  restart succeeds, and in the end Get answers each key with what the acknowledged requests left under
  it.  A restart kills the process and constructs and starts a new store; system calls may be
  interrupted and may do less than asked, but do not fail.  Each request must fit a read batch of the
  log, and a key to delete must not contain a NUL byte.
\<close>

theorem store_durable:
  assumes "pb_ok pb" "kv_conf pc" "kv_empty pc w" "list_all (good_step (req_fits pb pc) no_failure) steps"
    and "length steps + 3 < 2 ^ 64 - 1"
  shows "\<exists>kv0 s s'. MiniKV_ctor pc = Some kv0 \<and> Start pb kv0 w = Some (True, s) \<and>
    run_steps (kv_run pb) (kv_restart pb pc) steps s = Some (requests steps, s') \<and>
    (\<forall>key. key \<noteq> [] \<longrightarrow> Get key (fst s') =
       \<lparr>get_rc = OK, get_entry = fold kv_spec (requests steps) Map.empty key, get_errmsg = NoMsg\<rparr>)"
proof -
  obtain kv0 where kv0: "MiniKV_ctor pc = Some kv0" using kv_conf_ctor [OF assms(2)] by metis
  obtain kv w' where s: "Start pb kv0 w = Some (True, kv, w')" "kv_repr pb pc kv w'" "k_kvs kv = []"
    "m_currentEntryIdx (k_wal kv) = 1" "m_currentSegmentId (k_wal kv) = 1"
    using Start_empty [OF assms(2,3) kv0] by blast
  have h: "kv_holds pb pc (kv, w') Map.empty" "kv_room (kv, w') (length steps)"
    using s(2-5) assms(5) by (simp_all add: kv_holds_def kv_room_def wal_room_def)
  have "list_all (good_step (\<lambda>r. pb_ok pb \<and> req_fits pb pc r) no_failure) steps"
    using assms(1,4) by (induction steps rule: requests.induct) auto
  from kvd.steps_durable [OF h(1) this h(2)] obtain s' where
    s': "run_steps (kv_run pb) (kv_restart pb pc) steps (kv, w') = Some (requests steps, s')"
      "kv_holds pb pc s' (fold kv_spec (requests steps) Map.empty)" by blast
  have r: "kv_repr pb pc (fst s') (snd s')" "map_of (k_kvs (fst s')) = fold kv_spec (requests steps) Map.empty"
    using s'(2) by (simp_all add: kv_holds_def)
  then have "kv_ok (k_kvs (fst s'))" "\<not> k_bStopped (fst s')" using kv_repr_ok [OF r(1)] by (simp_all add: kv_repr_def)
  with r(2) kv0 s(1) s'(1) show ?thesis
    by (intro exI [of _ kv0] exI [of _ "(kv, w')"] exI [of _ s']) (simp add: Get_def kv_laws)
qed

lemma demo_conf_ok: "kv_conf demo_conf"
proof -
  have "trunc_ok_path ''/w'' = ''/w'' @ ''/'' @ LOGCLEAN_WAL_TRUNC_OK_NAME"
    "trunc_info_path ''/w'' = ''/w'' @ ''/'' @ LOGCLEAN_WAL_TRUNC_META_NAME"
    by (simp_all add: trunc_ok_path_def trunc_info_path_def)
  then show ?thesis by (simp add: kv_conf_def demo_conf_def walConf_def LogCleanWal_ctor_def wal_conf_def wal_paths_def)
qed

lemma demo_empty: "kv_empty demo_conf demo_world"
proof -
  let ?st = "kv_cp demo_conf"
  have d: "is_dir demo_world p = (p = ''/'' \<or> p = ''/w'' \<or> p = ''/c'')" for p by (auto simp: is_dir_def demo_world_def)
  have c: "content demo_world = Map.empty" by (auto simp: content_def demo_world_def)
  have w: "reliable demo_world" "wf_world demo_world" by (simp add: reliable_def demo_world_def, simp add: wf_world_def c) (simp add: demo_world_def)
  have "dir_ready demo_world ''/w''" "dir_ready demo_world ''/c''" unfolding dir_ready_def d by code_simp+
  moreover have "\<forall>p \<in> set (cp_paths ?st). \<not> is_dir demo_world p" unfolding d demo_conf_def by code_simp
  moreover have "cp_sRootDir ?st = ''/c''" by (simp add: demo_conf_def)
  ultimately show ?thesis
    using w ctor_wf [of "checkpointConf demo_conf"]
    by (simp add: kv_empty_def empty_log_dir_def cp_clean_def cp_at_def c log_world_def log_segments_def no_trunc_files_def d
        seg_path_def trunc_info_path_def trunc_ok_path_def) (simp add: demo_conf_def)
qed

definition demo_steps :: "(kv_req, sysev list) step list" where
  "demo_steps = [Request (PutReq (Some \<lparr>pb_key = [1], pb_value = [7]\<rparr>)), Restart [SysShort 1, SysOk],
     Request (PutReq (Some \<lparr>pb_key = [2], pb_value = [8]\<rparr>)), Request (DeleteReq [1]), Restart []]"

theorem store_durable_witness:
  "\<exists>kv0 s s'. MiniKV_ctor demo_conf = Some kv0 \<and> Start small_pb kv0 demo_world = Some (True, s) \<and>
    run_steps (kv_run small_pb) (kv_restart small_pb demo_conf) demo_steps s = Some (requests demo_steps, s') \<and>
    get_entry (Get [1] (fst s')) = None \<and> get_entry (Get [2] (fst s')) = Some \<lparr>pb_key = [2], pb_value = [8]\<rparr>"
proof -
  have good: "list_all (good_step (req_fits small_pb demo_conf) no_failure) demo_steps"
    by (simp add: demo_steps_def small_pb_def value_fits_def demo_conf_def no_failure_def)
  have "length demo_steps + 3 < 2 ^ 64 - 1" by (simp add: demo_steps_def)
  from store_durable [OF small_pb_ok demo_conf_ok demo_empty good this] obtain kv0 s s' where r:
    "MiniKV_ctor demo_conf = Some kv0" "Start small_pb kv0 demo_world = Some (True, s)"
    "run_steps (kv_run small_pb) (kv_restart small_pb demo_conf) demo_steps s = Some (requests demo_steps, s')"
    "\<forall>key. key \<noteq> [] \<longrightarrow> Get key (fst s') =
       \<lparr>get_rc = OK, get_entry = fold kv_spec (requests demo_steps) Map.empty key, get_errmsg = NoMsg\<rparr>" by blast
  then have "get_entry (Get [1] (fst s')) = None" "get_entry (Get [2] (fst s')) = Some \<lparr>pb_key = [2], pb_value = [8]\<rparr>"
    by (simp_all add: demo_steps_def)
  with r(1-3) show ?thesis by blast
qed

text \<open>A store that has been started on the empty directories and has taken one entry, for the witnesses.\<close>

lemma demo_store:
  assumes "req_fits small_pb demo_conf (PutReq (Some e))"
  shows "\<exists>kv w. kv_repr small_pb demo_conf kv w \<and> k_kvs kv = [(pb_key e, e)] \<and> wal_room (k_wal kv, w) 100"
proof -
  obtain kv0 where kv0: "MiniKV_ctor demo_conf = Some kv0" using kv_conf_ctor [OF demo_conf_ok] by metis
  from Start_empty [OF demo_conf_ok demo_empty kv0, of small_pb] obtain kv w where "kv_repr small_pb demo_conf kv w" "k_kvs kv = []"
    "m_currentEntryIdx (k_wal kv) = 1" "m_currentSegmentId (k_wal kv) = 1" by blast
  moreover from this have "wal_room (k_wal kv, w) (Suc 100)" by (simp add: wal_room_def)
  ultimately show ?thesis using Put_done [OF _ small_pb_ok assms] by fastforce
qed

text \<open>The witness for the states a store can reach: started on empty directories, it has taken one Put.\<close>

theorem kv_reachable_ok_witness:
  "\<exists>kv. kv_reachable small_pb demo_conf kv \<and> k_kvs kv = [([5], \<lparr>pb_key = [5], pb_value = [7]\<rparr>)] \<and> kv_ok (k_kvs kv)"
proof -
  let ?e = "\<lparr>pb_key = [5], pb_value = [7]\<rparr>"
  obtain kv0 where kv0: "MiniKV_ctor demo_conf = Some kv0" using kv_conf_ctor [OF demo_conf_ok] by metis
  from Start_empty [OF demo_conf_ok demo_empty kv0, of small_pb] obtain kv w where s: "Start small_pb kv0 demo_world = Some (True, kv, w)"
    "kv_repr small_pb demo_conf kv w" "k_kvs kv = []" "m_currentEntryIdx (k_wal kv) = 1" "m_currentSegmentId (k_wal kv) = 1" by blast
  have "req_fits small_pb demo_conf (PutReq (Some ?e))" "wal_room (k_wal kv, w) (Suc 0)"
    using s(4,5) by (simp_all add: small_pb_def value_fits_def demo_conf_def wal_room_def)
  from Put_done [OF s(2) small_pb_ok this] s(3) obtain kv' w' where
    p: "Put small_pb (Some ?e) kv w = Some (\<lparr>put_rc = OK, put_errmsg = NoMsg\<rparr>, kv', w')" "k_kvs kv' = [([5], ?e)]" by auto
  have "kv_reachable small_pb demo_conf kv'"
    by (rule kv_reachable.put [OF kv_reachable.started [OF kv_reachable.constructed [OF kv0] s(1)] p(1)])
  with kv_reachable_ok p(2) show ?thesis by blast
qed

theorem requests_refine_map_witness:
  "\<exists>kv w acks kv' w'. run_all (kv_run small_pb) [DeleteReq [9], PutReq None] (kv, w) = Some (acks, (kv', w')) \<and>
    acks = [DeleteReq [9]] \<and>
    Get [5] kv' = \<lparr>get_rc = OK, get_entry = Some \<lparr>pb_key = [5], pb_value = [7]\<rparr>, get_errmsg = NoMsg\<rparr>"
proof -
  let ?e = "\<lparr>pb_key = [5], pb_value = [7]\<rparr>"
  have fits: "req_fits small_pb demo_conf (PutReq (Some ?e))" "req_fits small_pb demo_conf (DeleteReq [9])"
    by (simp_all add: small_pb_def value_fits_def demo_conf_def)
  from demo_store [OF fits(1)] obtain kv w where kv: "kv_repr small_pb demo_conf kv w" "k_kvs kv = [([5], ?e)]"
    "wal_room (k_wal kv, w) (Suc 99)" by auto
  obtain kv' w' where d: "Delete small_pb [9] kv w = Some (\<lparr>del_rc = OK, del_errmsg = NoMsg\<rparr>, kv', w')" "kv_repr small_pb demo_conf kv' w'"
    using Delete_done [OF kv(1) small_pb_ok fits(2) kv(3)] by blast
  have run: "run_all (kv_run small_pb) [DeleteReq [9], PutReq None] (kv, w) = Some ([DeleteReq [9]], (kv', w'))"
    using d by (simp add: Put_def kv_repr_def)
  have "kv_ok (k_kvs kv)" "\<not> k_bStopped kv" using kv_repr_ok [OF kv(1)] kv(1) by (simp_all add: kv_repr_def)
  from requests_refine_map [OF this run, of "[5]"] run kv(2) show ?thesis by auto
qed

subsection \<open>Keys with a NUL byte\<close>

text \<open>
  C32: Delete of a key that contains a NUL byte is acknowledged and removes the key in memory, but the
  entry it logs is read back up to the first NUL byte: after a restart the key is there again, with
  its old value, and the key made of the bytes before the NUL byte, if there was one, is gone.
\<close>

theorem Delete_then_restart:
  assumes "kv_repr pb pc kv w" "pb_ok pb" "value_fits pc k" "wal_room (k_wal kv, w) 1" "no_failure sch"
  shows "\<exists>kv1 w1 kv2 w2. Delete pb k kv w = Some (\<lparr>del_rc = OK, del_errmsg = NoMsg\<rparr>, kv1, w1) \<and>
    map_of (k_kvs kv1) = (map_of (k_kvs kv))(k := None) \<and>
    kv_restart pb pc sch (kv1, w1) = Some (kv2, w2) \<and>
    map_of (k_kvs kv2) = (map_of (k_kvs kv))(takeWhile (\<lambda>c. c \<noteq> 0) k := None)"
proof -
  obtain kv1 w1 where d: "Delete pb k kv w = Some (\<lparr>del_rc = OK, del_errmsg = NoMsg\<rparr>, kv1, w1)"
    "kv_disk pb pc (k_wal kv1) w1 (sm_erase Key_less (takeWhile (\<lambda>c. c \<noteq> 0) k) (k_kvs kv), k_applyId kv1)"
    "k_kvs kv1 = sm_erase Key_less k (k_kvs kv)"
    using Delete_logged [OF assms(1-3), of 0] assms(4) by auto
  obtain kv2 w2 where "kv_restart pb pc sch (kv1, w1) = Some (kv2, w2)" "k_kvs kv2 = sm_erase Key_less (takeWhile (\<lambda>c. c \<noteq> 0) k) (k_kvs kv)"
    using kv_restart_disk [OF d(2) assms(5), of kv1] by blast
  with d kv_ok_map(3) [OF kv_repr_ok [OF assms(1)]] show ?thesis by auto
qed

theorem Delete_then_restart_witness:
  "\<exists>kv w kv1 w1 kv2 w2. map_of (k_kvs kv) [5, 0] = Some \<lparr>pb_key = [5, 0], pb_value = [7]\<rparr> \<and>
    Delete small_pb [5, 0] kv w = Some (\<lparr>del_rc = OK, del_errmsg = NoMsg\<rparr>, kv1, w1) \<and> map_of (k_kvs kv1) [5, 0] = None \<and>
    kv_restart small_pb demo_conf [] (kv1, w1) = Some (kv2, w2) \<and>
    map_of (k_kvs kv2) [5, 0] = Some \<lparr>pb_key = [5, 0], pb_value = [7]\<rparr>"
proof -
  let ?e = "\<lparr>pb_key = [5, 0], pb_value = [7]\<rparr>"
  have "req_fits small_pb demo_conf (PutReq (Some ?e))" by (simp add: small_pb_def value_fits_def demo_conf_def)
  from demo_store [OF this] obtain kv w where kv: "kv_repr small_pb demo_conf kv w" "k_kvs kv = [([5, 0], ?e)]"
    "wal_room (k_wal kv, w) 100" by auto
  have "value_fits demo_conf [5, 0]" "wal_room (k_wal kv, w) 1" "no_failure []"
    using kv(3) by (simp_all add: value_fits_def demo_conf_def wal_room_def no_failure_def)
  from Delete_then_restart [OF kv(1) small_pb_ok this] obtain kv1 w1 kv2 w2 where
    "Delete small_pb [5, 0] kv w = Some (\<lparr>del_rc = OK, del_errmsg = NoMsg\<rparr>, kv1, w1)"
    "map_of (k_kvs kv1) = (map_of (k_kvs kv))([5, 0] := None)" "kv_restart small_pb demo_conf [] (kv1, w1) = Some (kv2, w2)"
    "map_of (k_kvs kv2) = (map_of (k_kvs kv))(takeWhile (\<lambda>c. c \<noteq> 0) [5, 0] := None)" by blast
  with kv(2) show ?thesis by (intro exI [of _ kv] exI [of _ w] exI [of _ kv1] exI [of _ w1] exI [of _ kv2] exI [of _ w2]) simp
qed

end
