(* ===== verification/KvRequests.thy ===== *)
theory KvRequests
  imports KvProps
begin

text \<open>
  Requests as entries of the log: what each appends, what replaying the entries on top of a checkpoint
  gives, and the segments and the disk after a sequence of requests.
\<close>

subsection \<open>Requests and their entries\<close>

fun kvs_req :: "kv_req \<Rightarrow> kvs \<Rightarrow> kvs" where
  "kvs_req (PutReq (Some e)) kvs = sm_set Key_less (pb_key e) e kvs"
| "kvs_req (PutReq None) kvs = kvs"
| "kvs_req (DeleteReq k) kvs = sm_erase Key_less k kvs"

fun req_entry :: "kv_req \<Rightarrow> KvEntry" where
  "req_entry (PutReq x) = WalPutEntry x"
| "req_entry (DeleteReq k) = WalDeleteEntry (Some k) (length k)"

text \<open>The entries of requests when the last id before them is \<open>i\<close>, as the log hands them back, and the segments with them.\<close>

fun req_log :: "protobuf \<Rightarrow> u64 \<Rightarrow> kv_req list \<Rightarrow> (u64 \<times> KvEntry) list" where
  "req_log pb i [] = []"
| "req_log pb i (r # rs) = (i + 1, stored (kv_wal_ops pb) (req_entry r)) # req_log pb (i + 1) rs"

fun log_after :: "protobuf \<Rightarrow> nat \<Rightarrow> byte \<Rightarrow> u64 \<Rightarrow> kv_req list \<Rightarrow> log_entry list list \<Rightarrow> log_entry list list" where
  "log_after pb n v i [] L = L"
| "log_after pb n v i (r # rs) L =
    log_after pb n v (i + 1) rs (append_log n L (v, i + 1, the (Encode (kv_wal_ops pb) (req_entry r))))"

lemma kvs_req_ok: "kv_ok kvs \<Longrightarrow> kv_ok (kvs_req r kvs)" "kv_ok kvs \<Longrightarrow> map_of (kvs_req r kvs) = kv_spec r (map_of kvs)"
  by (induction r kvs rule: kvs_req.induct; simp add: kv_laws)+

lemma kvs_reqs_ok: "kv_ok kvs \<Longrightarrow> kv_ok (fold kvs_req rs kvs) \<and> map_of (fold kvs_req rs kvs) = fold kv_spec rs (map_of kvs)"
  by (induction rs arbitrary: kvs) (simp_all add: kvs_req_ok)

lemma req_good:
  assumes "pb_ok pb" "req_fits pb pc r"
  shows "wal_good (kv_wal_ops pb) (walConf pc) (req_entry r)"
    "i \<le> j \<Longrightarrow> on_wal_load_entries [(j, stored (kv_wal_ops pb) (req_entry r))] (kvs, i) = Some (kvs_req r kvs, j)"
proof -
  have "wal_good (kv_wal_ops pb) (walConf pc) (req_entry r) \<and>
    (i \<le> j \<longrightarrow> on_wal_load_entries [(j, stored (kv_wal_ops pb) (req_entry r))] (kvs, i) = Some (kvs_req r kvs, j))"
  proof (cases r)
    case (PutReq x)
    with assms(2) obtain e bs where e: "x = Some e" "SerializeToArray pb e = Some bs" "value_fits pc bs"
      by (cases x) (auto split: option.splits)
    then show ?thesis using PutReq good_put [OF assms(1) e(2,3)] kv_stored(1) [OF assms(1) e(2)] replay_put [of i j]
      by (simp add: value_fits_def)
  next
    case (DeleteReq k)
    then have k: "value_fits pc k" "takeWhile (\<lambda>c. c \<noteq> 0) k = k" using assms(2) by (auto simp: takeWhile_eq_all_conv)
    then show ?thesis using DeleteReq good_delete [OF k(1)] kv_stored(3) [OF assms(1)] replay_delete [of i j k, unfolded k(2)]
      by (simp add: value_fits_def del: on_wal_load_entries.simps)
  qed
  then show "wal_good (kv_wal_ops pb) (walConf pc) (req_entry r)"
    "i \<le> j \<Longrightarrow> on_wal_load_entries [(j, stored (kv_wal_ops pb) (req_entry r))] (kvs, i) = Some (kvs_req r kvs, j)" by blast+
qed

subsection \<open>Replay\<close>

lemma u64_next: "unat (i :: u64) + Suc n < 2 ^ 64 \<Longrightarrow> unat (i + 1) = Suc (unat i) \<and> unat (i + 1) + n < 2 ^ 64"
  by (simp add: unat_plus_no_wrap)

lemma u64_less_next: "unat (i :: u64) + Suc n < 2 ^ 64 \<Longrightarrow> i < i + 1"
  using u64_next [of i n] by (simp add: word_less_nat_alt)

lemma replay_reqs:
  assumes "pb_ok pb" "list_all (req_fits pb pc) rs" "unat i + length rs < 2 ^ 64" "j \<le> i"
  shows "on_wal_load_entries (req_log pb i rs) (kvs, j) =
    Some (fold kvs_req rs kvs, if rs = [] then j else i + word_of_nat (length rs))"
  using assms
proof (induction rs arbitrary: i j kvs)
  case (Cons r rs)
  have n: "unat i + Suc (length rs) < 2 ^ 64" using Cons.prems(3) by simp
  have le: "j \<le> i + 1" using u64_less_next [OF n] Cons.prems(4) by simp
  have "on_wal_load_entries (req_log pb (i + 1) rs) (kvs_req r kvs, i + 1) =
      Some (fold kvs_req rs (kvs_req r kvs), if rs = [] then i + 1 else i + 1 + word_of_nat (length rs))"
    using Cons.IH [of "i + 1" "i + 1"] Cons.prems u64_next [OF n] by simp
  moreover have "on_wal_load_entries (req_log pb i (r # rs)) (kvs, j) =
      Option.bind (on_wal_load_entries [(i + 1, stored (kv_wal_ops pb) (req_entry r))] (kvs, j)) (on_wal_load_entries (req_log pb (i + 1) rs))"
    using on_wal_load_append [of "[(i + 1, stored (kv_wal_ops pb) (req_entry r))]" "req_log pb (i + 1) rs" "(kvs, j)"] by simp
  ultimately show ?case using req_good(2) [OF assms(1) _ le, of pc r kvs] Cons.prems(2) by (simp add: add.assoc del: on_wal_load_entries.simps)
qed simp

lemma drop_req_log: "drop n (req_log pb i rs) = req_log pb (i + word_of_nat n) (drop n rs)"
proof (induction rs arbitrary: i n)
  case (Cons r rs)
  then show ?case by (cases n) (simp_all add: add.assoc)
qed simp

lemma length_req_log [simp]: "length (req_log pb i rs) = length rs"
  by (induction rs arbitrary: i) simp_all

lemma last_req_log: "rs \<noteq> [] \<Longrightarrow> fst (last (req_log pb i rs)) = i + word_of_nat (length rs)"
proof (induction rs arbitrary: i)
  case (Cons r rs)
  have "req_log pb (i + 1) rs = [] \<longleftrightarrow> rs = []" by (cases rs) simp_all
  with Cons.IH [of "i + 1"] show ?case by (cases "rs = []") (simp_all add: add.assoc)
qed simp

text \<open>The keys requests write: elsewhere they change nothing, and there what was before does not matter.\<close>

fun req_key :: "kv_req \<Rightarrow> bytes option" where
  "req_key (PutReq x) = map_option pb_key x"
| "req_key (DeleteReq k) = Some k"

lemma kv_spec_other: "req_key r \<noteq> Some x \<Longrightarrow> kv_spec r m x = m x"
  by (induction r m rule: kv_spec.induct) auto

lemma kv_specs_other: "\<forall>r \<in> set rs. req_key r \<noteq> Some x \<Longrightarrow> fold kv_spec rs m x = m x"
  by (induction rs arbitrary: m) (simp_all add: kv_spec_other)

lemma kv_spec_agree: "m x = m' x \<or> req_key r = Some x \<Longrightarrow> kv_spec r m x = kv_spec r m' x"
  by (induction r m rule: kv_spec.induct) auto

lemma kv_specs_agree: "m x = m' x \<or> (\<exists>r \<in> set rs. req_key r = Some x) \<Longrightarrow> fold kv_spec rs m x = fold kv_spec rs m' x"
proof (induction rs arbitrary: m m')
  case (Cons r rs)
  show ?case
  proof (cases "\<exists>r \<in> set rs. req_key r = Some x")
    case True
    with Cons.IH show ?thesis by simp
  next
    case False
    with Cons.prems have "kv_spec r m x = kv_spec r m' x" by (intro kv_spec_agree) auto
    with Cons.IH [of "kv_spec r m" "kv_spec r m'"] show ?thesis by simp
  qed
qed simp

lemma fold_reqs_agree:
  assumes "kv_ok kvs" "kv_ok kvs'" "\<And>x. map_of kvs x = map_of kvs' x \<or> (\<exists>r \<in> set rs. req_key r = Some x)"
  shows "fold kvs_req rs kvs = fold kvs_req rs kvs'"
proof -
  note a = kvs_reqs_ok [OF assms(1), of rs] and b = kvs_reqs_ok [OF assms(2), of rs]
  have "map_of (fold kvs_req rs kvs) = map_of (fold kvs_req rs kvs')"
    using kv_specs_agree [of "map_of kvs" _ "map_of kvs'" rs] assms(3) a b by auto
  with a b show ?thesis by (intro kv.sm_ok_unique) (simp_all add: kv_ok_def)
qed

subsection \<open>The entries of a traveller\<close>

lemma kv_ok_Cons: "kv_ok (x # kvs) \<Longrightarrow> kv_ok kvs" "kv_ok (x # kvs) \<Longrightarrow> y \<in> set kvs \<Longrightarrow> Key_less (fst x) (fst y)"
  by (auto simp: kv_ok_def sm_ok_def)

lemma elements_from_ok: "kv_ok kvs \<Longrightarrow> kv_ok (elements_from cur kvs)"
proof -
  have "kv_ok (dropWhile P kvs)" if "kv_ok kvs" for P using that by (induction kvs) (auto dest: kv_ok_Cons(1))
  then show "kv_ok kvs \<Longrightarrow> kv_ok (elements_from cur kvs)" by (simp add: elements_from_def split: option.split)
qed

lemma map_of_dropWhile:
  assumes "kv_ok kvs" "map_of kvs k \<noteq> None" "\<not> Key_less x k"
  shows "map_of (dropWhile (\<lambda>y. fst y \<noteq> k) kvs) x = map_of kvs x"
  using assms
proof (induction kvs)
  case (Cons y kvs)
  show ?case
  proof (cases "fst y = k")
    case False
    then have "map_of kvs k \<noteq> None" using Cons.prems(2) by (cases y) simp
    then obtain v where "(k, v) \<in> set kvs" by (auto dest: map_of_SomeD)
    then have "Key_less (fst y) k" using kv_ok_Cons(2) [OF Cons.prems(1)] by force
    then have "fst y \<noteq> x" using Cons.prems(3) by auto
    then show ?thesis using Cons.IH [OF kv_ok_Cons(1) [OF Cons.prems(1)] \<open>map_of kvs k \<noteq> None\<close> Cons.prems(3)] False by (cases y) simp
  qed simp
qed simp

text \<open>
  A traveller made of the map \<open>kvs\<close> that enumerates after the requests \<open>rs\<close> misses only keys which these
  requests have written.
\<close>

lemma traveller_agrees:
  assumes "kv_ok kvs" "iterator_valid (map_begin kvs) (fold kvs_req rs kvs)" "\<forall>r \<in> set rs. req_key r \<noteq> Some x"
  shows "map_of (elements_from (map_begin kvs) (fold kvs_req rs kvs)) x = map_of kvs x"
proof (cases kvs)
  case Nil
  then show ?thesis by (simp add: map_begin_def elements_from_def)
next
  case (Cons y kvs0)
  let ?S = "fold kvs_req rs kvs"
  note S = kvs_reqs_ok [OF assms(1), of rs]
  have Sx: "map_of ?S x = map_of kvs x" using S kv_specs_other [OF assms(3)] by simp
  have e: "elements_from (map_begin kvs) ?S = dropWhile (\<lambda>z. fst z \<noteq> fst y) ?S" by (simp add: Cons map_begin_def elements_from_def)
  show ?thesis
  proof (cases "map_of kvs x")
    case None
    then have "x \<notin> fst ` set ?S" using Sx map_of_eq_None_iff [of ?S x] by simp
    then have "x \<notin> fst ` set (dropWhile (\<lambda>z. fst z \<noteq> fst y) ?S)" using set_dropWhileD by fastforce
    then have "map_of (dropWhile (\<lambda>z. fst z \<noteq> fst y) ?S) x = None" by (rule iffD2 [OF map_of_eq_None_iff])
    then show ?thesis using None e by simp
  next
    case (Some v)
    then have "(x, v) \<in> set (y # kvs0)" using map_of_SomeD Cons by fast
    then have "x = fst y \<or> Key_less (fst y) x" using kv_ok_Cons(2) [of y kvs0 "(x, v)"] assms(1) Cons by auto
    then have "\<not> Key_less x (fst y)" using Key_less_irrefl Key_less_trans by blast
    then show ?thesis using map_of_dropWhile [of ?S "fst y" x] S assms(2) Sx e Cons by (simp add: iterator_valid_def map_begin_def)
  qed
qed

subsection \<open>What an append leaves alone\<close>

lemma sys_locks_write:
  "locks (snd (sys_write fd bs w)) = locks w" "locks (snd (sys_open p creat trunc w)) = locks w"
  "locks (snd (sys_close fd w)) = locks w" "locks (snd (sys_fdatasync fd w)) = locks w"
  by (auto simp: sys_write_def sys_open_def sys_close_def sys_fdatasync_def syscall_def Let_def
      split: list.splits sysev.splits option.splits)

lemma WriteFully_locks: "locks (snd (WriteFully fd bs w)) = locks w"
proof -
  have "locks (snd (WriteFully_loop fd bs w)) = locks w" for fd bs w
  proof (induction fd bs w rule: WriteFully_loop.induct)
    case (1 fd bs w)
    obtain r fd1 w1 where wr: "sys_write fd bs w = ((r, fd1), w1)" by (metis surj_pair)
    with sys_locks_write(1) [of fd bs w] have "locks w1 = locks w" by simp
    with 1 wr show ?case by (simp add: WriteFully_loop.simps [of fd bs w] split: option.splits)
  qed
  then show ?thesis by (simp add: WriteFully_def split_beta split: bool.split)
qed

lemma create_new_segment_file_keeps:
  "locks (snd (snd (create_new_segment_file st w))) = locks w" "m_minSegmentId (fst (snd (create_new_segment_file st w))) = m_minSegmentId st"
  using sys_locks_write(2,3) WriteFully_locks
  by (simp_all add: create_new_segment_file_def Open_def Let_def split_beta if_distrib [of snd] if_distrib [of fst] cong: if_cong)

lemma append_result_object:
  "fst (snd (case r of (W_OK, st, w) \<Rightarrow> (Inr (f st), st, w) | (rc, st, w) \<Rightarrow> (Inl rc, st, w))) = fst (snd r)"
  by (cases r; cases "fst r") simp_all

lemma AppendEntry_keeps:
  "locks (snd (snd (AppendEntry ops st e w))) = locks w" "m_minSegmentId (fst (snd (AppendEntry ops st e w))) = m_minSegmentId st"
proof -
  have "locks (snd (snd (AppendEntry ops st e w))) = locks w \<and> m_minSegmentId (fst (snd (AppendEntry ops st e w))) = m_minSegmentId st"
  proof (cases "Encode ops e")
    case None
    then show ?thesis by (simp add: AppendEntry_def)
  next
    case (Some eb)
    let ?b = "wal_entry_bytes (m_writeEntryVersion st) (m_currentEntryIdx st + 1) eb (m_curSegFileSize st)"
    obtain n fd w1 b w2 where r: "WriteFully (m_currentSegFd st) ?b w = ((n, fd), w1)" "sys_fdatasync fd w1 = (b, w2)"
      by (metis surj_pair)
    have "locks w1 = locks w" "locks w2 = locks w"
      using WriteFully_locks [of "m_currentSegFd st" ?b w] sys_locks_write(4) [of fd w1] by (simp_all add: r)
    with create_new_segment_file_keeps Some show ?thesis
      by (simp add: AppendEntry_def Let_def r append_result_world append_result_object if_distrib [of snd] if_distrib [of fst] cong: if_cong)
  qed
  then show "locks (snd (snd (AppendEntry ops st e w))) = locks w" "m_minSegmentId (fst (snd (AppendEntry ops st e w))) = m_minSegmentId st"
    by blast+
qed

subsection \<open>The log after requests\<close>

lemma log_after_Nil [simp]: "L \<noteq> [] \<Longrightarrow> log_after pb n v i rs L \<noteq> []"
  by (induction rs arbitrary: i L) (simp_all add: append_log_def extend_last_def)

lemma append_log_pairs: "L \<noteq> [] \<Longrightarrow> \<exists>ps. log_pairs m (append_log n L x) = log_pairs m L @ ps"
  by (auto simp: append_log_def log_pairs_extend_last log_pairs_append)

lemma log_after_grows:
  "L \<noteq> [] \<Longrightarrow> length L \<le> length (log_after pb n v i rs L) \<and> (\<exists>ps. log_pairs m (log_after pb n v i rs L) = log_pairs m L @ ps)"
proof (induction rs arbitrary: i L)
  case (Cons r rs)
  let ?L = "append_log n L (v, i + 1, the (Encode (kv_wal_ops pb) (req_entry r)))"
  have ne: "?L \<noteq> []" "length L \<le> length ?L" using Cons.prems by (auto simp: append_log_def extend_last_def)
  obtain ps where "log_pairs m ?L = log_pairs m L @ ps" using append_log_pairs [OF Cons.prems] by blast
  with Cons.IH [OF ne(1), of "i + 1"] ne(2) show ?case by auto
qed simp

lemma log_after_decoded:
  assumes "L \<noteq> []" "pb_ok pb" "list_all (req_fits pb pc) rs"
  shows "decoded (kv_wal_ops pb) (concat (log_after pb n v i rs L)) = decoded (kv_wal_ops pb) (concat L) @ req_log pb i rs"
  using assms(1,3)
proof (induction rs arbitrary: i L)
  case (Cons r rs)
  let ?ops = "kv_wal_ops pb"
  let ?x = "(v, i + 1, the (Encode ?ops (req_entry r)))"
  have ne: "append_log n L ?x \<noteq> []" using Cons.prems(1) by (simp add: append_log_def extend_last_def)
  have "wal_good ?ops (walConf pc) (req_entry r)" using req_good(1) [OF assms(2)] Cons.prems(2) by simp
  then have "decoded ?ops [?x] = [(i + 1, stored ?ops (req_entry r))]"
    by (auto simp: decoded_def wal_good_def stored_def split: option.splits)
  then show ?case using Cons.IH [OF ne, of "i + 1"] Cons.prems by (simp add: decoded_append)
qed simp

subsection \<open>The store while it runs requests\<close>

text \<open>A serving store with its log in the segments \<open>L\<close>, whatever its checkpoint holds.\<close>

definition kv_at :: "protobuf \<Rightarrow> KVConfig \<Rightarrow> MiniKV \<Rightarrow> world \<Rightarrow> nat \<Rightarrow> log_entry list list \<Rightarrow> bool" where
  "kv_at pb pc kv w m L =
    (kv_conf pc \<and> wal_ok (kv_wal_ops pb) (k_wal kv) w m L \<and> no_trunc_files w (m_sRootDir (k_wal kv)) \<and>
     wal_configured (walConf pc) (k_wal kv) \<and> m_minSegmentId (k_wal kv) = seg_id m 0 \<and> cp_clean pc w \<and>
     \<not> k_bStopped kv \<and> \<not> k_walLock kv \<and> k_checkpoint kv = cp_object (checkpointConf pc) \<and>
     k_applyId kv = m_currentEntryIdx (k_wal kv))"

text \<open>The files of the checkpoint and the locks are the same.\<close>

definition cp_same :: "KVConfig \<Rightarrow> world \<Rightarrow> world \<Rightarrow> bool" where
  "cp_same pc w w' = (locks w' = locks w \<and> (\<forall>p \<in> set (cp_paths (kv_cp pc)). content w' p = content w p))"

lemma cp_same_trans: "cp_same pc w w' \<Longrightarrow> cp_same pc w' w'' \<Longrightarrow> cp_same pc w w''"
  by (simp add: cp_same_def)

lemma cp_same_holds:
  assumes "cp_same pc w w'"
  shows "cp_holds ops (checkpointConf pc) (content w) i es \<Longrightarrow> cp_holds ops (checkpointConf pc) (content w') i es"
    "cp_meta (kv_cp pc) (content w) i \<Longrightarrow> cp_meta (kv_cp pc) (content w') i"
  using assms cp_holds_cong [of ops "checkpointConf pc" "content w" i es "content w'"]
  by (simp_all add: cp_same_def cp_meta_def)

lemma kv_append_at:
  assumes "kv_at pb pc kv w m L" "pb_ok pb" "req_fits pb pc r" "wal_room (k_wal kv, w) (Suc n)"
  defines "i \<equiv> next_id (k_wal kv)"
  shows "\<exists>wal' w'. AppendEntry (kv_wal_ops pb) (k_wal kv) (req_entry r) w = (Inr i, wal', w') \<and>
    kv_at pb pc (kv\<lparr>k_kvs := kvs, k_wal := wal', k_applyId := i\<rparr>) w' m
      (append_log (unat (m_segmentMaxSize (k_wal kv))) L (m_writeEntryVersion (k_wal kv), i, the (Encode (kv_wal_ops pb) (req_entry r)))) \<and>
    wal_room (wal', w') n \<and> cp_same pc w w' \<and> same_conf (k_wal kv) wal' \<and> m_currentEntryIdx wal' = i"
proof -
  let ?ops = "kv_wal_ops pb" and ?wal = "k_wal kv" and ?e = "req_entry r"
  have a: "kv_conf pc" "wal_ok ?ops ?wal w m L" "no_trunc_files w (m_sRootDir ?wal)" "wal_configured (walConf pc) ?wal"
    "m_minSegmentId ?wal = seg_id m 0" "cp_clean pc w" using assms(1) by (simp_all add: kv_at_def)
  note good = req_good(1) [OF assms(2,3)]
  obtain bs where bs: "appendable ?ops ?wal m L ?e bs" using wal_good_appendable [OF a(2,4) good assms(4)] by blast
  then have "the (Encode ?ops ?e) = bs" by (simp add: appendable_def)
  with AppendEntry_done [OF a(2) bs refl] obtain wal' w' where r: "AppendEntry ?ops ?wal ?e w = (Inr i, wal', w')"
    "wal_ok ?ops wal' w' m (append_log (unat (m_segmentMaxSize ?wal)) L (m_writeEntryVersion ?wal, i, the (Encode ?ops ?e)))"
    "m_currentEntryIdx wal' = i" "same_conf ?wal wal'" "is_dir w' = is_dir w"
    "\<forall>p. (\<forall>i. p \<noteq> seg_path (m_sRootDir ?wal) i) \<longrightarrow> content w' p = content w p" by (auto simp: i_def)
  have repr: "wal_repr ?ops (walConf pc) (?wal, w) (decoded ?ops (concat L))" using a(2-4) by (auto simp: wal_repr_def)
  have room: "wal_room (wal', w') n" using wal_append_step [OF repr good assms(4)] r(1) by (auto simp: wal_append_def)
  have conf: "wal_configured (walConf pc) wal'" using a(4) r(4) by (auto simp: wal_configured_def same_conf_def split: option.splits)
  have roots: "m_sRootDir ?wal = kc_WalRootDirPath pc" "kc_WalRootDirPath pc \<noteq> kc_CheckpointRootDirPath pc" "reliable w'"
    using wal_repr_root(1) [OF repr] a(1) r(2) by (simp_all add: kv_conf_def wal_ok_def log_world_def)
  have t: "touches (in_dir (kc_WalRootDirPath pc)) {} w w'"
    using AppendEntry_touches [OF wal_ok_in_dir [OF a(2)], of "{}" w ?ops ?e] r(1) roots(1) by simp
  have "content w' p = content w p" if "p \<in> set (cp_paths (kv_cp pc))" for p
    by (rule touches_file [OF t]) (use kv_cp_path [OF that] roots(2) in auto)
  then have same: "cp_same pc w w'" using AppendEntry_keeps(1) [of ?ops ?wal ?e w] r(1) by (simp add: cp_same_def)
  have "no_trunc_files w' (m_sRootDir wal')" using a(3) r(4-6) by (simp add: no_trunc_files_def same_conf_def)
  moreover have "m_minSegmentId wal' = seg_id m 0" using AppendEntry_keeps(2) [of ?ops ?wal ?e w] r(1) a(5) by simp
  moreover have "cp_clean pc w'" using cp_clean_frame(1) [OF t roots(2,3) a(6)] .
  ultimately show ?thesis using assms(1) r room same conf by (simp add: kv_at_def)
qed

lemma request_run:
  assumes "kv_at pb pc kv w m L" "pb_ok pb" "req_fits pb pc r" "wal_room (k_wal kv, w) (Suc n)"
  defines "i \<equiv> next_id (k_wal kv)"
  shows "\<exists>wal' w'. kv_run pb r (kv, w) = Some (True, kv\<lparr>k_kvs := kvs_req r (k_kvs kv), k_wal := wal', k_applyId := i\<rparr>, w') \<and>
    kv_at pb pc (kv\<lparr>k_kvs := kvs_req r (k_kvs kv), k_wal := wal', k_applyId := i\<rparr>) w' m
      (append_log (unat (m_segmentMaxSize (k_wal kv))) L (m_writeEntryVersion (k_wal kv), i, the (Encode (kv_wal_ops pb) (req_entry r)))) \<and>
    wal_room (wal', w') n \<and> cp_same pc w w' \<and> same_conf (k_wal kv) wal' \<and> m_currentEntryIdx wal' = i"
proof -
  obtain wal' w' where a: "AppendEntry (kv_wal_ops pb) (k_wal kv) (req_entry r) w = (Inr i, wal', w')"
    "kv_at pb pc (kv\<lparr>k_kvs := kvs_req r (k_kvs kv), k_wal := wal', k_applyId := i\<rparr>) w' m
      (append_log (unat (m_segmentMaxSize (k_wal kv))) L (m_writeEntryVersion (k_wal kv), i, the (Encode (kv_wal_ops pb) (req_entry r))))"
    "wal_room (wal', w') n" "cp_same pc w w'" "same_conf (k_wal kv) wal'" "m_currentEntryIdx wal' = i"
    using kv_append_at [OF assms(1-4), of "kvs_req r (k_kvs kv)"] unfolding i_def by blast
  have flags: "\<not> k_bStopped kv" "\<not> k_walLock kv" "k_applyId kv < i"
    using assms(1,4) u64_less_next [of "m_currentEntryIdx (k_wal kv)" n] by (simp_all add: kv_at_def wal_room_def i_def)
  have "kv_run pb r (kv, w) = Some (True, kv\<lparr>k_kvs := kvs_req r (k_kvs kv), k_wal := wal', k_applyId := i\<rparr>, w')"
  proof (cases r)
    case (PutReq x)
    with assms(3) obtain e where e: "x = Some e" "pb_key e \<noteq> []" by (cases x) auto
    with PutReq a(1) flags show ?thesis by (simp add: Put_def)
  next
    case (DeleteReq k)
    with assms(3) have "k \<noteq> []" by (auto simp: value_fits_def)
    with DeleteReq a(1) flags show ?thesis by (simp add: Delete_def)
  qed
  with a(2-6) show ?thesis by blast
qed

text \<open>Requests of other threads all succeed; the iterator stays valid unless one of them deletes its key.\<close>

lemma iterator_kept:
  assumes "kv_ok kvs" "iterator_valid cur kvs" "\<forall>k. cur = Some k \<longrightarrow> r \<noteq> DeleteReq k"
  shows "iterator_valid cur (kvs_req r kvs)"
proof (cases cur)
  case (Some k)
  with assms(2,3) have "kv_spec r (map_of kvs) k \<noteq> None" by (induction r "map_of kvs" rule: kv_spec.induct) (auto simp: iterator_valid_def)
  with Some kvs_req_ok(2) [OF assms(1)] show ?thesis by (simp add: iterator_valid_def)
qed (simp add: iterator_valid_def)

lemma requests_run:
  assumes "kv_at pb pc kv w m L" "pb_ok pb" "list_all (req_fits pb pc) rs" "wal_room (k_wal kv, w) (length rs + n)" "kv_ok (k_kvs kv)"
    and "iterator_valid cur (k_kvs kv)" "\<forall>k. cur = Some k \<longrightarrow> DeleteReq k \<notin> set rs"
  shows "\<exists>wal' i' w'. let kv' = kv\<lparr>k_kvs := fold kvs_req rs (k_kvs kv), k_wal := wal', k_applyId := i'\<rparr> in
    run_others pb cur rs (kv, w) = (True, kv', w') \<and>
    kv_at pb pc kv' w' m (log_after pb (unat (m_segmentMaxSize (k_wal kv))) (m_writeEntryVersion (k_wal kv)) (m_currentEntryIdx (k_wal kv)) rs L) \<and>
    wal_room (wal', w') n \<and> cp_same pc w w' \<and> same_conf (k_wal kv) wal' \<and>
    m_currentEntryIdx wal' = m_currentEntryIdx (k_wal kv) + word_of_nat (length rs) \<and> iterator_valid cur (k_kvs kv')"
  using assms
proof (induction rs arbitrary: kv w L)
  case Nil
  then show ?case
    by (intro exI [of _ "k_wal kv"] exI [of _ "k_applyId kv"] exI [of _ w]) (simp add: cp_same_def same_conf_def)
next
  case (Cons r rs)
  let ?i = "next_id (k_wal kv)" and ?kvs = "kvs_req r (k_kvs kv)"
  let ?n = "unat (m_segmentMaxSize (k_wal kv))" and ?v = "m_writeEntryVersion (k_wal kv)"
  let ?L = "append_log ?n L (?v, ?i, the (Encode (kv_wal_ops pb) (req_entry r)))"
  have p: "req_fits pb pc r" "list_all (req_fits pb pc) rs" "wal_room (k_wal kv, w) (Suc (length rs + n))" using Cons.prems by simp_all
  obtain wal1 w1 where s: "kv_run pb r (kv, w) = Some (True, kv\<lparr>k_kvs := ?kvs, k_wal := wal1, k_applyId := ?i\<rparr>, w1)"
    "kv_at pb pc (kv\<lparr>k_kvs := ?kvs, k_wal := wal1, k_applyId := ?i\<rparr>) w1 m ?L"
    "wal_room (wal1, w1) (length rs + n)" "cp_same pc w w1" "same_conf (k_wal kv) wal1" "m_currentEntryIdx wal1 = ?i"
    using request_run [OF Cons.prems(1,2) p(1,3)] by blast
  let ?kv1 = "kv\<lparr>k_kvs := ?kvs, k_wal := wal1, k_applyId := ?i\<rparr>"
  have k1: "kv_ok (k_kvs ?kv1)" "iterator_valid cur (k_kvs ?kv1)" "\<forall>k. cur = Some k \<longrightarrow> DeleteReq k \<notin> set rs"
    using kvs_req_ok(1) [OF Cons.prems(5)] iterator_kept [OF Cons.prems(5,6), of r] Cons.prems(7) by auto
  have "wal_room (k_wal ?kv1, w1) (length rs + n)" using s(3) by simp
  from Cons.IH [OF s(2) Cons.prems(2) p(2) this k1] obtain wal' i' w' where
    "run_others pb cur rs (?kv1, w1) = (True, ?kv1\<lparr>k_kvs := fold kvs_req rs ?kvs, k_wal := wal', k_applyId := i'\<rparr>, w')"
    "kv_at pb pc (?kv1\<lparr>k_kvs := fold kvs_req rs ?kvs, k_wal := wal', k_applyId := i'\<rparr>) w' m
       (log_after pb (unat (m_segmentMaxSize wal1)) (m_writeEntryVersion wal1) (m_currentEntryIdx wal1) rs ?L)"
    "wal_room (wal', w') n" "cp_same pc w1 w'" "same_conf wal1 wal'" "m_currentEntryIdx wal' = m_currentEntryIdx wal1 + word_of_nat (length rs)"
    "iterator_valid cur (fold kvs_req rs ?kvs)" by (auto simp: Let_def)
  with s k1(2) cp_same_trans [OF s(4)] show ?case
    by (intro exI [of _ wal'] exI [of _ i'] exI [of _ w']) (simp add: Let_def same_conf_def add.assoc)
qed

end
