(* ===== verification/KvCheckpoint.thy ===== *)
theory KvCheckpoint
  imports KvRequests
begin

text \<open>
  The background checkpoint of the store: Save of the map followed by the truncation of the log, what
  it keeps, and the runs in which it loses acknowledged requests.
\<close>

subsection \<open>The map and its checkpoint\<close>

abbreviation (input) raw_entries :: "kvs \<Rightarrow> KvEntry list" where
  "raw_entries kvs \<equiv> map (\<lambda>x. RawPbEntryEntry (Some (snd x))) kvs"

lemma sm_set_last:
  "sm_ok Key_less (kvs @ [(k, e)]) \<Longrightarrow> sm_set Key_less k e kvs = kvs @ [(k, e)]"
proof (induction kvs)
  case (Cons x kvs)
  then show ?case by (cases x) auto
qed simp

text \<open>Loading the entries of the map in key order builds the same map.\<close>

lemma load_raw_entries:
  "kv_ok (kvs0 @ kvs) \<Longrightarrow> on_checkpoint_load_entry (raw_entries kvs) kvs0 = Some (kvs0 @ kvs)"
proof (induction kvs arbitrary: kvs0)
  case (Cons x kvs)
  obtain k e where x: "x = (k, e)" by (cases x)
  have "pb_key e = k" "sm_ok Key_less (kvs0 @ [(k, e)])"
    using Cons.prems by (auto simp: x kv_ok_def sm_ok_def sorted_wrt_append)
  with Cons.IH [of "kvs0 @ [(k, e)]"] Cons.prems sm_set_last [of kvs0 k e] show ?case by (simp add: x)
qed simp

text \<open>
  Replaying a part of the log on top of a checkpoint that already has it: older entries are skipped,
  the last one is applied once more, which changes nothing.
\<close>

lemma replay_skipped: "\<forall>x \<in> set log. fst x < i \<Longrightarrow> on_wal_load_entries log (kvs, i) = Some (kvs, i)"
  by (induction log) auto

lemma kv_ok_again:
  assumes "kv_ok kvs"
  shows "sm_set Key_less (pb_key e) e (sm_set Key_less (pb_key e) e kvs) = sm_set Key_less (pb_key e) e kvs"
    "sm_erase Key_less k (sm_erase Key_less k kvs) = sm_erase Key_less k kvs"
proof -
  note s = kv_ok_set [OF assms, of e] and t = kv_ok_erase [OF assms, of k]
  have ok: "sm_ok Key_less kvs'" if "kv_ok kvs'" for kvs' using that by (simp add: kv_ok_def)
  show "sm_set Key_less (pb_key e) e (sm_set Key_less (pb_key e) e kvs) = sm_set Key_less (pb_key e) e kvs"
    by (rule kv.sm_ok_unique [OF ok [OF kv_ok_set [OF s]] ok [OF s]]) (simp add: kv_ok_map [OF s] kv_ok_map [OF assms])
  show "sm_erase Key_less k (sm_erase Key_less k kvs) = sm_erase Key_less k kvs"
    by (rule kv.sm_ok_unique [OF ok [OF kv_ok_erase [OF t]] ok [OF t]]) (simp add: kv_ok_map [OF t] kv_ok_map [OF assms])
qed

lemma replay_last_again:
  assumes "on_wal_load_entries [(i, p)] (kvs, j) = Some (kvs', i)" "j \<le> i" "kv_ok kvs"
  shows "on_wal_load_entries [(i, p)] (kvs', i) = Some (kvs', i)"
proof -
  have "\<not> i < j" using assms(2) by (simp add: linorder_not_less)
  with assms(1,3) show ?thesis by (auto simp: kv_ok_again split: KvEntry.splits option.splits)
qed

lemma replay_one_agree:
  assumes "on_wal_load_entries [(i, p)] (kvs, i) = Some (kvs, i)" "kv_ok kvs" "kv_ok ckvs"
  obtains ckvs' where "on_wal_load_entries [(i, p)] (ckvs, i) = Some (ckvs', i)" "kv_ok ckvs'"
    "\<And>x. map_of ckvs x = map_of kvs x \<Longrightarrow> map_of ckvs' x = map_of ckvs x"
proof -
  have map: "map_of kvs = map_of (sm_set Key_less (pb_key e) e kvs)" if "sm_set Key_less (pb_key e) e kvs = kvs" for e using that by simp
  have map': "map_of kvs = map_of (sm_erase Key_less k kvs)" if "sm_erase Key_less k kvs = kvs" for k using that by simp
  show thesis
  proof (cases p)
    case (WalPutEntry x)
    with assms(1) obtain e where e: "x = Some e" "sm_set Key_less (pb_key e) e kvs = kvs" by (auto split: option.splits)
    have "map_of kvs (pb_key e) = Some e" using map [OF e(2)] kv_ok_map(2) [OF assms(2)] by (metis fun_upd_same)
    with that [of "sm_set Key_less (pb_key e) e ckvs"] WalPutEntry e kv_ok_set [OF assms(3)] kv_ok_map(2) [OF assms(3)] show thesis
      by auto
  next
    case (WalDeleteEntry x n)
    with assms(1) obtain k0 where k0: "x = Some k0" "sm_erase Key_less (take (strlen k0) k0) kvs = kvs" by (auto split: option.splits)
    let ?k = "take (strlen k0) k0"
    have "map_of kvs ?k = None" using map' [OF k0(2)] kv_ok_map(3) [OF assms(2)] by (metis fun_upd_same)
    with that [of "sm_erase Key_less ?k ckvs"] WalDeleteEntry k0 kv_ok_erase [OF assms(3)] kv_ok_map(3) [OF assms(3)] show thesis
      by auto
  qed (use assms(1) in \<open>auto split: option.splits\<close>)
qed

text \<open>
  Replaying the log of a store and the entries of requests from the entry number \<open>N\<close> on, on top of a
  checkpoint that differs from the map only in keys of these requests.
\<close>

lemma replay_suffix:
  assumes "on_wal_load_entries (log @ [(i, p)]) (ckvs, cid) = Some (kvs, i)" "sorted_wrt (<) (map fst (log @ [(i, p)]))"
    and "cid \<le> i" "kv_ok ckvs" "pb_ok pb" "list_all (req_fits pb pc) rs" "unat i + length rs < 2 ^ 64"
    and "kv_ok C" "\<And>x. map_of C x = map_of kvs x \<or> (\<exists>r \<in> set rs. req_key r = Some x)"
    and n_def: "n = N - Suc (length log)"
  shows "on_wal_load_entries (drop N (log @ [(i, p)] @ req_log pb i rs)) (C, i) =
    Some (fold kvs_req (drop n rs) C, if drop n rs = [] then i else i + word_of_nat (length rs))"
proof (cases "N \<le> length log")
  case False
  have u: "unat (i + word_of_nat n) = unat i + n" if "n \<le> length rs"
    using that assms(7) by (simp add: unat_plus_no_wrap unat_of_nat)
  have "drop N (log @ [(i, p)] @ req_log pb i rs) = req_log pb (i + word_of_nat n) (drop n rs)"
    using drop_append [of N "log @ [(i, p)]" "req_log pb i rs"] False drop_req_log [of n pb i rs] n_def by simp
  moreover have "i + word_of_nat n + word_of_nat (length (drop n rs)) = i + word_of_nat (length rs)" if "n \<le> length rs"
    using that by (simp add: add.assoc flip: of_nat_add)
  moreover have "list_all (req_fits pb pc) (drop n rs)" using assms(6) by (auto simp: list_all_iff dest: in_set_dropD)
  ultimately show ?thesis
    using replay_reqs [OF assms(5), of pc "drop n rs" "i + word_of_nat n" i C] u assms(7)
    by (cases "n \<le> length rs") (auto simp: word_le_nat_alt)
next
  case True
  obtain kvs1 j where r: "on_wal_load_entries log (ckvs, cid) = Some (kvs1, j)" "on_wal_load_entries [(i, p)] (kvs1, j) = Some (kvs, i)"
    using assms(1) by (auto simp: on_wal_load_append bind_eq_Some_conv simp del: on_wal_load_entries.simps)
  have older: "\<forall>x \<in> set log. fst x < i" using assms(2) by (auto simp: sorted_wrt_append)
  then have "j \<le> i" using on_wal_load_id [OF r(1)] assms(3) by (auto simp: order.strict_implies_order)
  moreover have k1: "kv_ok kvs1" using on_wal_load_entries_ok [OF r(1)] assms(4) by simp
  ultimately have again: "on_wal_load_entries [(i, p)] (kvs, i) = Some (kvs, i)" using replay_last_again [OF r(2)] by blast
  have "kv_ok kvs" using on_wal_load_entries_ok [OF r(2)] k1 by simp
  from replay_one_agree [OF again this assms(8)] obtain C' where C': "on_wal_load_entries [(i, p)] (C, i) = Some (C', i)" "kv_ok C'"
    "\<And>x. map_of C x = map_of kvs x \<Longrightarrow> map_of C' x = map_of C x" by blast
  have "on_wal_load_entries (drop N log) (C, i) = Some (C, i)" using older by (intro replay_skipped) (auto dest: in_set_dropD)
  moreover have "drop N (log @ [(i, p)] @ req_log pb i rs) = drop N log @ [(i, p)] @ req_log pb i rs" using True by simp
  moreover have "fold kvs_req rs C' = fold kvs_req rs C" using C'(3) assms(9) by (intro fold_reqs_agree C'(2) assms(8)) blast
  then have "on_wal_load_entries ([(i, p)] @ req_log pb i rs) (C, i) = Some (fold kvs_req rs C, if rs = [] then i else i + word_of_nat (length rs))"
    unfolding on_wal_load_append C'(1) using replay_reqs [OF assms(5-7), of i C'] by simp
  ultimately show ?thesis using True by (simp add: on_wal_load_append n_def del: on_wal_load_entries.simps append_Cons)
qed

subsection \<open>Save\<close>

text \<open>The entries of the map can be stored, and the checkpoint file stays below 4 GiB.\<close>

definition kv_savable :: "protobuf \<Rightarrow> KVConfig \<Rightarrow> kvs \<Rightarrow> bool" where
  "kv_savable pb pc kvs =
    ((\<forall>e \<in> set (raw_entries kvs). cp_good (kv_cp_ops pb) e) \<and>
     cp_fits (checkpointConf pc)
       (checkpoint_bytes (kc_CheckpointWriteEntryVersion pc) (map (the \<circ> Encode (kv_cp_ops pb)) (raw_entries kvs))))"

text \<open>No other process saves, and the stored checkpoint is older than the id \<open>i\<close>.\<close>

definition kv_idle :: "KVConfig \<Rightarrow> u64 \<Rightarrow> world \<Rightarrow> bool" where
  "kv_idle pc i w =
    (cp_sLockPath (kv_cp pc) \<notin> set (s_LockingFiles w) \<and> cp_sLockPath (kv_cp pc) \<notin> set (w_flocks w) \<and>
     (\<exists>cid. cp_meta (kv_cp pc) (content w) cid \<and> cid < i) \<and> i \<noteq> -1)"

lemma kv_idle_same: "kv_idle pc i w \<Longrightarrow> cp_same pc w w' \<Longrightarrow> kv_idle pc i w'"
  using cp_same_holds(2) [of pc w w'] by (auto simp: kv_idle_def cp_same_def)

lemma kv_Save:
  assumes "cp_clean pc w" "kv_idle pc i w" "kv_savable pb pc (elements_from cur (k_kvs kv))" "\<not> k_walLock kv"
    and "k_checkpoint kv = cp_object (checkpointConf pc)"
  shows "\<exists>w'. cp_Save (kv_cp_ops pb) (k_checkpoint kv) (MiniKVTraveller cur i) kv w = (Inr i, kv, w') \<and>
    cp_clean pc w' \<and> cp_holds (kv_cp_ops pb) (checkpointConf pc) (content w') i (raw_entries (elements_from cur (k_kvs kv))) \<and>
    touches (set (cp_paths (kv_cp pc))) {} w w'"
proof -
  let ?ops = "kv_cp_ops pb" and ?st = "cp_object (checkpointConf pc)" and ?t = "MiniKVTraveller cur i"
  let ?es = "raw_entries (elements_from cur (k_kvs kv))"
  have t: "MaxId ?t (Prepare ?t kv) = i" "Entries ?t (Prepare ?t kv) = ?es" "CompletePrepare ?t (Prepare ?t kv) = kv"
    using assms(4) by (simp_all add: MiniKVTraveller_def on_checkpoint_prepare_def on_checkpoint_complete_prepare_def)
  have at: "cp_at ?st (content w) w" "content w (cp_sNewCpSaveOkFilePath ?st) = None"
    using assms(1) by (simp_all add: cp_clean_def)
  obtain cid where cid: "cp_meta ?st (content w) cid" "cid < i" and "i \<noteq> -1" using assms(2) by (auto simp: kv_idle_def)
  then have nz: "i \<noteq> 0" "i \<noteq> -1" by auto
  have good: "\<forall>e \<in> set ?es. cp_good ?ops e" using assms(3) by (simp add: kv_savable_def)
  note enc = cp_good_encoded [OF good]
  obtain w' where w': "cp_Save ?ops ?st ?t kv w = (Inr i, kv, w')" "cp_at ?st (saved_files ?st (content w) i (encoded_prefix ?ops ?es)) w'"
    using cp_Save_at [of ?st "content w" w cid i ?t kv ?es ?ops] at cid nz(2) assms(2) t enc(2) by (auto simp: kv_idle_def)
  let ?G = "saved_files (kv_cp pc) (content w) i (encoded_prefix ?ops ?es)"
  have G: "content w' = ?G" using cp_atD(3) [OF w'(2)] by simp
  note m = saved_files_meta [OF ctor_wf nz, of "checkpointConf pc" "content w" "encoded_prefix ?ops ?es"]
  have "cp_clean pc w'" using w'(2) m by (simp add: cp_clean_def G)
  moreover have "cp_holds ?ops (checkpointConf pc) (content w') i ?es"
    using m nz(1) cp_parse_checkpoint_bytes [OF kvc.local_creator enc(3)] enc(1,4) assms(3)
    by (auto simp: cp_holds_def G kv_savable_def checkpointConf_def)
  moreover have "touches (set (cp_paths (kv_cp pc))) {} w w'"
    using cp_Save_own [of ?st w ?ops ?t kv] w'(1) by simp
  ultimately show ?thesis using w'(1) unfolding assms(5) by blast
qed

subsection \<open>The background check\<close>

lemma check_wal_run:
  assumes "Size (k_wal kv) w = (Inr sz, w1)" "ucast (k_triggerSize kv) \<le> sz" "\<not> k_bStopped kv"
    and "run_others pb (map_begin (k_kvs kv)) rs (kv\<lparr>k_bCheck := False\<rparr>, w1) = (True, kv1, w2)" "\<not> k_walLock kv1"
    and "cp_Save (kv_cp_ops pb) (k_checkpoint kv1) (MiniKVTraveller (map_begin (k_kvs kv)) (k_applyId kv)) kv1 w2 = (Inr i, kv2, w3)"
    and "run_others pb None rs' (kv2, w3) = (v, kv3, w4)" "\<not> k_walLock kv3" "Truncate (k_wal kv3) i w4 = (W_OK, wal, w5)"
  shows "check_wal pb rs rs' kv w = Some (kv3\<lparr>k_wal := wal, k_timer := k_timer kv3 + 1\<rparr>, w5)"
  using assms by (simp add: check_wal_def check_wal_save_def check_wal_truncate_def register_trigger_check_wal_timer_def)

text \<open>The log of a serving store lies in the segments \<open>L\<close>, numbered from \<open>m\<close>, and is big enough for a checkpoint.\<close>

definition kv_log :: "protobuf \<Rightarrow> MiniKV \<Rightarrow> world \<Rightarrow> nat \<Rightarrow> log_entry list list \<Rightarrow> bool" where
  "kv_log pb kv w m L =
    (wal_ok (kv_wal_ops pb) (k_wal kv) w m L \<and> no_trunc_files w (m_sRootDir (k_wal kv)) \<and> m_minSegmentId (k_wal kv) = seg_id m 0 \<and>
     ucast (k_triggerSize kv) \<le> (word_of_nat (log_bytes L) :: u64))"

lemma wal_ok_frame:
  assumes "wal_ok ops st w m L" "\<And>p. parent p = m_sRootDir st \<Longrightarrow> content w' p = content w p"
    and "is_dir w' = is_dir w" "reliable w'" "wf_world w'"
  shows "wal_ok ops st w' m L"
proof -
  let ?root = "m_sRootDir st"
  have "log_world w' ?root" using log_world_step [OF _ assms(3-5)] assms(1) by (simp add: wal_ok_def)
  moreover have "log_segments w' ?root m L"
    using assms(1,2) unfolding wal_ok_def log_segments_def by (metis parent_seg_path)
  ultimately show ?thesis using assms(1) by (simp add: wal_ok_def)
qed

text \<open>The last applied id is the one of the last entry of the log.\<close>

lemma wal_repr_unique: "wal_repr ops pc s l1 \<Longrightarrow> wal_repr ops pc s l2 \<Longrightarrow> l1 = l2"
  using wal_restart_law [of ops pc s l1] wal_restart_law [of ops pc s l2] by auto

lemma replay_id_last:
  assumes "on_wal_load_entries (log @ [(j, p)]) (ckvs, cid) = Some (kvs, i)" "sorted_wrt (<) (map fst (log @ [(j, p)]))" "cid \<le> j"
  shows "i = j"
proof -
  obtain kvs1 i1 where r: "on_wal_load_entries log (ckvs, cid) = Some (kvs1, i1)" "on_wal_load_entries [(j, p)] (kvs1, i1) = Some (kvs, i)"
    using assms(1) by (auto simp: on_wal_load_append bind_eq_Some_conv simp del: on_wal_load_entries.simps)
  have "i1 \<le> j" using on_wal_load_id [OF r(1)] assms(2,3) by (auto simp: sorted_wrt_append order.strict_implies_order)
  with r(2) show ?thesis by (auto split: if_splits KvEntry.splits option.splits)
qed

text \<open>The log of a store with its last entry split off, and what replaying it means.\<close>

lemma kv_log_last:
  assumes "kv_repr pb pc kv w" "kv_log pb kv w m L" "concat L \<noteq> []"
  obtains log p ckvs cid where "decoded (kv_wal_ops pb) (concat L) = log @ [(k_applyId kv, p)]"
    "on_wal_load_entries (log @ [(k_applyId kv, p)]) (ckvs, cid) = Some (k_kvs kv, k_applyId kv)" "cid \<le> k_applyId kv" "kv_ok ckvs"
    "sorted_wrt (<) (map fst (log @ [(k_applyId kv, p)]))" "m_currentEntryIdx (k_wal kv) = k_applyId kv" "wal_configured (walConf pc) (k_wal kv)"
proof -
  let ?ops = "kv_wal_ops pb" and ?D = "decoded (kv_wal_ops pb) (concat L)"
  obtain log0 cid where l: "wal_repr ?ops (walConf pc) (k_wal kv, w) log0" "m_currentEntryIdx (k_wal kv) = last_id log0" "cid \<le> last_id log0"
    "kv_recovers pb pc w log0 cid (k_kvs kv, k_applyId kv)" using assms(1) by (auto simp: kv_repr_def kv_disk_def)
  have conf: "wal_configured (walConf pc) (k_wal kv)" using l(1) by (auto simp: wal_repr_def)
  then have "wal_repr ?ops (walConf pc) (k_wal kv, w) ?D" using assms(2) unfolding wal_repr_def kv_log_def by auto
  with l(1) have D: "log0 = ?D" by (rule wal_repr_unique)
  have "?D \<noteq> []" using assms(3) by (simp add: decoded_def)
  then obtain log j p where sp: "?D = log @ [(j, p)]" by (metis append_butlast_last_id surj_pair)
  have inc: "sorted_wrt (<) (map fst (log @ [(j, p)]))" using wal_repr_increasing [OF l(1)] unfolding D sp .
  have cid: "cid \<le> j" "m_currentEntryIdx (k_wal kv) = j" using l(2,3) unfolding D sp by (simp_all add: last_id_def)
  obtain ces ckvs where k: "on_checkpoint_load_entry ces [] = Some ckvs" "on_wal_load_entries (log @ [(j, p)]) (ckvs, cid) = Some (k_kvs kv, k_applyId kv)"
    using l(4) unfolding D sp by (auto simp: kv_recovers_def)
  have "k_applyId kv = j" by (rule replay_id_last [OF k(2) inc cid(1)])
  with that sp k inc cid conf on_checkpoint_load_entry_ok [OF k(1)] show thesis by simp
qed

lemma wal_configured_root: "wal_configured pc wal \<Longrightarrow> m_sRootDir wal = RootDirPath pc"
  by (auto simp: wal_configured_def same_conf_def dest!: ctor_fresh split: option.splits)

lemma kv_log_at:
  assumes "kv_repr pb pc kv w" "kv_log pb kv w m L" "concat L \<noteq> []"
  shows "kv_at pb pc kv w m L" "kv_at pb pc (kv\<lparr>k_bCheck := False\<rparr>) w m L"
proof -
  obtain log p ckvs cid where "m_currentEntryIdx (k_wal kv) = k_applyId kv" "wal_configured (walConf pc) (k_wal kv)"
    using kv_log_last [OF assms] by metis
  with assms(1,2) show "kv_at pb pc kv w m L" "kv_at pb pc (kv\<lparr>k_bCheck := False\<rparr>) w m L"
    by (simp_all add: kv_at_def kv_repr_def kv_disk_def kv_log_def)
qed

lemma kv_at_frame:
  assumes "kv_at pb pc kv w m L" "\<And>p. parent p = kc_WalRootDirPath pc \<Longrightarrow> content w' p = content w p"
    and "is_dir w' = is_dir w" "cp_clean pc w'"
  shows "kv_at pb pc kv w' m L"
proof -
  have root: "m_sRootDir (k_wal kv) = kc_WalRootDirPath pc" using wal_configured_root assms(1) by (fastforce simp: kv_at_def)
  have "reliable w'" "wf_world w'" using assms(4) cp_atD(1,2) [of "kv_cp pc" "content w'" w'] by (simp_all add: cp_clean_def)
  with wal_ok_frame [of "kv_wal_ops pb" "k_wal kv" w m L w'] assms root show ?thesis
    by (simp add: kv_at_def no_trunc_files_def)
qed

lemma map_begin_simps [simp]: "iterator_valid (map_begin kvs) kvs" "elements_from (map_begin kvs) kvs = kvs"
  by (cases kvs; simp add: map_begin_def iterator_valid_def elements_from_def)+

lemma log_after_append: "log_after pb n v i (rs @ rs') L = log_after pb n v (i + word_of_nat (length rs)) rs' (log_after pb n v i rs L)"
  by (induction rs arbitrary: i L) (simp_all add: add.assoc)

text \<open>
  The requests \<open>rs\<close> run before Prepare and \<open>rs'\<close> before Truncate: what the checkpoint has, and the segments of
  the log when Truncate runs.
\<close>

definition kv_saved :: "kv_req list \<Rightarrow> MiniKV \<Rightarrow> kvs" where
  "kv_saved rs kv = elements_from (map_begin (k_kvs kv)) (fold kvs_req rs (k_kvs kv))"

definition kv_log_after :: "protobuf \<Rightarrow> kv_req list \<Rightarrow> MiniKV \<Rightarrow> log_entry list list \<Rightarrow> log_entry list list" where
  "kv_log_after pb rs kv L =
    log_after pb (unat (m_segmentMaxSize (k_wal kv))) (m_writeEntryVersion (k_wal kv)) (m_currentEntryIdx (k_wal kv)) rs L"

text \<open>Requests other threads may run during the check: the log takes them, and the first key, which the traveller is at, stays.\<close>

definition kv_others :: "protobuf \<Rightarrow> KVConfig \<Rightarrow> kv_req list \<Rightarrow> kv_req list \<Rightarrow> MiniKV \<Rightarrow> world \<Rightarrow> bool" where
  "kv_others pb pc rs rs' kv w =
    (pb_ok pb \<and> list_all (req_fits pb pc) (rs @ rs') \<and> wal_room (k_wal kv, w) (Suc (length (rs @ rs'))) \<and>
     (case map_begin (k_kvs kv) of None \<Rightarrow> True | Some k \<Rightarrow> DeleteReq k \<notin> set rs))"

lemma kv_othersD:
  assumes "kv_others pb pc rs rs' kv w"
  shows "pb_ok pb" "list_all (req_fits pb pc) rs" "list_all (req_fits pb pc) rs'" "list_all (req_fits pb pc) (rs @ rs')"
    "\<forall>k. map_begin (k_kvs kv) = Some k \<longrightarrow> DeleteReq k \<notin> set rs" "wal_room (k_wal kv, w') (length rs + Suc (length rs'))"
  using assms by (auto simp: kv_others_def wal_room_def)

text \<open>From the size of the log up to Prepare.\<close>

lemma check_wal_prepared:
  assumes "kv_repr pb pc kv w" "kv_log pb kv w m L" "kv_others pb pc rs rs' kv w" "concat L \<noteq> []"
  shows "\<exists>w0 wal1 i1 w1. let kv1 = kv\<lparr>k_bCheck := False, k_kvs := fold kvs_req rs (k_kvs kv), k_wal := wal1, k_applyId := i1\<rparr> in
    Size (k_wal kv) w = (Inr (word_of_nat (log_bytes L)), w0) \<and>
    run_others pb (map_begin (k_kvs kv)) rs (kv\<lparr>k_bCheck := False\<rparr>, w0) = (True, kv1, w1) \<and>
    kv_at pb pc kv1 w1 m (kv_log_after pb rs kv L) \<and> wal_room (wal1, w1) (Suc (length rs')) \<and> cp_same pc w w1 \<and>
    same_conf (k_wal kv) wal1 \<and> m_currentEntryIdx wal1 = k_applyId kv + word_of_nat (length rs)"
proof -
  let ?kv = "kv\<lparr>k_bCheck := False\<rparr>" and ?cur = "map_begin (k_kvs kv)"
  note o = kv_othersD [OF assms(3)] and at = kv_log_at [OF assms(1,2,4)]
  have idx: "m_currentEntryIdx (k_wal kv) = k_applyId kv" and clean: "cp_clean pc w" using at(1) by (simp_all add: kv_at_def)
  have "wal_ok (kv_wal_ops pb) (k_wal kv) w m L" using assms(2) by (simp add: kv_log_def)
  then obtain w0 where w0: "Size (k_wal kv) w = (Inr (word_of_nat (log_bytes L)), w0)" "quiet w w0" "locks w0 = locks w"
    using Size_done Size_locks [of "k_wal kv" w] by fastforce
  have "reliable w" "wf_world w" using clean cp_atD(1,2) [of "kv_cp pc" "content w" w] by (simp_all add: cp_clean_def)
  then have q: "content w0 = content w" "is_dir w0 = is_dir w" "reliable w0" "wf_world w0" using w0(2) by (auto simp: quiet_def)
  have "cp_clean pc w0" using clean cp_at_step [OF _ refl q(2-4), of "kv_cp pc" "content w"] q(1) by (simp add: cp_clean_def)
  then have at0: "kv_at pb pc ?kv w0 m L" by (intro kv_at_frame [OF at(2)]) (simp_all add: q)
  have same0: "cp_same pc w w0" using w0(3) q(1) by (simp add: cp_same_def)
  obtain wal1 i1 w1 where
    "run_others pb ?cur rs (?kv, w0) = (True, ?kv\<lparr>k_kvs := fold kvs_req rs (k_kvs kv), k_wal := wal1, k_applyId := i1\<rparr>, w1)"
    "kv_at pb pc (?kv\<lparr>k_kvs := fold kvs_req rs (k_kvs kv), k_wal := wal1, k_applyId := i1\<rparr>) w1 m (kv_log_after pb rs kv L)"
    "wal_room (wal1, w1) (Suc (length rs'))" "cp_same pc w0 w1" "same_conf (k_wal kv) wal1" "m_currentEntryIdx wal1 = k_applyId kv + word_of_nat (length rs)"
    using requests_run [OF at0 o(1,2), of "Suc (length rs')" ?cur] o(5,6) kv_repr_ok [OF assms(1)] idx by (auto simp: Let_def kv_log_after_def)
  with w0(1) cp_same_trans [OF same0] show ?thesis by (auto simp: Let_def)
qed

text \<open>Up to the truncation: the checkpoint is written, and the log has the entries of the requests.\<close>

lemma check_wal_saved:
  assumes "kv_repr pb pc kv w" "kv_log pb kv w m L" "kv_idle pc (k_applyId kv) w" "kv_savable pb pc (kv_saved rs kv)"
    and "kv_others pb pc rs rs' kv w" "concat L \<noteq> []"
  shows "\<exists>kv1 w1. kv_at pb pc kv1 w1 m (kv_log_after pb (rs @ rs') kv L) \<and> k_kvs kv1 = fold kvs_req (rs @ rs') (k_kvs kv) \<and>
    k_applyId kv1 = k_applyId kv + word_of_nat (length (rs @ rs')) \<and> wal_room (k_wal kv1, w1) 1 \<and>
    cp_holds (kv_cp_ops pb) (checkpointConf pc) (content w1) (k_applyId kv) (raw_entries (kv_saved rs kv)) \<and>
    (\<forall>wal w2. Truncate (k_wal kv1) (k_applyId kv) w1 = (W_OK, wal, w2) \<longrightarrow>
       check_wal pb rs rs' kv w = Some (kv1\<lparr>k_wal := wal, k_timer := k_timer kv1 + 1\<rparr>, w2))"
proof -
  let ?i = "k_applyId kv" and ?cur = "map_begin (k_kvs kv)" and ?L1 = "kv_log_after pb rs kv L"
  note o = kv_othersD [OF assms(5)] and ok = kv_repr_ok [OF assms(1)]
  have at: "m_currentEntryIdx (k_wal kv) = ?i" "\<not> k_bStopped kv" "kc_WalRootDirPath pc \<noteq> kc_CheckpointRootDirPath pc"
    using kv_log_at(1) [OF assms(1,2,6)] by (simp_all add: kv_at_def kv_conf_def)
  obtain w0 kv1 wal1 i1 w1 where kv1: "kv1 = kv\<lparr>k_bCheck := False, k_kvs := fold kvs_req rs (k_kvs kv), k_wal := wal1, k_applyId := i1\<rparr>"
    and size: "Size (k_wal kv) w = (Inr (word_of_nat (log_bytes L)), w0)"
    and r1: "run_others pb ?cur rs (kv\<lparr>k_bCheck := False\<rparr>, w0) = (True, kv1, w1)" "kv_at pb pc kv1 w1 m ?L1"
      "wal_room (wal1, w1) (Suc (length rs'))" "cp_same pc w w1" "same_conf (k_wal kv) wal1" "m_currentEntryIdx wal1 = ?i + word_of_nat (length rs)"
    using check_wal_prepared [OF assms(1,2,5,6)] unfolding Let_def by blast
  have k1: "cp_clean pc w1" "\<not> k_walLock kv1" "k_checkpoint kv1 = cp_object (checkpointConf pc)" "k_wal kv1 = wal1"
    using r1(2) by (simp_all add: kv_at_def kv1)
  have "elements_from ?cur (k_kvs kv1) = kv_saved rs kv" by (simp add: kv1 kv_saved_def)
  with kv_Save [OF k1(1) kv_idle_same [OF assms(3) r1(4)] _ k1(2,3), of pb ?cur] assms(4) obtain w2 where
    w2: "cp_Save (kv_cp_ops pb) (k_checkpoint kv1) (MiniKVTraveller ?cur ?i) kv1 w1 = (Inr ?i, kv1, w2)" "cp_clean pc w2"
      "cp_holds (kv_cp_ops pb) (checkpointConf pc) (content w2) ?i (raw_entries (kv_saved rs kv))" "touches (set (cp_paths (kv_cp pc))) {} w1 w2"
    by auto
  have "content w2 p = content w1 p" if "parent p = kc_WalRootDirPath pc" for p
    using touches_file [OF w2(4), of p] kv_cp_path [of p pc] that at(3) by auto
  then have at2: "kv_at pb pc kv1 w2 m ?L1" using touches_world(1) [OF w2(4)] w2(2) by (intro kv_at_frame [OF r1(2)]) simp_all
  have ok1: "kv_ok (k_kvs kv1)" using kvs_reqs_ok [OF ok, of rs] by (simp add: kv1)
  have "wal_room (k_wal kv1, w2) (length rs' + 1)" using r1(3) by (simp add: k1(4) wal_room_def)
  from requests_run [OF at2 o(1,3) this ok1, of None] obtain kv2 wal2 i2 w3 where
    kv2: "kv2 = kv1\<lparr>k_kvs := fold kvs_req rs' (k_kvs kv1), k_wal := wal2, k_applyId := i2\<rparr>" and
    r2: "run_others pb None rs' (kv1, w2) = (True, kv2, w3)" "wal_room (wal2, w3) 1" "cp_same pc w2 w3"
      "kv_at pb pc kv2 w3 m (log_after pb (unat (m_segmentMaxSize wal1)) (m_writeEntryVersion wal1) (m_currentEntryIdx wal1) rs' ?L1)"
      "m_currentEntryIdx wal2 = m_currentEntryIdx wal1 + word_of_nat (length rs')"
    unfolding Let_def k1(4) by (auto simp: iterator_valid_def)
  have k2: "\<not> k_walLock kv2" "k_applyId kv2 = m_currentEntryIdx wal2" "k_wal kv2 = wal2" "k_kvs kv2 = fold kvs_req (rs @ rs') (k_kvs kv)"
    using r2(4) by (simp_all add: kv_at_def kv2 kv1)
  have "kv_at pb pc kv2 w3 m (kv_log_after pb (rs @ rs') kv L)"
    using r2(4) r1(5,6) at(1) by (simp add: kv_log_after_def log_after_append same_conf_def)
  moreover have "k_applyId kv2 = ?i + word_of_nat (length (rs @ rs'))" using k2(2) r2(5) r1(6) by (simp add: add.assoc)
  moreover have "check_wal pb rs rs' kv w = Some (kv2\<lparr>k_wal := wal, k_timer := k_timer kv2 + 1\<rparr>, w4)"
    if "Truncate (k_wal kv2) ?i w3 = (W_OK, wal, w4)" for wal w4
    by (rule check_wal_run [OF size _ at(2) r1(1) k1(2) w2(1) r2(1) k2(1) that]) (use assms(2) in \<open>simp add: kv_log_def\<close>)
  ultimately show ?thesis using k2(3,4) r2(2) cp_same_holds(1) [OF r2(3) w2(3)] by blast
qed

text \<open>The entries of the requests \<open>rs\<close> that lie in segments Truncate deletes, when the segment \<open>k\<close> has the last entry before them.\<close>

definition kv_lost :: "protobuf \<Rightarrow> kv_req list \<Rightarrow> MiniKV \<Rightarrow> log_entry list list \<Rightarrow> nat \<Rightarrow> nat" where
  "kv_lost pb rs kv L k =
    (let L' = kv_log_after pb rs kv L in length (concat (take (trunc_count L' k) L')) - length (concat L))"

lemma wal_entry_concat: "wal_ok ops st w m L \<Longrightarrow> m_mpEntriesIdSegId st i = Some s \<Longrightarrow> concat L \<noteq> []"
proof -
  assume "wal_ok ops st w m L" "m_mpEntriesIdSegId st i = Some s"
  then obtain k where "k < length L" "L ! k \<noteq> []" using wal_entry_in_log by fastforce
  then show "concat L \<noteq> []" using nth_mem [of k L] by auto
qed

lemma decoded_drop: "decoded ops (concat (drop d L)) = drop (length (concat (take d L))) (decoded ops (concat L))"
proof -
  have "concat L = concat (take d L) @ concat (drop d L)" by (metis append_take_drop_id concat_append)
  then show ?thesis by (simp add: decoded_def)
qed

text \<open>Where the truncation finds the entry: in the same segment as before the requests.\<close>

lemma kv_at_entry:
  assumes "kv_at pb pc kv1 w1 m (kv_log_after pb rs kv L)" "wal_ok (kv_wal_ops pb) (k_wal kv) w m L"
    and "m_mpEntriesIdSegId (k_wal kv) i = Some (seg_id m k)" "k < length L"
  shows "m_mpEntriesIdSegId (k_wal kv1) i = Some (seg_id m k)" "k < length (kv_log_after pb rs kv L)"
    "kv_log_after pb rs kv L ! k \<noteq> []"
proof -
  let ?L = "kv_log_after pb rs kv L"
  have ok: "wal_ok (kv_wal_ops pb) (k_wal kv1) w1 m ?L" using assms(1) by (simp add: kv_at_def)
  have ne: "L \<noteq> []" "m_mpEntriesIdSegId (k_wal kv) = map_of (log_pairs m L)" "m_mpEntriesIdSegId (k_wal kv1) = map_of (log_pairs m ?L)"
    using assms(2) ok by (simp_all add: wal_ok_def wal_handle_def)
  obtain ps where ps: "length L \<le> length ?L" "log_pairs m ?L = log_pairs m L @ ps"
    using log_after_grows [OF ne(1)] unfolding kv_log_after_def by blast
  then show i: "m_mpEntriesIdSegId (k_wal kv1) i = Some (seg_id m k)" using assms(3) ne(2,3) by simp
  show k: "k < length ?L" using ps(1) assms(4) by simp
  have "m + length ?L < 2 ^ 64 - 1" using ok by (simp add: wal_ok_def log_segments_def)
  with wal_entry_in_log [OF ok i] k show "?L ! k \<noteq> []" by (auto simp: seg_id_eq)
qed

lemma saved_agrees:
  assumes "kv_ok (k_kvs kv)" "kv_others pb pc rs rs' kv w"
  shows "kv_ok (kv_saved rs kv)" "map_of (kv_saved rs kv) x = map_of (k_kvs kv) x \<or> (\<exists>r \<in> set (rs @ rs'). req_key r = Some x)"
proof -
  show "kv_ok (kv_saved rs kv)" using kvs_reqs_ok [OF assms(1), of rs] by (simp add: kv_saved_def elements_from_ok)
  have "iterator_valid (map_begin (k_kvs kv)) (fold kvs_req rs (k_kvs kv))"
    using kv_othersD(5) [OF assms(2)] assms(1) map_begin_simps(1) [of "k_kvs kv"]
  proof (induction rs rule: rev_induct)
    case (snoc r rs)
    then show ?case using iterator_kept [of "fold kvs_req rs (k_kvs kv)" _ r] kvs_reqs_ok [OF assms(1), of rs] by auto
  qed simp
  from traveller_agrees [OF assms(1) this, of x] show "map_of (kv_saved rs kv) x = map_of (k_kvs kv) x \<or> (\<exists>r \<in> set (rs @ rs'). req_key r = Some x)"
    by (auto simp: kv_saved_def)
qed

text \<open>What replaying the segments that remain gives on top of the checkpoint.\<close>

lemma replay_truncated:
  assumes "kv_repr pb pc kv w" "kv_log pb kv w m L" "kv_others pb pc rs rs' kv w" "concat L \<noteq> []"
    and L'_def: "L' = kv_log_after pb (rs @ rs') kv L" and n_def: "n = length (concat (take d L')) - length (concat L)"
  shows "on_wal_load_entries (decoded (kv_wal_ops pb) (concat (drop d L'))) (kv_saved rs kv, k_applyId kv) =
    Some (fold kvs_req (drop n (rs @ rs')) (kv_saved rs kv),
      if drop n (rs @ rs') = [] then k_applyId kv else k_applyId kv + word_of_nat (length (rs @ rs')))"
    "concat (drop d L') \<noteq> [] \<Longrightarrow> last_id (decoded (kv_wal_ops pb) (concat (drop d L'))) = k_applyId kv + word_of_nat (length (rs @ rs'))"
    "k_applyId kv \<le> k_applyId kv + word_of_nat (length (rs @ rs'))"
proof -
  let ?ops = "kv_wal_ops pb" and ?i = "k_applyId kv"
  note o = kv_othersD [OF assms(3)]
  obtain log p ckvs cid where g: "decoded ?ops (concat L) = log @ [(?i, p)]"
    "on_wal_load_entries (log @ [(?i, p)]) (ckvs, cid) = Some (k_kvs kv, ?i)" "cid \<le> ?i" "kv_ok ckvs"
    "sorted_wrt (<) (map fst (log @ [(?i, p)]))" "m_currentEntryIdx (k_wal kv) = ?i"
    using kv_log_last [OF assms(1,2,4)] by metis
  have "L \<noteq> []" using assms(4) by auto
  then have D: "decoded ?ops (concat L') = log @ [(?i, p)] @ req_log pb ?i (rs @ rs')"
    using log_after_decoded [OF _ o(1,4)] g(1,6) by (simp add: L'_def kv_log_after_def)
  have "length (concat L) = length (decoded ?ops (concat L))" by (simp add: decoded_def)
  then have n: "n = length (concat (take d L')) - Suc (length log)" by (simp add: g(1) n_def)
  have u: "unat ?i + length (rs @ rs') < 2 ^ 64" using o(6) g(6) by (simp add: wal_room_def)
  then show "?i \<le> ?i + word_of_nat (length (rs @ rs'))" by (simp add: word_le_nat_alt unat_plus_no_wrap unat_of_nat del: of_nat_add)
  show "on_wal_load_entries (decoded ?ops (concat (drop d L'))) (kv_saved rs kv, ?i) =
    Some (fold kvs_req (drop n (rs @ rs')) (kv_saved rs kv), if drop n (rs @ rs') = [] then ?i else ?i + word_of_nat (length (rs @ rs')))"
    unfolding decoded_drop D by (rule replay_suffix [OF g(2,5,3,4) o(1,4) u saved_agrees [OF kv_repr_ok [OF assms(1)] assms(3)] n])
  assume "concat (drop d L') \<noteq> []"
  then have "decoded ?ops (concat (drop d L')) \<noteq> []" by (simp add: decoded_def)
  then have "last_id (decoded ?ops (concat (drop d L'))) = fst (last (decoded ?ops (concat L')))"
    unfolding decoded_drop last_id_def by (simp add: last_drop del: drop_eq_Nil) (simp add: last_drop)
  moreover have "fst (last (decoded ?ops (concat L'))) = ?i + word_of_nat (length (rs @ rs'))"
    using last_req_log [of "rs @ rs'" pb ?i] length_req_log [of pb ?i "rs @ rs'"] unfolding D by (cases "rs @ rs'") (simp_all add: last_append)
  ultimately show "last_id (decoded ?ops (concat (drop d L'))) = ?i + word_of_nat (length (rs @ rs'))" by simp
qed

lemma check_wal_truncates:
  assumes "kv_repr pb pc kv w" "kv_log pb kv w m L" "kv_idle pc (k_applyId kv) w" "kv_savable pb pc (kv_saved rs kv)"
    and "kv_others pb pc rs rs' kv w" "m_mpEntriesIdSegId (k_wal kv) (k_applyId kv) = Some (seg_id m k)" "k < length L"
    and d_def: "d = trunc_count (kv_log_after pb (rs @ rs') kv L) k" and "0 < d" and n_def: "n = kv_lost pb (rs @ rs') kv L k"
  shows "\<exists>kv' w' i'. check_wal pb rs rs' kv w = Some (kv', w') \<and> k_kvs kv' = fold kvs_req (rs @ rs') (k_kvs kv) \<and>
    \<not> k_bStopped kv' \<and> \<not> k_walLock kv' \<and> k_checkpoint kv' = cp_object (checkpointConf pc) \<and>
    kv_disk pb pc (k_wal kv') w' (fold kvs_req (drop n (rs @ rs')) (kv_saved rs kv), i') \<and> (n = 0 \<longrightarrow> i' = k_applyId kv') \<and>
    cp_holds (kv_cp_ops pb) (checkpointConf pc) (content w') (k_applyId kv) (raw_entries (kv_saved rs kv)) \<and>
    wal_ok (kv_wal_ops pb) (k_wal kv') w' (m + d) (drop d (kv_log_after pb (rs @ rs') kv L))"
proof -
  let ?ops = "kv_wal_ops pb" and ?i = "k_applyId kv" and ?L = "kv_log_after pb (rs @ rs') kv L" and ?C = "kv_saved rs kv"
  have l: "wal_ok ?ops (k_wal kv) w m L" using assms(2) by (simp add: kv_log_def)
  have cL: "concat L \<noteq> []" by (rule wal_entry_concat [OF l assms(6)])
  obtain kv1 w1 where s: "kv_at pb pc kv1 w1 m ?L" "k_kvs kv1 = fold kvs_req (rs @ rs') (k_kvs kv)"
    "k_applyId kv1 = ?i + word_of_nat (length (rs @ rs'))" "wal_room (k_wal kv1, w1) 1"
    "cp_holds (kv_cp_ops pb) (checkpointConf pc) (content w1) ?i (raw_entries ?C)"
    "\<And>wal w2. Truncate (k_wal kv1) ?i w1 = (W_OK, wal, w2) \<Longrightarrow> check_wal pb rs rs' kv w = Some (kv1\<lparr>k_wal := wal, k_timer := k_timer kv1 + 1\<rparr>, w2)"
    using check_wal_saved [OF assms(1-5) cL] by blast
  have a: "kv_conf pc" "wal_ok ?ops (k_wal kv1) w1 m ?L" "no_trunc_files w1 (m_sRootDir (k_wal kv1))" "wal_configured (walConf pc) (k_wal kv1)"
    "m_minSegmentId (k_wal kv1) = seg_id m 0" "cp_clean pc w1" "k_applyId kv1 = m_currentEntryIdx (k_wal kv1)"
    "\<not> k_bStopped kv1" "\<not> k_walLock kv1" "k_checkpoint kv1 = cp_object (checkpointConf pc)" using s(1) by (simp_all add: kv_at_def)
  note e = kv_at_entry [OF s(1) l assms(6,7)]
  obtain wal w2 where t: "Truncate (k_wal kv1) ?i w1 = (W_OK, wal, w2)" "wal_ok ?ops wal w2 (m + d) (drop d ?L)"
    "no_trunc_files w2 (m_sRootDir wal)" "same_conf (k_wal kv1) wal" "m_currentEntryIdx wal = m_currentEntryIdx (k_wal kv1)"
    using Truncate_deletes [OF a(2,3) e(2,3,1) d_def assms(9) a(5)] s(4) by (auto simp: wal_room_def)
  have full: "\<forall>es \<in> set (butlast ?L). es \<noteq> []" using a(2) by (simp add: wal_ok_def wal_sizes_def)
  have d: "d < length ?L" "?L ! d \<noteq> []" using trunc_count_le [OF e(2,3)] trunc_count_remaining [OF e(2,3) full] by (simp_all add: d_def)
  then have rest: "concat (drop d ?L) \<noteq> []" by (metis Cons_nth_drop_Suc append_is_Nil_conv concat.simps(2))
  let ?D = "decoded ?ops (concat (drop d ?L))" and ?rs = "drop n (rs @ rs')"
  have "wal_configured (walConf pc) wal" using a(4) t(4) by (auto simp: wal_configured_def same_conf_def split: option.splits)
  then have repr: "wal_repr ?ops (walConf pc) (wal, w2) ?D" using t(2,3) unfolding wal_repr_def by (metis fst_conv snd_conv)
  have n: "n = length (concat (take d ?L)) - length (concat L)" by (simp add: n_def kv_lost_def Let_def d_def)
  note replay = replay_truncated [OF assms(1,2,5) cL refl n]
  have last: "last_id ?D = m_currentEntryIdx wal" "?i \<le> last_id ?D" using replay(2) [OF rest] replay(3) s(3) a(7) t(5) by simp_all
  have roots: "m_sRootDir (k_wal kv1) = kc_WalRootDirPath pc" "wal_paths (k_wal kv1)" "kc_WalRootDirPath pc \<noteq> kc_CheckpointRootDirPath pc"
    using a(1,2) wal_configured_root [OF a(4)] by (simp_all add: wal_ok_def wal_conf_def kv_conf_def)
  have "touches (in_dir (kc_WalRootDirPath pc)) {} w1 w2" using Truncate_touches [OF roots(2), of "{}" w1 ?i] t(1) roots(1) by simp
  note f = cp_clean_frame [OF this roots(3) wal_repr_root(3) [OF repr] a(6)]
  have holds: "cp_holds (kv_cp_ops pb) (checkpointConf pc) (content w2) ?i (raw_entries ?C)" using s(5) f(2) by blast
  have "on_checkpoint_load_entry (raw_entries ?C) [] = Some ?C"
    using load_raw_entries [of "[]" ?C] saved_agrees(1) [OF kv_repr_ok [OF assms(1)] assms(5)] by simp
  moreover have "on_wal_load_entries ?D (?C, ?i) = Some (fold kvs_req ?rs ?C, if ?rs = [] then ?i else k_applyId kv1)"
    using replay(1) s(3) by simp
  ultimately have "kv_recovers pb pc w2 ?D ?i (fold kvs_req ?rs ?C, if ?rs = [] then ?i else k_applyId kv1)"
    using holds unfolding kv_recovers_def by blast
  with repr f(1) a(1) last have "kv_disk pb pc wal w2 (fold kvs_req ?rs ?C, if ?rs = [] then ?i else k_applyId kv1)"
    unfolding kv_disk_def by metis
  moreover have "n = 0 \<longrightarrow> (if ?rs = [] then ?i else k_applyId kv1) = k_applyId kv1" using s(3) by auto
  ultimately show ?thesis using s(2,6) t(1,2) a(8-10) holds
    by (intro exI [of _ "kv1\<lparr>k_wal := wal, k_timer := k_timer kv1 + 1\<rparr>"] exI [of _ w2] exI [of _ "if ?rs = [] then ?i else k_applyId kv1"]) simp
qed

text \<open>
  C4: the background check keeps the store, while other threads go on with requests: rs between the
  construction of the traveller and Save, rs' between Save and Truncate.  When the log has reached the
  configured size, no other process saves, the stored checkpoint is older, Truncate has a segment to
  delete, and no entry of rs or rs' lies in a segment it deletes, check_wal returns, the map is the old
  one with the requests applied, the checkpoint on the disk holds the entries the traveller enumerated
  with the last id applied before, the log is shorter by the deleted segments, and checkpoint and
  remaining log together give the map at a restart.  System calls may be interrupted but do not fail; the
  requests must fit a read batch of the log, with no NUL byte in a key to delete; rs must not delete the
  first key, at which the traveller's iterator stands; the entries of the checkpoint can be encoded and
  stay below 4 GiB.
\<close>

theorem check_wal_keeps_store:
  assumes "kv_repr pb pc kv w" "kv_log pb kv w m L" "kv_idle pc (k_applyId kv) w" "kv_savable pb pc (kv_saved rs kv)"
    and "kv_others pb pc rs rs' kv w" "m_mpEntriesIdSegId (k_wal kv) (k_applyId kv) = Some (seg_id m k)" "k < length L"
    and "0 < trunc_count (kv_log_after pb (rs @ rs') kv L) k" "kv_lost pb (rs @ rs') kv L k = 0"
  shows "\<exists>kv' w'. check_wal pb rs rs' kv w = Some (kv', w') \<and> kv_repr pb pc kv' w' \<and>
    map_of (k_kvs kv') = fold kv_spec (rs @ rs') (map_of (k_kvs kv)) \<and>
    cp_holds (kv_cp_ops pb) (checkpointConf pc) (content w') (k_applyId kv) (raw_entries (kv_saved rs kv)) \<and>
    wal_ok (kv_wal_ops pb) (k_wal kv') w' (m + trunc_count (kv_log_after pb (rs @ rs') kv L) k)
      (drop (trunc_count (kv_log_after pb (rs @ rs') kv L) k) (kv_log_after pb (rs @ rs') kv L))"
proof -
  note ok = kv_repr_ok [OF assms(1)]
  have "fold kvs_req (rs @ rs') (kv_saved rs kv) = fold kvs_req (rs @ rs') (k_kvs kv)"
    by (rule fold_reqs_agree [OF saved_agrees(1) [OF ok assms(5)] ok saved_agrees(2) [OF ok assms(5)]])
  with check_wal_truncates [OF assms(1-7) refl assms(8) refl] assms(9) kvs_reqs_ok [OF ok, of "rs @ rs'"] show ?thesis
    by (auto simp: kv_repr_def simp del: fold_append)
qed

text \<open>
  C30: requests acknowledged during the background check can be lost.  Save releases the mutex of the log
  right after the fork, and Truncate deletes every segment up to the one that has the last entry the
  checkpoint covers.  When requests have filled this segment in the meantime and the log went on in a
  new one, the deleted segments hold the entries of the first kv_lost of them: in memory all requests are
  applied, but after the next restart the map is the one without these.  (Here no request runs before
  Save; the other conditions are those of the property on the store that is kept, except that deleted
  segments may hold entries of the requests.)
\<close>

theorem check_wal_then_restart:
  assumes "kv_repr pb pc kv w" "kv_log pb kv w m L" "kv_idle pc (k_applyId kv) w" "kv_savable pb pc (k_kvs kv)"
    and "kv_others pb pc [] rs kv w" "m_mpEntriesIdSegId (k_wal kv) (k_applyId kv) = Some (seg_id m k)" "k < length L"
    and "0 < trunc_count (kv_log_after pb rs kv L) k" "no_failure sch"
  shows "\<exists>kv1 w1 kv2 w2. check_wal pb [] rs kv w = Some (kv1, w1) \<and> map_of (k_kvs kv1) = fold kv_spec rs (map_of (k_kvs kv)) \<and>
    kv_restart pb pc sch (kv1, w1) = Some (kv2, w2) \<and>
    map_of (k_kvs kv2) = fold kv_spec (drop (kv_lost pb rs kv L k) rs) (map_of (k_kvs kv))"
proof -
  note ok = kv_repr_ok [OF assms(1)]
  have saved: "kv_saved [] kv = k_kvs kv" by (simp add: kv_saved_def)
  with check_wal_truncates [of pb pc kv w m L "[]" rs, OF assms(1-3) _ assms(5-7) refl _ refl] assms(4,8) obtain kv1 w1 i1 where
    c: "check_wal pb [] rs kv w = Some (kv1, w1)" "k_kvs kv1 = fold kvs_req rs (k_kvs kv)"
      "kv_disk pb pc (k_wal kv1) w1 (fold kvs_req (drop (kv_lost pb rs kv L k) rs) (k_kvs kv), i1)" by auto
  from kv_restart_disk [OF c(3) assms(9), of kv1] c(1,2) kvs_reqs_ok [OF ok] show ?thesis by auto
qed

subsection \<open>A truncation with nothing to delete\<close>

text \<open>
  A store whose last Truncate left its information file behind: the checkpoint holds \<open>kvs\<close> with the id
  \<open>i\<close>, the log lies in the segments \<open>L\<close>, and the file names \<open>i\<close>.
\<close>

definition kv_pending :: "protobuf \<Rightarrow> KVConfig \<Rightarrow> LogCleanWal \<Rightarrow> world \<Rightarrow> nat \<Rightarrow> log_entry list list \<Rightarrow> u64 \<Rightarrow> kvs \<Rightarrow> bool" where
  "kv_pending pb pc wal w m L i kvs =
    (kv_conf pc \<and> wal_ok (kv_wal_ops pb) wal w m L \<and> wal_configured (walConf pc) wal \<and> trunc_pending w (m_sRootDir wal) i \<and>
     cp_clean pc w \<and> cp_holds (kv_cp_ops pb) (checkpointConf pc) (content w) i (raw_entries kvs) \<and> kv_ok kvs \<and> i \<noteq> 0 \<and> i \<noteq> -1)"

lemma check_wal_pending:
  assumes "kv_repr pb pc kv w" "kv_log pb kv w m L" "kv_idle pc (k_applyId kv) w" "kv_savable pb pc (k_kvs kv)"
    and "m_mpEntriesIdSegId (k_wal kv) (k_applyId kv) = Some (seg_id m k)" "k < length L" "trunc_count L k = 0"
    and "\<not> str_find LOGCLEAN_WAL_SEGMENT_PREFIX_NAME (trunc_info_path (kc_WalRootDirPath pc))"
    and "pb_ok pb" "wal_room (k_wal kv, w) 1"
  shows "\<exists>kv1 w1. check_wal pb [] [] kv w = Some (kv1, w1) \<and> kv_pending pb pc (k_wal kv1) w1 m L (k_applyId kv) (k_kvs kv) \<and>
    wal_room (k_wal kv1, w1) 1 \<and> k_kvs kv1 = k_kvs kv \<and> \<not> k_bStopped kv1 \<and> \<not> k_walLock kv1"
proof -
  let ?ops = "kv_wal_ops pb" and ?i = "k_applyId kv"
  have l: "wal_ok ?ops (k_wal kv) w m L" using assms(2) by (simp add: kv_log_def)
  have others: "kv_others pb pc [] [] kv w" using assms(9,10) by (simp add: kv_others_def split: option.split)
  have same: "kv_saved [] kv = k_kvs kv" "kv_log_after pb ([] @ []) kv L = L" by (simp_all add: kv_saved_def kv_log_after_def)
  obtain kv1 w1 where s: "kv_at pb pc kv1 w1 m L" "k_kvs kv1 = k_kvs kv" "wal_room (k_wal kv1, w1) 1"
    "cp_holds (kv_cp_ops pb) (checkpointConf pc) (content w1) ?i (raw_entries (k_kvs kv))"
    "\<And>wal w2. Truncate (k_wal kv1) ?i w1 = (W_OK, wal, w2) \<Longrightarrow> check_wal pb [] [] kv w = Some (kv1\<lparr>k_wal := wal, k_timer := k_timer kv1 + 1\<rparr>, w2)"
    using check_wal_saved [OF assms(1-3) _ others wal_entry_concat [OF l assms(5)]] assms(4) unfolding same by auto
  let ?wal = "(k_wal kv1)\<lparr>m_minSegmentId := 1\<rparr>"
  have a: "kv_conf pc" "wal_ok ?ops (k_wal kv1) w1 m L" "no_trunc_files w1 (m_sRootDir (k_wal kv1))" "wal_configured (walConf pc) (k_wal kv1)"
    "m_minSegmentId (k_wal kv1) = seg_id m 0" "cp_clean pc w1" "\<not> k_bStopped kv1" "\<not> k_walLock kv1" using s(1) by (simp_all add: kv_at_def)
  have e: "m_mpEntriesIdSegId (k_wal kv1) ?i = Some (seg_id m k)" "L ! k \<noteq> []"
    using kv_at_entry [OF _ l assms(5,6), of pc kv1 w1 "[] @ []"] s(1) unfolding same by blast+
  have root: "m_sRootDir (k_wal kv1) = kc_WalRootDirPath pc" using wal_configured_root [OF a(4)] by simp
  obtain w2 where t: "Truncate (k_wal kv1) ?i w1 = (W_OK, ?wal, w2)" "log_on_disk ?ops (k_wal kv1) w2 m L"
    "trunc_pending w2 (m_sRootDir (k_wal kv1)) ?i"
    using Truncate_nothing [OF a(2,3) assms(6) e(2,1) assms(7) a(5)] assms(8) root by auto
  have "1 \<le> m" using a(2) by (simp add: wal_ok_def log_segments_def)
  then have ok: "wal_ok ?ops ?wal w2 m L"
    using a(2) t(2) unfolding wal_ok_def log_on_disk_def by (simp add: wal_conf_def wal_paths_def wal_handle_def wal_sizes_def wal_ids_def)
  have "touches (in_dir (kc_WalRootDirPath pc)) {} w1 w2"
    using Truncate_touches [of "k_wal kv1" "{}" w1 ?i] t(1) root a(2) by (simp add: wal_ok_def wal_conf_def)
  moreover have "kc_WalRootDirPath pc \<noteq> kc_CheckpointRootDirPath pc" "reliable w2"
    using a(1) ok by (simp_all add: kv_conf_def wal_ok_def log_world_def)
  ultimately have "cp_clean pc w2" "cp_holds (kv_cp_ops pb) (checkpointConf pc) (content w2) ?i (raw_entries (k_kvs kv))"
    using cp_clean_frame [OF _ _ _ a(6)] s(4) by blast+
  moreover have "wal_configured (walConf pc) ?wal" using a(4) by (auto simp: wal_configured_def same_conf_def split: option.splits)
  moreover have "?i \<noteq> 0" "?i \<noteq> -1" using assms(3) by (auto simp: kv_idle_def)
  ultimately have "kv_pending pb pc ?wal w2 m L ?i (k_kvs kv)"
    using a(1) ok t(3) kv_repr_ok [OF assms(1)] by (simp add: kv_pending_def)
  with s(2,3) a(7,8) s(5) [OF t(1)] show ?thesis
    by (intro exI [of _ "kv1\<lparr>k_wal := ?wal, k_timer := k_timer kv1 + 1\<rparr>"] exI [of _ w2]) (simp add: wal_room_def)
qed

lemma pending_append:
  assumes "kv_pending pb pc wal w m L i kvs" "wal_good (kv_wal_ops pb) (walConf pc) e" "wal_room (wal, w) 1"
  shows "\<exists>wal' w' L'. AppendEntry (kv_wal_ops pb) wal e w = (Inr (next_id wal), wal', w') \<and> kv_pending pb pc wal' w' m L' i kvs \<and>
    length L' \<le> Suc (length L)"
proof -
  let ?ops = "kv_wal_ops pb"
  have p: "kv_conf pc" "wal_ok ?ops wal w m L" "wal_configured (walConf pc) wal" "trunc_pending w (m_sRootDir wal) i" "cp_clean pc w"
    "cp_holds (kv_cp_ops pb) (checkpointConf pc) (content w) i (raw_entries kvs)" using assms(1) by (simp_all add: kv_pending_def)
  have root: "m_sRootDir wal = kc_WalRootDirPath pc" using wal_configured_root [OF p(3)] by simp
  obtain bs where "appendable ?ops wal m L e bs" using wal_good_appendable [OF p(2,3) assms(2)] assms(3) by fastforce
  from AppendEntry_done [OF p(2) this refl] obtain wal' w' L' where r: "AppendEntry ?ops wal e w = (Inr (next_id wal), wal', w')"
    "wal_ok ?ops wal' w' m L'" "same_conf wal wal'" "is_dir w' = is_dir w" "length L' \<le> Suc (length L)"
    "\<And>p. (\<forall>i. p \<noteq> seg_path (m_sRootDir wal) i) \<Longrightarrow> content w' p = content w p"
    using length_append_log p(2) unfolding wal_ok_def by metis
  have "touches (in_dir (kc_WalRootDirPath pc)) {} w w'"
    using AppendEntry_touches [OF wal_ok_in_dir [OF p(2)], of "{}" w ?ops e] r(1) root by simp
  moreover have "kc_WalRootDirPath pc \<noteq> kc_CheckpointRootDirPath pc" "reliable w'"
    using p(1) r(2) by (simp_all add: kv_conf_def wal_ok_def log_world_def)
  ultimately have "cp_clean pc w'" "cp_holds (kv_cp_ops pb) (checkpointConf pc) (content w') i (raw_entries kvs)"
    using cp_clean_frame [OF _ _ _ p(5)] p(6) by blast+
  moreover have "trunc_pending w' (m_sRootDir wal') i" using p(4) r(3,4,6) by (simp add: trunc_pending_def same_conf_def)
  moreover have "wal_configured (walConf pc) wal'" using p(3) r(3) by (auto simp: wal_configured_def same_conf_def split: option.splits)
  ultimately have "kv_pending pb pc wal' w' m L' i kvs" using assms(1) r(2) by (simp add: kv_pending_def)
  with r(1,5) show ?thesis by blast
qed

lemma pending_restart:
  assumes "kv_pending pb pc wal w m L i kvs" "m + length L \<le> Suc (unat i)" "no_failure sch"
  shows "\<exists>kv' w'. kv_restart pb pc sch (kv, w) = Some (kv', w') \<and> k_kvs kv' = kvs"
proof -
  let ?ops = "kv_wal_ops pb" and ?w = "reboot sch w"
  have p: "kv_conf pc" "wal_ok ?ops wal w m L" "wal_configured (walConf pc) wal" "trunc_pending w (m_sRootDir wal) i" "cp_clean pc w"
    "cp_holds (kv_cp_ops pb) (checkpointConf pc) (content w) i (raw_entries kvs)" "kv_ok kvs" "i \<noteq> 0" "i \<noteq> -1"
    using assms(1) by (simp_all add: kv_pending_def)
  obtain kv0 st0 where kv0: "MiniKV_ctor pc = Some kv0" "LogCleanWal_ctor (walConf pc) = Some st0" "k_wal kv0 = st0" "k_checkpoint kv0 = kv_cp pc"
    "k_kvs kv0 = []" by (rule kv_conf_ctor [OF p(1)])
  have st0: "same_conf st0 wal" "wal_conf st0" "fresh_wal st0" "m_sRootDir st0 = m_sRootDir wal"
    using p(3) kv0(2) ctor_fresh [OF kv0(2)] by (auto simp: wal_configured_def same_conf_def)
  have rb: "reliable ?w" "wf_world ?w" using assms(3) p(2) by (auto simp: no_failure_def wal_ok_def log_world_def)
  have "cp_clean pc ?w" using p(5) cp_at_step [OF _ refl _ rb, of "kv_cp pc" "content w" w] by (simp add: cp_clean_def)
  then obtain cbs w1 w2 where cp: "cp_Init (kv_cp pc) ?w = (C_OK, cp_object (checkpointConf pc), w1)"
    "cp_Load (kv_cp_ops pb) (cp_object (checkpointConf pc)) w1 = (Inr i, cbs, w2)" "concat cbs = raw_entries kvs" "quiet ?w w2"
    using cp_start [of pc ?w "kv_cp_ops pb" i "raw_entries kvs"] p(6) kvc.local_creator [of pb] by auto
  have q: "content w2 = content w" "is_dir w2 = is_dir w" "reliable w2" "wf_world w2" using cp(4) rb by (auto simp: quiet_def)
  have "wal_ok ?ops wal w2 m L" by (rule wal_ok_frame [OF p(2) _ q(2-4)]) (simp add: q(1))
  then have "log_on_disk ?ops st0 w2 m L" using wal_ok_on_disk st0(1,2) by (fastforce simp: log_on_disk_def same_conf_def wal_sizes_def)
  moreover have "trunc_pending w2 (m_sRootDir st0) i" using p(4) q(1,2) st0(4) by (simp add: trunc_pending_def)
  moreover have "pending_count m (length L) i = length L" using assms(2) by (simp add: pending_count_def)
  ultimately obtain bs wal' w3 where s: "wal_start ?ops st0 w2 = (W_OK, bs, wal', w3)" "concat bs = decoded ?ops (concat (drop (length L) L))"
    using wal_start_pending [of ?ops st0 w2 m L i "length L"] st0(3) p(8,9) by auto
  have "on_checkpoint_load_entry (raw_entries kvs) [] = Some kvs" using load_raw_entries [of "[]" kvs] p(7) by simp
  moreover have "on_wal_load_entries (concat bs) (kvs, i) = Some (kvs, i)" by (simp add: s(2) decoded_def)
  ultimately have "Start pb kv0 ?w = Some (True, kv0\<lparr>k_checkpoint := cp_object (checkpointConf pc), k_kvs := kvs, k_applyId := i,
      k_wal := wal', k_bStopped := False, k_timer := k_timer kv0 + 1\<rparr>, w3)"
    using cp s(1) kv0(3-5) by (intro Start_run) auto
  with kv0(1) show ?thesis by (auto simp: kv_restart_def)
qed

text \<open>
  C31: an acknowledged Put can be lost.  When the background check finds no whole segment to delete,
  it returns normally, but Truncate leaves its information file behind, with an entry id that the
  next start reads as a segment number.  A Put after that is acknowledged with OK and is in the log;
  the next restart deletes every segment of the log and gives the map of the checkpoint, without the
  entry.
\<close>

theorem check_wal_loses_put:
  assumes "kv_repr pb pc kv w" "kv_log pb kv w m L" "kv_idle pc (k_applyId kv) w" "kv_savable pb pc (k_kvs kv)"
    and "m_mpEntriesIdSegId (k_wal kv) (k_applyId kv) = Some (seg_id m k)" "k < length L" "trunc_count L k = 0"
    and "\<not> str_find LOGCLEAN_WAL_SEGMENT_PREFIX_NAME (trunc_info_path (kc_WalRootDirPath pc))"
    and "m + length L \<le> unat (k_applyId kv)" "pb_ok pb" "req_fits pb pc (PutReq (Some e))" "wal_room (k_wal kv, w) 1" "no_failure sch"
  shows "\<exists>kv1 w1 kv2 w2 kv3 w3. check_wal pb [] [] kv w = Some (kv1, w1) \<and>
    Put pb (Some e) kv1 w1 = Some (\<lparr>put_rc = OK, put_errmsg = NoMsg\<rparr>, kv2, w2) \<and>
    map_of (k_kvs kv2) = (map_of (k_kvs kv))(pb_key e \<mapsto> e) \<and>
    kv_restart pb pc sch (kv2, w2) = Some (kv3, w3) \<and> k_kvs kv3 = k_kvs kv"
proof -
  let ?i = "k_applyId kv"
  obtain kv1 w1 where c: "check_wal pb [] [] kv w = Some (kv1, w1)" "kv_pending pb pc (k_wal kv1) w1 m L ?i (k_kvs kv)"
    "wal_room (k_wal kv1, w1) 1" "k_kvs kv1 = k_kvs kv" "\<not> k_bStopped kv1" "\<not> k_walLock kv1"
    using check_wal_pending [OF assms(1-8,10,12)] by blast
  obtain bs where bs: "SerializeToArray pb e = Some bs" "value_fits pc bs" "pb_key e \<noteq> []" using assms(11) by (auto split: option.splits)
  from pending_append [OF c(2) good_put [OF assms(10) bs(1,2)] c(3)] obtain wal' w2 L' where
    a: "AppendEntry (kv_wal_ops pb) (k_wal kv1) (WalPutEntry (Some e)) w1 = (Inr (next_id (k_wal kv1)), wal', w2)"
      "kv_pending pb pc wal' w2 m L' ?i (k_kvs kv)" "length L' \<le> Suc (length L)" by blast
  obtain kv2 where put: "Put pb (Some e) kv1 w1 = Some (\<lparr>put_rc = OK, put_errmsg = NoMsg\<rparr>, kv2, w2)"
    "k_kvs kv2 = sm_set Key_less (pb_key e) e (k_kvs kv)" using a(1) c(4-6) bs(3) by (simp add: Put_def)
  have "m + length L' \<le> Suc (unat ?i)" using a(3) assms(9) by simp
  from pending_restart [OF a(2) this assms(13), of kv2] c(1) put kv_ok_map(2) [OF kv_repr_ok [OF assms(1)]] show ?thesis by auto
qed

subsection \<open>Concrete stores\<close>

text \<open>
  A serving store on a disk whose log directory holds the given segments, numbered from 1, without a
  checkpoint: the witnesses below run the background check on two of them.
\<close>

definition demo_disk :: "log_entry list list \<Rightarrow> world" where
  "demo_disk L = (plain_disk L)\<lparr>w_dirs := [''/w'', ''/c'']\<rparr>"

definition demo_wal :: "log_entry list list \<Rightarrow> LogCleanWal" where
  "demo_wal L = (the (LogCleanWal_ctor (walConf demo_conf)))\<lparr>m_bInited := True, m_bLoaded := True, m_minSegmentId := seg_id 1 0,
     m_currentSegmentId := seg_id 1 (length L - 1), m_mpEntriesIdSegId := map_of (log_pairs 1 L),
     m_currentSegFd := Some (seg_path ''/w'' (seg_id 1 (length L - 1)), length (segment_bytes (last L))),
     m_curSegFileSize := word_of_nat (length (segment_bytes (last L))), m_currentEntryIdx := last (log_ids L)\<rparr>"

definition demo_serving :: "log_entry list list \<Rightarrow> kvs \<Rightarrow> MiniKV" where
  "demo_serving L kvs = (the (MiniKV_ctor demo_conf))\<lparr>k_bStopped := False, k_wal := demo_wal L, k_kvs := kvs,
     k_applyId := last (log_ids L), k_checkpoint := cp_object (checkpointConf demo_conf)\<rparr>"

definition demo_log :: "log_entry list list \<Rightarrow> bool" where
  "demo_log L =
    (Suc (length L) < 2 ^ 64 - 1 \<and> concat L \<noteq> [] \<and> wal_sizes (demo_wal L) L \<and> sorted_wrt (<) (log_ids L) \<and>
     (\<forall>i \<in> set (log_ids L). 1 < i \<and> i \<le> last (log_ids L)) \<and> unat (last (log_ids L)) < 2 ^ 64 - 1 \<and>
     (\<forall>es \<in> set L. \<forall>x \<in> set es. entry_ok (kv_wal_ops small_pb) x) \<and> 10 \<le> log_bytes L \<and> log_bytes L < 2 ^ 64)"

lemma demo_wal_fields:
  "m_sRootDir (demo_wal L) = ''/w''" "m_batchReadSize (demo_wal L) = 100" "m_segmentMaxSize (demo_wal L) = 60"
  "m_maxEntrySize (demo_wal L) = 83" "m_lastTruncMaxIdx (demo_wal L) = 1" "m_currentEntryIdx (demo_wal L) = last (log_ids L)"
  "m_minSegmentId (demo_wal L) = seg_id 1 0" "m_mpEntriesIdSegId (demo_wal L) = map_of (log_pairs 1 L)"
  "wal_paths (demo_wal L)" "wal_conf (demo_wal L)" "wal_configured (walConf demo_conf) (demo_wal L)"
proof -
  obtain st0 where c: "LogCleanWal_ctor (walConf demo_conf) = Some st0" "wal_conf st0"
    using demo_conf_ok by (auto simp: kv_conf_def split: option.splits)
  show f: "m_sRootDir (demo_wal L) = ''/w''" "m_batchReadSize (demo_wal L) = 100" "m_segmentMaxSize (demo_wal L) = 60"
    "m_maxEntrySize (demo_wal L) = 83" "m_lastTruncMaxIdx (demo_wal L) = 1" "m_currentEntryIdx (demo_wal L) = last (log_ids L)"
    "m_minSegmentId (demo_wal L) = seg_id 1 0" "m_mpEntriesIdSegId (demo_wal L) = map_of (log_pairs 1 L)"
    by (simp_all add: demo_wal_def demo_conf_def walConf_def LogCleanWal_ctor_def)
  show "wal_paths (demo_wal L)"
    using c f(1) by (simp add: wal_conf_def wal_paths_def demo_wal_def)
  with c(2) f(2-4) show "wal_conf (demo_wal L)" by (simp add: wal_conf_def)
  show "wal_configured (walConf demo_conf) (demo_wal L)"
    using c by (simp add: wal_configured_def same_conf_def demo_wal_def)
qed

lemma demo_disk_world:
  assumes "Suc (length L) < 2 ^ 64 - 1"
  shows "log_world (demo_disk L) ''/w''" "log_segments (demo_disk L) ''/w'' 1 L" "no_trunc_files (demo_disk L) ''/w''"
    "cp_clean demo_conf (demo_disk L)" "content (demo_disk L) (cp_sCpMetaFilePath (kv_cp demo_conf)) = None"
proof -
  let ?st = "kv_cp demo_conf"
  note p = plain_disk_world [OF assms]
  have c: "content (demo_disk L) = content (plain_disk L)" by (simp add: demo_disk_def content_def fun_eq_iff)
  have d: "is_dir (demo_disk L) p = (p = ''/'' \<or> p = ''/w'' \<or> p = ''/c'')" for p
    by (auto simp: is_dir_def demo_disk_def plain_disk_def plain_world_def)
  have e: "content (plain_disk L) q = None" if "parent q \<noteq> ''/w''" for q using plain_disk_content [of L q] that by (cases "content (plain_disk L) q") auto
  have "\<not> is_dir (demo_disk L) q" if "content (plain_disk L) q \<noteq> None" for q
    using plain_disk_content [OF that] by (auto simp: d seg_path_def)
  moreover have "w_files (demo_disk L) = w_files (plain_disk L)" "reliable (demo_disk L)"
    by (simp_all add: demo_disk_def plain_disk_def plain_world_def reliable_def)
  ultimately have wf: "wf_world (demo_disk L)" "reliable (demo_disk L)"
    using p(1) unfolding log_world_def wf_world_def c by simp_all
  have ready: "dir_ready (demo_disk L) ''/w''" "dir_ready (demo_disk L) ''/c''" unfolding dir_ready_def d by code_simp+
  then show "log_world (demo_disk L) ''/w''" using wf by (simp add: log_world_def d seg_path_def)
  show "log_segments (demo_disk L) ''/w'' 1 L" using p(2) by (simp add: log_segments_def c)
  show "no_trunc_files (demo_disk L) ''/w''"
    using p(3) by (simp add: no_trunc_files_def c d trunc_info_path_def trunc_ok_path_def)
  have cp: "content (demo_disk L) q = None" if "q \<in> set (cp_paths ?st)" for q
    using kv_cp_path [OF that] e [of q] by (simp add: c demo_conf_def)
  have "\<forall>q \<in> set (cp_paths ?st). \<not> is_dir (demo_disk L) q" unfolding d demo_conf_def by code_simp
  moreover have "cp_sRootDir ?st = ''/c''" by (simp add: demo_conf_def)
  ultimately have "cp_at ?st (content (demo_disk L)) (demo_disk L)" using wf ready(2) ctor_wf [of "checkpointConf demo_conf"] by (simp add: cp_at_def)
  with cp show "cp_clean demo_conf (demo_disk L)" "content (demo_disk L) (cp_sCpMetaFilePath ?st) = None" by (simp_all add: cp_clean_def)
qed

lemma demo_serving_ok:
  assumes "demo_log L" "on_wal_load_entries (decoded (kv_wal_ops small_pb) (concat L)) ([], 0) = Some (kvs, last (log_ids L))"
  shows "kv_repr small_pb demo_conf (demo_serving L kvs) (demo_disk L)" "kv_log small_pb (demo_serving L kvs) (demo_disk L) 1 L"
    "kv_idle demo_conf (last (log_ids L)) (demo_disk L)"
    "k_kvs (demo_serving L kvs) = kvs" "k_applyId (demo_serving L kvs) = last (log_ids L)" "k_wal (demo_serving L kvs) = demo_wal L"
proof -
  let ?kv = "demo_serving L kvs" and ?w = "demo_disk L" and ?ops = "kv_wal_ops small_pb"
  note L = assms(1) [unfolded demo_log_def]
  note D = demo_disk_world [of L] and W = demo_wal_fields [of L]
  obtain kv0 where kv0: "MiniKV_ctor demo_conf = Some kv0" using kv_conf_ctor [OF demo_conf_ok] by metis
  have kv: "k_kvs ?kv = kvs" "k_applyId ?kv = last (log_ids L)" "k_wal ?kv = demo_wal L" "\<not> k_bStopped ?kv" "\<not> k_walLock ?kv"
    "k_checkpoint ?kv = cp_object (checkpointConf demo_conf)" "k_triggerSize ?kv = 10"
    using kv0 by (auto simp: demo_serving_def demo_conf_def MiniKV_ctor_def split: option.splits)
  then show "k_kvs ?kv = kvs" "k_applyId ?kv = last (log_ids L)" "k_wal ?kv = demo_wal L" by simp_all
  have ne: "L \<noteq> []" "log_ids L \<noteq> []" using L by (auto simp: log_ids_def)
  then have last: "last (log_ids L) \<in> set (log_ids L)" by simp
  have "wal_handle (demo_wal L) 1 L" by (simp add: wal_handle_def W) (simp add: demo_wal_def seg_id_def)
  moreover have "wal_ids (demo_wal L) L" using L last by (auto simp: wal_ids_def W order.strict_implies_order)
  ultimately have ok: "wal_ok ?ops (demo_wal L) ?w 1 L"
    using L D W ne kvw.local_creator [of small_pb] by (simp add: wal_ok_def)
  then have "wal_repr ?ops (walConf demo_conf) (demo_wal L, ?w) (decoded ?ops (concat L))"
    using D(3) L W by (auto simp: wal_repr_def)
  moreover have "last_id (decoded ?ops (concat L)) = last (log_ids L)" using ne by (simp add: last_id_decoded)
  moreover have "kv_recovers small_pb demo_conf ?w (decoded ?ops (concat L)) 0 (kvs, last (log_ids L))"
    using assms(2) D(5) L unfolding kv_recovers_def by (intro exI [of _ "[]"]) (simp add: cp_holds_def cp_meta_def)
  ultimately have "kv_disk small_pb demo_conf (demo_wal L) ?w (kvs, last (log_ids L))"
    using demo_conf_ok D(4) L W(6) unfolding kv_disk_def by (intro conjI exI [of _ "decoded ?ops (concat L)"] exI [of _ 0]) simp_all
  then show "kv_repr small_pb demo_conf ?kv ?w" using kv by (simp add: kv_repr_def)
  have "(10 :: u64) \<le> word_of_nat (log_bytes L)" using L by (simp add: word_le_nat_alt unat_of_nat)
  then show "kv_log small_pb ?kv ?w 1 L" using ok D(3) L W kv by (simp add: kv_log_def)
  have "locks ?w = ([], [])" by (simp add: demo_disk_def plain_disk_def plain_world_def)
  moreover have "1 < last (log_ids L)" using L last by blast
  then have "0 < last (log_ids L)" by (auto simp: word_gt_0)
  moreover from L have "last (log_ids L) \<noteq> -1" by (auto simp: unsigned_minus_1_eq_mask mask_eq_exp_minus_1)
  ultimately show "kv_idle demo_conf (last (log_ids L)) ?w" using D(5) L kv \<open>0 < last (log_ids L)\<close> by (auto simp: kv_idle_def cp_meta_def)
qed

definition small_put :: "byte \<Rightarrow> u64 \<Rightarrow> log_entry" where
  "small_put k i = (1, i, [2, 1, k, 9])"

definition two_puts :: "log_entry list list" where
  "two_puts = [[small_put 5 2, small_put 6 3, small_put 5 4], [small_put 7 5]]"

definition one_put :: "log_entry list list" where
  "one_put = [[small_put 5 2]]"

abbreviation (input) nine :: "byte \<Rightarrow> bytes \<times> PbEntry" where
  "nine k \<equiv> ([k], \<lparr>pb_key = [k], pb_value = [9]\<rparr>)"

lemma small_put_ok: "entry_ok (kv_wal_ops small_pb) (small_put k i)"
  "decoded (kv_wal_ops small_pb) (small_put k i # xs) = (i, WalPutEntry (Some (snd (nine k)))) # decoded (kv_wal_ops small_pb) xs"
  by (simp_all add: entry_ok_def decoded_def small_put_def decode_entry_def kv_wal_ops_def create_wal_new_entry_def small_pb_def Let_def)

lemma demo_logs: "demo_log two_puts" "demo_log one_put"
proof -
  have "wal_sizes (demo_wal two_puts) two_puts" "wal_sizes (demo_wal one_put) one_put"
    unfolding wal_sizes_def demo_wal_fields two_puts_def one_put_def by code_simp+
  moreover have "log_bytes two_puts = 92" "log_bytes one_put = 25" by code_simp+
  ultimately show "demo_log two_puts" "demo_log one_put"
    by (simp_all add: demo_log_def two_puts_def one_put_def small_put_ok) (simp_all add: log_ids_def small_put_def)
qed

lemma demo_savable: "kv_savable small_pb demo_conf [nine 5, nine 6, nine 7, nine 8]" "kv_savable small_pb demo_conf [nine 5]"
proof -
  have "cp_good (kv_cp_ops small_pb) (RawPbEntryEntry (Some (snd (nine k))))" for k
    by (simp add: cp_good_def kv_cp_ops_def decode_entry_def create_checkpoint_new_entry_def small_pb_def)
  then show "kv_savable small_pb demo_conf [nine 5, nine 6, nine 7, nine 8]" "kv_savable small_pb demo_conf [nine 5]"
    by (simp_all add: kv_savable_def cp_fits_def checkpointConf_def demo_conf_def checkpoint_bytes_def cp_entry_bytes_def kv_cp_ops_def
        small_pb_def WriteUInt32_enc)
qed

lemmas two_puts_store = demo_serving_ok [OF demo_logs(1), of "[nine 5, nine 6, nine 7]"]
  and one_put_store = demo_serving_ok [OF demo_logs(2), of "[nine 5]"]

abbreviation (input) put_nine :: "byte \<Rightarrow> kv_req" where
  "put_nine k \<equiv> PutReq (Some (snd (nine k)))"

lemma put_nine_ok: "req_fits small_pb demo_conf (put_nine k)" "the (Encode (kv_wal_ops small_pb) (req_entry (put_nine k))) = [2, 1, k, 9]"
  by (simp_all add: small_pb_def value_fits_def demo_conf_def kv_wal_ops_def)

text \<open>The logs after the Puts of the witnesses: a segment is full with three entries.\<close>

lemma demo_log_after:
  "kv_log_after small_pb [put_nine 8, put_nine 9] (demo_serving two_puts kvs) two_puts =
    [[small_put 5 2, small_put 6 3, small_put 5 4], [small_put 7 5, small_put 8 6, small_put 9 7], []]"
  "kv_log_after small_pb [put_nine 6, put_nine 7, put_nine 8] (demo_serving one_put kvs) one_put =
    [[small_put 5 2, small_put 6 3, small_put 7 4], [small_put 8 5]]"
proof -
  have w: "k_wal (demo_serving L kvs) = demo_wal L" "m_writeEntryVersion (demo_wal L) = 1" for L
    by (simp_all add: demo_serving_def demo_wal_def demo_conf_def walConf_def LogCleanWal_ctor_def)
  have ids: "last (log_ids two_puts) = 5" "last (log_ids one_put) = 2" by (simp_all add: two_puts_def one_put_def log_ids_def small_put_def)
  have "append_log 60 two_puts (small_put 8 6) = [[small_put 5 2, small_put 6 3, small_put 5 4], [small_put 7 5, small_put 8 6]]"
    "append_log 60 [[small_put 5 2, small_put 6 3, small_put 5 4], [small_put 7 5, small_put 8 6]] (small_put 9 7) =
      [[small_put 5 2, small_put 6 3, small_put 5 4], [small_put 7 5, small_put 8 6, small_put 9 7], []]"
    "append_log 60 one_put (small_put 6 3) = [[small_put 5 2, small_put 6 3]]"
    "append_log 60 [[small_put 5 2, small_put 6 3]] (small_put 7 4) = [[small_put 5 2, small_put 6 3, small_put 7 4], []]"
    "append_log 60 [[small_put 5 2, small_put 6 3, small_put 7 4], []] (small_put 8 5) =
      [[small_put 5 2, small_put 6 3, small_put 7 4], [small_put 8 5]]"
    by code_simp+
  then show
    "kv_log_after small_pb [put_nine 8, put_nine 9] (demo_serving two_puts kvs) two_puts =
      [[small_put 5 2, small_put 6 3, small_put 5 4], [small_put 7 5, small_put 8 6, small_put 9 7], []]"
    "kv_log_after small_pb [put_nine 6, put_nine 7, put_nine 8] (demo_serving one_put kvs) one_put =
      [[small_put 5 2, small_put 6 3, small_put 7 4], [small_put 8 5]]"
    unfolding kv_log_after_def w demo_wal_fields ids log_after.simps put_nine_ok(2)
    by (simp_all add: small_put_def)
qed

text \<open>
  The witness: with the entries 2, 3, 4 in the first segment and 5 in the second, the first segment goes,
  while a Put of the key 8 runs before Save and one of the key 9 before Truncate.
\<close>

theorem check_wal_keeps_store_witness:
  "\<exists>kv' w'. check_wal small_pb [put_nine 8] [put_nine 9] (demo_serving two_puts [nine 5, nine 6, nine 7]) (demo_disk two_puts) = Some (kv', w') \<and>
    kv_repr small_pb demo_conf kv' w' \<and> map_of (k_kvs kv') [8] = Some (snd (nine 8)) \<and> map_of (k_kvs kv') [9] = Some (snd (nine 9)) \<and>
    cp_holds (kv_cp_ops small_pb) (checkpointConf demo_conf) (content w') 5 (raw_entries [nine 5, nine 6, nine 7, nine 8]) \<and>
    wal_ok (kv_wal_ops small_pb) (k_wal kv') w' 2 [[small_put 7 5, small_put 8 6, small_put 9 7], []]"
proof -
  let ?kv = "demo_serving two_puts [nine 5, nine 6, nine 7]" and ?w = "demo_disk two_puts" and ?rs = "[put_nine 8] @ [put_nine 9]"
  have load: "on_wal_load_entries (decoded (kv_wal_ops small_pb) (concat two_puts)) ([], 0) = Some ([nine 5, nine 6, nine 7], last (log_ids two_puts))"
    by (simp add: two_puts_def small_put_ok) (simp add: decoded_def log_ids_def small_put_def)
  note st = two_puts_store [OF load]
  have i: "last (log_ids two_puts) = 5" by (simp add: two_puts_def log_ids_def small_put_def)
  then have idx: "m_mpEntriesIdSegId (k_wal ?kv) (k_applyId ?kv) = Some (seg_id 1 1)"
    unfolding st demo_wal_fields by (simp add: two_puts_def small_put_def seg_id_def)
  have saved: "kv_saved [put_nine 8] ?kv = [nine 5, nine 6, nine 7, nine 8]" unfolding kv_saved_def st map_begin_def elements_from_def by simp
  have "wal_room (k_wal ?kv, ?w) 3" unfolding st by (simp add: wal_room_def demo_wal_fields i) (simp add: demo_wal_def two_puts_def seg_id_def)
  then have others: "kv_others small_pb demo_conf [put_nine 8] [put_nine 9] ?kv ?w"
    using small_pb_ok put_nine_ok(1) by (simp add: kv_others_def st(4) map_begin_def numeral_3_eq_3)
  let ?L = "[[small_put 5 2, small_put 6 3, small_put 5 4], [small_put 7 5, small_put 8 6, small_put 9 7], []]"
  have L: "kv_log_after small_pb ?rs ?kv two_puts = ?L" using demo_log_after(1) by simp
  have d: "trunc_count ?L 1 = 1" and "1 < length two_puts" "length (concat (take 1 ?L)) - length (concat two_puts) = 0"
    by (simp_all add: trunc_count_def two_puts_def)
  then have k: "1 < length two_puts" "0 < trunc_count (kv_log_after small_pb ?rs ?kv two_puts) 1" "kv_lost small_pb ?rs ?kv two_puts 1 = 0"
    by (simp_all only: L kv_lost_def Let_def)
  have idle: "kv_idle demo_conf (k_applyId ?kv) ?w" using st(3,5) by simp
  have "kv_savable small_pb demo_conf (kv_saved [put_nine 8] ?kv)" using demo_savable(1) by (simp only: saved)
  from check_wal_keeps_store [OF st(1,2) idle this others idx k(1-3)] show ?thesis
    unfolding saved L d st(4,5) i by (auto simp: numeral_2_eq_2)
qed

text \<open>
  The witness: the log has one entry in its only segment; three Puts run before Truncate, the third one
  in a new segment.  Truncate deletes the first segment, and a restart has lost the keys 6 and 7.
\<close>

theorem check_wal_then_restart_witness:
  "\<exists>kv1 w1 kv2 w2. check_wal small_pb [] [put_nine 6, put_nine 7, put_nine 8] (demo_serving one_put [nine 5]) (demo_disk one_put) = Some (kv1, w1) \<and>
    map_of (k_kvs kv1) [6] = Some (snd (nine 6)) \<and> map_of (k_kvs kv1) [7] = Some (snd (nine 7)) \<and>
    kv_restart small_pb demo_conf [] (kv1, w1) = Some (kv2, w2) \<and>
    map_of (k_kvs kv2) [6] = None \<and> map_of (k_kvs kv2) [7] = None \<and> map_of (k_kvs kv2) [8] = Some (snd (nine 8))"
proof -
  let ?kv = "demo_serving one_put [nine 5]" and ?w = "demo_disk one_put" and ?rs = "[put_nine 6, put_nine 7, put_nine 8]"
  have load: "on_wal_load_entries (decoded (kv_wal_ops small_pb) (concat one_put)) ([], 0) = Some ([nine 5], last (log_ids one_put))"
    by (simp add: one_put_def small_put_ok) (simp add: decoded_def log_ids_def small_put_def)
  note st = one_put_store [OF load]
  have i: "last (log_ids one_put) = 2" by (simp add: one_put_def log_ids_def small_put_def)
  then have idx: "m_mpEntriesIdSegId (k_wal ?kv) (k_applyId ?kv) = Some (seg_id 1 0)"
    unfolding st demo_wal_fields by (simp add: one_put_def small_put_def seg_id_def)
  have "wal_room (k_wal ?kv, ?w) 4" unfolding st by (simp add: wal_room_def demo_wal_fields i) (simp add: demo_wal_def one_put_def seg_id_def)
  then have others: "kv_others small_pb demo_conf [] ?rs ?kv ?w"
    using small_pb_ok put_nine_ok(1) by (simp add: kv_others_def st(4) map_begin_def eval_nat_numeral)
  let ?L = "[[small_put 5 2, small_put 6 3, small_put 7 4], [small_put 8 5]]"
  note L = demo_log_after(2) [of "[nine 5]"]
  have "trunc_count ?L 0 = 1" "0 < length one_put" "length (concat (take 1 ?L)) - length (concat one_put) = 2"
    by (simp_all add: trunc_count_def one_put_def)
  then have k: "0 < length one_put" "0 < trunc_count (kv_log_after small_pb ?rs ?kv one_put) 0" "kv_lost small_pb ?rs ?kv one_put 0 = 2"
    by (simp_all only: L kv_lost_def Let_def)
  have idle: "kv_idle demo_conf (k_applyId ?kv) ?w" using st(3,5) by simp
  have "kv_savable small_pb demo_conf (k_kvs ?kv)" "no_failure []" using demo_savable(2) by (simp_all add: st(4) no_failure_def)
  from check_wal_then_restart [OF st(1,2) idle this(1) others idx k(1,2) this(2)] show ?thesis
    unfolding k(3) st(4) by (auto simp: eval_nat_numeral)
qed

text \<open>The witness: with the single entry 2 in the only segment, a Put after the check is gone after a restart.\<close>

theorem check_wal_loses_put_witness:
  "\<exists>kv1 w1 kv2 w2 kv3 w3. check_wal small_pb [] [] (demo_serving one_put [nine 5]) (demo_disk one_put) = Some (kv1, w1) \<and>
    Put small_pb (Some (snd (nine 8))) kv1 w1 = Some (\<lparr>put_rc = OK, put_errmsg = NoMsg\<rparr>, kv2, w2) \<and>
    map_of (k_kvs kv2) [8] = Some (snd (nine 8)) \<and>
    kv_restart small_pb demo_conf [] (kv2, w2) = Some (kv3, w3) \<and> map_of (k_kvs kv3) [8] = None"
proof -
  have load: "on_wal_load_entries (decoded (kv_wal_ops small_pb) (concat one_put)) ([], 0) = Some ([nine 5], last (log_ids one_put))"
    by (simp add: one_put_def small_put_ok) (simp add: decoded_def log_ids_def small_put_def)
  note st = one_put_store [OF load]
  have l: "last (log_ids one_put) = 2" by (simp add: one_put_def log_ids_def small_put_def)
  then have idx: "m_mpEntriesIdSegId (demo_wal one_put) (last (log_ids one_put)) = Some (seg_id 1 0)"
    unfolding demo_wal_fields by (simp add: one_put_def small_put_def seg_id_def)
  have k: "0 < length one_put" "trunc_count one_put 0 = 0" "1 + length one_put \<le> unat (last (log_ids one_put))"
    by (simp_all add: l) (simp_all add: one_put_def trunc_count_def)
  have name: "\<not> str_find LOGCLEAN_WAL_SEGMENT_PREFIX_NAME (trunc_info_path (kc_WalRootDirPath demo_conf))" by code_simp
  have fits: "req_fits small_pb demo_conf (PutReq (Some (snd (nine 8))))" by (simp add: small_pb_def value_fits_def demo_conf_def)
  have room: "wal_room (demo_wal one_put, demo_disk one_put) 1"
    by (simp add: wal_room_def demo_wal_fields l) (simp add: demo_wal_def one_put_def seg_id_def)
  have "no_failure []" by (simp add: no_failure_def)
  from check_wal_loses_put [OF st(1,2) _ _ _ k(1,2) name _ small_pb_ok fits _ this] st(3-6) idx k(3) room demo_savable(2) show ?thesis
    by auto
qed

subsection \<open>A fork that fails\<close>

lemma blocked_run: "k_walLock kv \<Longrightarrow> (case kv_run pb r (kv, w) of None \<Rightarrow> (kv, w) | Some (_, s) \<Rightarrow> s) = (kv, w)"
  by (cases r) (auto simp: Put_def Delete_def split: option.split)

lemma blocked_others: "k_walLock kv \<Longrightarrow> snd (run_others pb cur rs (kv, w)) = (kv, w)"
proof (induction rs)
  case (Cons r rs)
  then show ?case using blocked_run [of kv w pb r] by (simp add: Let_def split_beta)
qed simp

text \<open>
  C33: when fork fails, Save returns an error after it has taken the mutex of the log in Prepare, and
  nobody releases it: the background check itself returns, but from then on every Put with an entry
  and every Delete with a key waits for ever.  Other threads may run requests before Save, which is
  reached in the state kv1; those that come after the fork change nothing.
\<close>

theorem fork_failure_blocks_writes:
  assumes "Size (k_wal kv) w = (Inr sz, w1)" "ucast (k_triggerSize kv) \<le> sz" "\<not> k_bStopped kv"
    and "run_others pb (map_begin (k_kvs kv)) rs (kv\<lparr>k_bCheck := False\<rparr>, w1) = (valid, kv1, w2)" "\<not> k_bStopped kv1" "\<not> k_walLock kv1"
    and "cp_bInited (k_checkpoint kv1)" "IsLocking (cp_sLockPath (k_checkpoint kv1)) w2 = (0, w3)" "sys_fork w3 = (False, w4)"
    and "pb_key e \<noteq> []" "k \<noteq> []"
  shows "\<exists>kv'. check_wal pb rs rs' kv w = Some (kv', w4) \<and> k_kvs kv' = k_kvs kv1 \<and> Put pb (Some e) kv' w' = None \<and> Delete pb k kv' w' = None"
proof -
  let ?t = "MiniKVTraveller (map_begin (k_kvs kv)) (k_applyId kv)" and ?kv = "kv1\<lparr>k_walLock := True\<rparr>"
  have save: "cp_Save (kv_cp_ops pb) (k_checkpoint kv1) ?t kv1 w2 = (Inl C_ForkError, ?kv, w4)"
    using assms(7-9) by (simp add: cp_Save_def MiniKVTraveller_def on_checkpoint_prepare_def)
  have "\<not> Save_forks (k_checkpoint kv1) w2" using assms(8,9) by (simp add: Save_forks_def)
  with assms(1-6) save have "check_wal_save pb rs (kv\<lparr>k_bCheck := False\<rparr>) w = Some (None, ?kv, w4)"
    by (simp add: check_wal_save_def)
  moreover obtain v where "run_others pb None rs' (?kv, w4) = (v, ?kv, w4)"
    using blocked_others [of ?kv pb None rs' w4] by (cases "run_others pb None rs' (?kv, w4)") simp
  ultimately have "check_wal pb rs rs' kv w = Some (register_trigger_check_wal_timer ?kv, w4)"
    using assms(3) by (simp add: check_wal_def check_wal_truncate_def)
  with assms(5,10,11) show ?thesis by (simp add: Put_def Delete_def register_trigger_check_wal_timer_def)
qed

theorem fork_failure_blocks_writes_witness:
  "\<exists>kv' w3. check_wal small_pb [] [put_nine 8] ((demo_serving one_put [])\<lparr>k_triggerSize := 0\<rparr>) (demo_world\<lparr>w_sched := [SysOk, SysOk, SysFail EAGAIN]\<rparr>) = Some (kv', w3) \<and>
    k_kvs kv' = [] \<and> Put small_pb (Some (snd (nine 8))) kv' demo_world = None \<and> Delete small_pb [8] kv' demo_world = None"
proof -
  let ?kv = "(demo_serving one_put [])\<lparr>k_triggerSize := 0\<rparr>" and ?w = "demo_world\<lparr>w_sched := [SysOk, SysOk, SysFail EAGAIN]\<rparr>"
  let ?w1 = "demo_world\<lparr>w_sched := [SysOk, SysFail EAGAIN]\<rparr>" and ?w2 = "demo_world\<lparr>w_sched := [SysFail EAGAIN], w_errno := ENOENT\<rparr>"
  let ?kv1 = "?kv\<lparr>k_bCheck := False\<rparr>"
  obtain kv0 where kv0: "MiniKV_ctor demo_conf = Some kv0" "\<not> k_walLock kv0" by (rule kv_conf_ctor [OF demo_conf_ok])
  then have kv: "k_wal ?kv = demo_wal one_put" "\<not> k_bStopped ?kv" "\<not> k_bStopped ?kv1" "\<not> k_walLock ?kv1"
    "k_checkpoint ?kv1 = cp_object (checkpointConf demo_conf)" "k_kvs ?kv1 = []"
    by (simp_all add: demo_serving_def)
  have parents: "parent ''/w'' = []" "parent ''/c'' = []" by code_simp+
  have size: "Size (k_wal ?kv) ?w = (Inr 0, ?w1)"
    unfolding kv Size_def list_segments_asc_def demo_wal_fields
    by (simp add: CollectFileChildren_def sys_readdir_def syscall_def demo_world_def is_dir_def content_def parents)
  have lock: "IsLocking (cp_sLockPath (k_checkpoint ?kv1)) ?w1 = (0, ?w2)"
    unfolding kv by (simp add: IsLocking_def is_locking_file_def Exist_def sys_access_def syscall_def demo_world_def is_dir_def
        content_def EntryOrderCheckpoint_ctor_def demo_conf_def checkpointConf_def EOCP_LOCK_NAME_def)
  have fork: "sys_fork ?w2 = (False, demo_world\<lparr>w_sched := [], w_errno := EAGAIN\<rparr>)"
    by (simp add: sys_fork_def syscall_def)
  have run: "run_others small_pb (map_begin (k_kvs ?kv)) [] (?kv1, ?w1) = (True, ?kv1, ?w1)" by simp
  from fork_failure_blocks_writes [OF size _ kv(2) run kv(3,4) _ lock fork, of "snd (nine 8)" "[8]" "[put_nine 8]" demo_world] kv(5,6) show ?thesis
    by auto
qed

end
