(* ===== verification/MemPool.thy ===== *)
theory MemPool
  imports Prelude
begin

text \<open>
  sys/mem-pool: the pool that hands out memory objects of four size classes.  Addresses are natural
  numbers, sizes 32-bit words.  The heap is the list of live blocks, each with its size; the allocator
  behind posix_memalign is the parameter \<open>ma\<close>.  The elements of an unordered_map are listed in the
  order of iteration.  None is undefined behaviour: a null or past-the-end iterator, a division by
  zero, a free of a block that is not live, or the failed assertion.
\<close>

subsection \<open>State\<close>

type_synonym addr = nat
type_synonym blocks = "(addr \<times> nat) list"
type_synonym aligned_alloc = "blocks \<Rightarrow> nat \<Rightarrow> addr option"
type_synonym page_objs = "(addr \<times> addr list) list"

datatype MemObjectType = Tiny | Small | Big | Bulk

record MemObject =
  m_type :: MemObjectType
  m_slot_size :: u32
  m_obj_pv :: addr
  m_obj_page_pv :: addr

record SlotObjPage =
  sp_objs :: page_objs
  sp_cnt :: u32

text \<open>
  \<open>m_free_bulk_objs\<close> maps a slot to the address of its element in \<open>m_free_hash_bulk_objs\<close>: it is the
  list of its keys, in order.
\<close>

record MemPool =
  m_tiny_obj_pages :: "addr list"
  m_free_tiny_objs :: page_objs
  m_free_tiny_objs_cnt :: u32
  m_small_obj_pages :: "(u32 \<times> addr list) list"
  m_free_small_objs :: "(u32 \<times> SlotObjPage) list"
  m_big_obj_pages :: "(u32 \<times> addr list) list"
  m_free_big_objs :: "(u32 \<times> SlotObjPage) list"
  m_bulk_obj_pages :: "(u32 \<times> addr list) list"
  m_free_hash_bulk_objs :: "(u32 \<times> SlotObjPage) list"
  m_free_bulk_objs :: "u32 list"
  m_free_mem_objs :: "MemObject list"
  m_sys_page_size :: u32
  m_small_obj_slot_footstep_size :: u32
  m_small_obj_slot_footstep_exponent :: nat
  m_big_obj_slot_footstep_exponent :: nat
  m_bulk_obj_slot_footstep_exponent :: nat
  m_one_slot_tiny_obj_resident_cnts :: u32
  m_one_slot_small_obj_resident_cnts :: u32
  m_one_slot_big_obj_resident_cnts :: u32
  m_one_slot_bulk_obj_resident_cnts :: u32
  m_tiny_obj_threshold :: u32
  m_big_obj_threshold :: u32
  m_bulk_obj_threshold :: u32
  m_available_reserve_bulk_obj_max_size :: u32
  m_expand_obj_cnt_factor :: u32
  m_expand_bulk_obj_cnt_factor :: u32

text \<open>The integer part of the binary logarithm.\<close>

fun ilog2 :: "nat \<Rightarrow> nat" where
  "ilog2 n = (if n < 2 then 0 else Suc (ilog2 (n div 2)))"

declare ilog2.simps [simp del]

text \<open>
  The constructor; \<open>page\<close> is the page size of the system, \<open>nprocs\<close> the number of processors, and
  \<open>u\<close> the value the counter of free tiny objects happens to have, as the constructor does not set it.
\<close>

definition slots :: "u32 \<Rightarrow> u32 list" where
  "slots n = map word_of_nat [1..<Suc (unat n)]"

definition MemPool_ctor :: "u32 \<Rightarrow> u32 \<Rightarrow> u32 \<Rightarrow> u32 \<Rightarrow> u32 \<Rightarrow> u32 \<Rightarrow> u32 \<Rightarrow> u32 \<Rightarrow> u32 \<Rightarrow> MemPool" where
  "MemPool_ctor page nprocs u torc sorc borc tpt bipt bupt =
    \<lparr>m_tiny_obj_pages = [], m_free_tiny_objs = [], m_free_tiny_objs_cnt = u,
     m_small_obj_pages = map (\<lambda>i. (i, [])) (slots (bipt div 32)),
     m_free_small_objs = map (\<lambda>i. (i, \<lparr>sp_objs = [], sp_cnt = 0\<rparr>)) (slots (bipt div 32)),
     m_big_obj_pages = map (\<lambda>i. (i, [])) (slots (bupt div page)),
     m_free_big_objs = map (\<lambda>i. (i, \<lparr>sp_objs = [], sp_cnt = 0\<rparr>)) (slots (bupt div page)),
     m_bulk_obj_pages = [], m_free_hash_bulk_objs = [], m_free_bulk_objs = [], m_free_mem_objs = [],
     m_sys_page_size = page, m_small_obj_slot_footstep_size = 32,
     m_small_obj_slot_footstep_exponent = ilog2 32,
     m_big_obj_slot_footstep_exponent = ilog2 (unat page),
     m_bulk_obj_slot_footstep_exponent = ilog2 (unat page),
     m_one_slot_tiny_obj_resident_cnts = torc, m_one_slot_small_obj_resident_cnts = sorc,
     m_one_slot_big_obj_resident_cnts = borc, m_one_slot_bulk_obj_resident_cnts = nprocs,
     m_tiny_obj_threshold = tpt, m_big_obj_threshold = bipt, m_bulk_obj_threshold = bupt,
     m_available_reserve_bulk_obj_max_size = 1048576, m_expand_obj_cnt_factor = 32,
     m_expand_bulk_obj_cnt_factor = 4\<rparr>"

definition MemPool_default :: "u32 \<Rightarrow> u32 \<Rightarrow> u32 \<Rightarrow> MemPool" where
  "MemPool_default page nprocs u = MemPool_ctor page nprocs u 512 256 128 16 page 131072"

text \<open>free, and the destructor, which frees every page of the books.\<close>

definition mem_free :: "addr \<Rightarrow> blocks \<Rightarrow> blocks option" where
  "mem_free p hp = (if p \<in> fst ` set hp then Some (AList.delete p hp) else None)"

fun free_all :: "addr list \<Rightarrow> blocks \<Rightarrow> blocks option" where
  "free_all [] hp = Some hp"
| "free_all (p # ps) hp = (case mem_free p hp of None \<Rightarrow> None | Some hp \<Rightarrow> free_all ps hp)"

definition all_pages :: "MemPool \<Rightarrow> addr list" where
  "all_pages P = m_tiny_obj_pages P @ concat (map snd (m_small_obj_pages P)) @ concat (map snd (m_big_obj_pages P)) @
    concat (map snd (m_bulk_obj_pages P))"

definition MemPool_dtor :: "MemPool \<Rightarrow> blocks \<Rightarrow> blocks option" where
  "MemPool_dtor P hp = free_all (all_pages P) hp"

subsection \<open>Sizes\<close>

definition roundup :: "u32 \<Rightarrow> nat \<Rightarrow> u32" where
  "roundup inp exponent =
    (let low_true = push_bit (32 - exponent) inp XOR 0
     in if low_true = 0 then inp
        else let multiple_base = push_bit (exponent - 1) 2;
                 mask = push_bit exponent (drop_bit exponent 0xFFFFFFFF)
             in (inp AND mask) + multiple_base)"

definition convert_slot_obj_size_to_slot_idx :: "u32 \<Rightarrow> u32 \<Rightarrow> u32" where
  "convert_slot_obj_size_to_slot_idx sz footstep = sz div footstep"

definition gen_expand_slot_page_size :: "u32 \<Rightarrow> u32 \<Rightarrow> u32 \<Rightarrow> u32" where
  "gen_expand_slot_page_size objSize expandObjCntFactor pageSize =
    (let expandCalSize = objSize * expandObjCntFactor;
         pageCnt = expandCalSize div pageSize;
         pageCnt = (if expandCalSize mod pageSize \<noteq> 0 then pageCnt + 1 else pageCnt)
     in pageCnt * pageSize)"

subsection \<open>Pages\<close>

definition split_mem_page :: "u32 \<Rightarrow> addr \<Rightarrow> u32 \<Rightarrow> addr list option" where
  "split_mem_page slotSize pagePv pageSize =
    (if slotSize = 0 then None
     else Some (map (\<lambda>i. pagePv + unat (slotSize * word_of_nat i)) [0..<unat (pageSize div slotSize)]))"

text \<open>The pages and the free objects of the slot come in and go out; the flag tells that there is memory.\<close>

definition alloc_page_objs ::
    "aligned_alloc \<Rightarrow> u32 \<Rightarrow> u32 \<Rightarrow> addr list \<Rightarrow> page_objs \<Rightarrow> blocks \<Rightarrow> (bool \<times> addr list \<times> page_objs \<times> blocks) option" where
  "alloc_page_objs ma sz slotSize pages freeObjs hp =
    (case ma hp (unat sz) of
       None \<Rightarrow> Some (False, pages, freeObjs, hp)
     | Some page_pv \<Rightarrow>
         (case split_mem_page slotSize page_pv sz of
            None \<Rightarrow> None
          | Some splitObjs \<Rightarrow>
              Some (True, List.insert page_pv pages, AList.update page_pv splitObjs freeObjs, (page_pv, unat sz) # hp)))"

text \<open>A null object when the slot has no page.\<close>

definition get_free_obj_from_slot_page :: "page_objs \<Rightarrow> (addr \<times> addr \<times> page_objs) option" where
  "get_free_obj_from_slot_page pages =
    (case pages of
       [] \<Rightarrow> Some (0, 0, [])
     | (slot_page_pv, freeObjs) # rest \<Rightarrow>
         (case freeObjs of
            [] \<Rightarrow> None
          | obj_pv # freeObjs \<Rightarrow>
              Some (slot_page_pv, obj_pv, if freeObjs = [] then rest else (slot_page_pv, freeObjs) # rest)))"

definition get_mem_object :: "MemObjectType \<Rightarrow> u32 \<Rightarrow> addr \<Rightarrow> addr \<Rightarrow> MemPool \<Rightarrow> MemObject \<times> MemPool" where
  "get_mem_object type slotSize objPv slotStartPv P =
    (let mo = \<lparr>m_type = type, m_slot_size = slotSize, m_obj_pv = objPv, m_obj_page_pv = slotStartPv\<rparr>
     in case m_free_mem_objs P of
          [] \<Rightarrow> (mo, P)
        | _ # rest \<Rightarrow> (mo, P\<lparr>m_free_mem_objs := rest\<rparr>))"

subsection \<open>Get\<close>

definition Get_tiny :: "aligned_alloc \<Rightarrow> MemPool \<Rightarrow> blocks \<Rightarrow> (MemObject option \<times> MemPool \<times> blocks) option" where
  "Get_tiny ma P hp =
    (case (if m_free_tiny_objs P = []
           then map_option (\<lambda>(ok, pages, fr, hp).
               (P\<lparr>m_tiny_obj_pages := pages, m_free_tiny_objs := fr,
                   m_free_tiny_objs_cnt := (if ok then m_sys_page_size P div m_tiny_obj_threshold P else m_free_tiny_objs_cnt P)\<rparr>, hp))
             (alloc_page_objs ma (m_sys_page_size P) (m_tiny_obj_threshold P) (m_tiny_obj_pages P) (m_free_tiny_objs P) hp)
           else Some (P, hp)) of
       None \<Rightarrow> None
     | Some (P, hp) \<Rightarrow>
         (case get_free_obj_from_slot_page (m_free_tiny_objs P) of
            None \<Rightarrow> None
          | Some (slot_page_pv, tiny_obj_pv, fr) \<Rightarrow>
              let P = P\<lparr>m_free_tiny_objs := fr\<rparr>
              in if tiny_obj_pv = 0 then Some (None, P, hp)
                 else let (mo, P) = get_mem_object Tiny (m_tiny_obj_threshold P) tiny_obj_pv slot_page_pv
                            (P\<lparr>m_free_tiny_objs_cnt := m_free_tiny_objs_cnt P - 1\<rparr>)
                      in Some (Some mo, P, hp)))"

text \<open>
  The slot of a small or a big object, taken out of the books and put back: the code works on them
  through pointers to the two maps.
\<close>

definition slot_books :: "MemObjectType \<Rightarrow> MemPool \<Rightarrow> (u32 \<times> SlotObjPage) list \<times> (u32 \<times> addr list) list" where
  "slot_books type P =
    (if type = Big then (m_free_big_objs P, m_big_obj_pages P) else (m_free_small_objs P, m_small_obj_pages P))"

definition set_slot :: "MemObjectType \<Rightarrow> u32 \<Rightarrow> SlotObjPage \<Rightarrow> addr list \<Rightarrow> MemPool \<Rightarrow> MemPool" where
  "set_slot type slotIdx sp pages P =
    (if type = Big
     then P\<lparr>m_free_big_objs := AList.update slotIdx sp (m_free_big_objs P), m_big_obj_pages := AList.update slotIdx pages (m_big_obj_pages P)\<rparr>
     else P\<lparr>m_free_small_objs := AList.update slotIdx sp (m_free_small_objs P), m_small_obj_pages := AList.update slotIdx pages (m_small_obj_pages P)\<rparr>)"

definition slot_pages :: "u32 \<Rightarrow> (u32 \<times> addr list) list \<Rightarrow> addr list" where
  "slot_pages slotIdx pages = (case map_of pages slotIdx of None \<Rightarrow> [] | Some ps \<Rightarrow> ps)"

definition Get_slot :: "aligned_alloc \<Rightarrow> u32 \<Rightarrow> MemPool \<Rightarrow> blocks \<Rightarrow> (MemObject option \<times> MemPool \<times> blocks) option" where
  "Get_slot ma sz P hp =
    (let type = (if m_big_obj_threshold P < sz then Big else Small);
         footstep = (if type = Big then m_sys_page_size P else m_small_obj_slot_footstep_size P);
         exponent = (if type = Big then m_big_obj_slot_footstep_exponent P else m_small_obj_slot_footstep_exponent P);
         slotSize = roundup sz exponent;
         slotIdx = convert_slot_obj_size_to_slot_idx slotSize footstep;
         (free_objs, pages) = slot_books type P
     in case map_of free_objs slotIdx of
          None \<Rightarrow> None
        | Some sp \<Rightarrow>
            let expandPageSize = gen_expand_slot_page_size slotSize (m_expand_obj_cnt_factor P) (m_sys_page_size P)
            in case (if sp_objs sp = []
                     then map_option (\<lambda>(ok, ps, fr, hp). (\<lparr>sp_objs = fr, sp_cnt = (if ok then expandPageSize div slotSize else sp_cnt sp)\<rparr>, ps, hp))
                       (alloc_page_objs ma expandPageSize slotSize (slot_pages slotIdx pages) (sp_objs sp) hp)
                     else Some (sp, slot_pages slotIdx pages, hp)) of
                 None \<Rightarrow> None
               | Some (sp, ps, hp) \<Rightarrow>
                   (case get_free_obj_from_slot_page (sp_objs sp) of
                      None \<Rightarrow> None
                    | Some (slot_page_pv, obj_pv, fr) \<Rightarrow>
                        if obj_pv = 0 then Some (None, set_slot type slotIdx (sp\<lparr>sp_objs := fr\<rparr>) ps P, hp)
                        else let (mo, P) = get_mem_object type slotSize obj_pv slot_page_pv
                                   (set_slot type slotIdx \<lparr>sp_objs = fr, sp_cnt = sp_cnt sp - 1\<rparr> ps P)
                             in Some (Some mo, P, hp)))"

text \<open>The first free object of the first page of a slot; a page without free objects leaves the slot.\<close>

definition take_first :: "SlotObjPage \<Rightarrow> (addr \<times> addr \<times> SlotObjPage) option" where
  "take_first sp =
    (case sp_objs sp of
       (p, obj # rest) # pages \<Rightarrow> Some (p, obj, sp\<lparr>sp_objs := (if rest = [] then pages else (p, rest) # pages)\<rparr>)
     | _ \<Rightarrow> None)"

definition erase_bulk_slot :: "u32 \<Rightarrow> MemPool \<Rightarrow> MemPool" where
  "erase_bulk_slot k P = P\<lparr>m_free_hash_bulk_objs := AList.delete k (m_free_hash_bulk_objs P), m_free_bulk_objs := removeAll k (m_free_bulk_objs P)\<rparr>"

definition set_bulk_slot :: "u32 \<Rightarrow> SlotObjPage \<Rightarrow> MemPool \<Rightarrow> MemPool" where
  "set_bulk_slot k sp P = P\<lparr>m_free_hash_bulk_objs := AList.update k sp (m_free_hash_bulk_objs P)\<rparr>"

text \<open>
  The suitable slot, object and page; zeros when there is none.  \<open>needSlotIdx * 2.0\<close> is exact in the
  range of slot numbers.  When the last object of an inexact match is taken, the code erases the
  element of \<open>m_free_bulk_objs\<close> and then reads the key through the same iterator again: for the plain
  iterator that is undefined; the reverse iterator then denotes the element before, so that the wrong
  slot is erased from the hash table.
\<close>

definition get_suitable_bulk_page :: "u32 \<Rightarrow> MemPool \<Rightarrow> ((u32 \<times> addr \<times> addr) \<times> MemPool) option" where
  "get_suitable_bulk_page need P =
    (case map_of (m_free_hash_bulk_objs P) need of
       Some sp \<Rightarrow>
         (case take_first sp of
            None \<Rightarrow> None
          | Some (page, obj, sp) \<Rightarrow>
              Some ((need, obj, page), if sp_objs sp = [] then erase_bulk_slot need P else set_bulk_slot need sp P))
     | None \<Rightarrow>
         let keys = m_free_bulk_objs P; maxPageSize = 2 * need
         in if keys = [] \<or> last keys < need then Some ((0, 0, 0), P)
            else if hd keys > need
            then (if hd keys > maxPageSize then Some ((0, 0, 0), P)
                  else case map_of (m_free_hash_bulk_objs P) (hd keys) of
                      None \<Rightarrow> None
                    | Some sp \<Rightarrow>
                        (case take_first sp of
                           None \<Rightarrow> None
                         | Some (page, obj, sp) \<Rightarrow>
                             if sp_objs sp = [] then None else Some ((hd keys, obj, page), set_bulk_slot (hd keys) sp P)))
            else (case find (\<lambda>k. need < k \<and> k \<le> maxPageSize) (rev keys) of
                    None \<Rightarrow> Some ((0, 0, 0), P)
                  | Some k \<Rightarrow>
                      (case map_of (m_free_hash_bulk_objs P) k of
                         None \<Rightarrow> None
                       | Some sp \<Rightarrow>
                           (case take_first sp of
                              None \<Rightarrow> None
                            | Some (page, obj, sp) \<Rightarrow>
                                if sp_objs sp \<noteq> [] then Some ((k, obj, page), set_bulk_slot k sp P)
                                else let P = set_bulk_slot k sp P;
                                         before = filter (\<lambda>j. j < k) keys
                                     in if before = [] then None
                                        else Some ((k, obj, page),
                                          P\<lparr>m_free_bulk_objs := removeAll k keys,
                                            m_free_hash_bulk_objs := AList.delete (last before) (m_free_hash_bulk_objs P)\<rparr>)))))"

definition Get_bulk :: "aligned_alloc \<Rightarrow> u32 \<Rightarrow> MemPool \<Rightarrow> blocks \<Rightarrow> (MemObject option \<times> MemPool \<times> blocks) option" where
  "Get_bulk ma sz P hp =
    (let needPageSize = roundup sz (m_bulk_obj_slot_footstep_exponent P);
         need = convert_slot_obj_size_to_slot_idx needPageSize (m_sys_page_size P)
     in case get_suitable_bulk_page need P of
          None \<Rightarrow> None
        | Some ((k, obj, page), P) \<Rightarrow>
            (case (if obj \<noteq> 0 then Some ((k, obj, page), P, hp)
                   else
                     let expandPageSize = (if needPageSize < m_available_reserve_bulk_obj_max_size P
                           then gen_expand_slot_page_size needPageSize (m_expand_bulk_obj_cnt_factor P) (m_sys_page_size P)
                           else needPageSize)
                     in case alloc_page_objs ma expandPageSize needPageSize [] [] hp of
                          None \<Rightarrow> None
                        | Some (ok, pages, fr, hp) \<Rightarrow>
                            let P = P\<lparr>m_bulk_obj_pages := AList.update need pages (m_bulk_obj_pages P)\<rparr>;
                                P = (if ok
                                  then (set_bulk_slot need \<lparr>sp_objs = fr, sp_cnt = expandPageSize div needPageSize\<rparr> P)
                                    \<lparr>m_free_bulk_objs := insort_insert need (m_free_bulk_objs P)\<rparr>
                                  else erase_bulk_slot need P)
                            in map_option (\<lambda>(r, P). (r, P, hp)) (get_suitable_bulk_page need P)) of
               None \<Rightarrow> None
             | Some ((k, obj, page), P, hp) \<Rightarrow>
                 if obj = 0 then Some (None, P, hp)
                 else let P = (case map_of (m_free_hash_bulk_objs P) k of
                               None \<Rightarrow> P | Some sp \<Rightarrow> set_bulk_slot k (sp\<lparr>sp_cnt := sp_cnt sp - 1\<rparr>) P);
                          (mo, P) = get_mem_object Bulk (k * m_sys_page_size P) obj page P
                      in Some (Some mo, P, hp)))"

definition MemPool_Get :: "aligned_alloc \<Rightarrow> u32 \<Rightarrow> MemPool \<Rightarrow> blocks \<Rightarrow> (MemObject option \<times> MemPool \<times> blocks) option" where
  "MemPool_Get ma sz P hp =
    (if sz = 0 then None
     else if m_tiny_obj_threshold P \<ge> sz then Get_tiny ma P hp
     else if m_bulk_obj_threshold P \<ge> sz then Get_slot ma sz P hp
     else Get_bulk ma sz P hp)"

subsection \<open>Put\<close>

definition add_obj :: "addr \<Rightarrow> addr \<Rightarrow> page_objs \<Rightarrow> page_objs" where
  "add_obj page obj fr = AList.update page ((case map_of fr page of None \<Rightarrow> [] | Some l \<Rightarrow> l) @ [obj]) fr"

text \<open>
  The part the cases share: the object goes back to its page, and when there are too many free
  objects the first page that is completely free is released.  The flag tells that one was.
\<close>

definition put_obj ::
    "u32 \<Rightarrow> u32 \<Rightarrow> addr \<Rightarrow> addr \<Rightarrow> page_objs \<times> u32 \<times> addr list \<Rightarrow> blocks \<Rightarrow> (bool \<times> (page_objs \<times> u32 \<times> addr list) \<times> blocks) option" where
  "put_obj resident onePageObjsCnt objPv objPagePv s hp =
    (case s of (fr, n, pages) \<Rightarrow>
       let fr = add_obj objPagePv objPv fr; n = n + 1
       in if n \<ge> resident + onePageObjsCnt
          then (case find (\<lambda>x. length (snd x) = unat onePageObjsCnt) fr of
                  None \<Rightarrow> Some (False, (fr, n, pages), hp)
                | Some (p, _) \<Rightarrow>
                    map_option (\<lambda>hp. (True, (AList.delete p fr, n - onePageObjsCnt, removeAll p pages), hp)) (mem_free p hp))
          else Some (False, (fr, n, pages), hp))"

definition put_tiny :: "addr \<Rightarrow> addr \<Rightarrow> MemPool \<Rightarrow> blocks \<Rightarrow> (MemPool \<times> blocks) option" where
  "put_tiny objPv objPagePv P hp =
    map_option (\<lambda>(_, (fr, n, pages), hp). (P\<lparr>m_free_tiny_objs := fr, m_free_tiny_objs_cnt := n, m_tiny_obj_pages := pages\<rparr>, hp))
      (put_obj (m_one_slot_tiny_obj_resident_cnts P) (m_sys_page_size P div m_tiny_obj_threshold P) objPv objPagePv
        (m_free_tiny_objs P, m_free_tiny_objs_cnt P, m_tiny_obj_pages P) hp)"

definition put_slot :: "MemObjectType \<Rightarrow> u32 \<Rightarrow> addr \<Rightarrow> addr \<Rightarrow> MemPool \<Rightarrow> blocks \<Rightarrow> (MemPool \<times> blocks) option" where
  "put_slot type slotSize objPv objPagePv P hp =
    (let footstep = (if type = Big then m_sys_page_size P else m_small_obj_slot_footstep_size P);
         resident = (if type = Big then m_one_slot_big_obj_resident_cnts P else m_one_slot_small_obj_resident_cnts P);
         slotIdx = convert_slot_obj_size_to_slot_idx slotSize footstep;
         (free_objs, pages) = slot_books type P
     in case map_of free_objs slotIdx of
          None \<Rightarrow> None
        | Some sp \<Rightarrow>
            if slotSize = 0 then None
            else
              let onePageSize = gen_expand_slot_page_size slotSize (m_expand_obj_cnt_factor P) (m_sys_page_size P)
              in map_option (\<lambda>(_, (fr, n, ps), hp). (set_slot type slotIdx \<lparr>sp_objs = fr, sp_cnt = n\<rparr> ps P, hp))
                   (put_obj resident (onePageSize div slotSize) objPv objPagePv (sp_objs sp, sp_cnt sp, slot_pages slotIdx pages) hp))"

definition put_bulk :: "u32 \<Rightarrow> addr \<Rightarrow> addr \<Rightarrow> MemPool \<Rightarrow> blocks \<Rightarrow> (MemPool \<times> blocks) option" where
  "put_bulk slotSize objPv objPagePv P hp =
    (let k = convert_slot_obj_size_to_slot_idx slotSize (m_sys_page_size P)
     in if slotSize > m_available_reserve_bulk_obj_max_size P
        then (case map_of (m_bulk_obj_pages P) k of
                None \<Rightarrow> None
              | Some pages \<Rightarrow>
                  let pages = removeAll objPagePv pages
                  in map_option (\<lambda>hp. (P\<lparr>m_bulk_obj_pages :=
                         (if pages = [] then AList.delete k (m_bulk_obj_pages P) else AList.update k pages (m_bulk_obj_pages P))\<rparr>, hp))
                       (mem_free objPagePv hp))
        else if slotSize = 0 then None
        else
          let (sp, P) = (case map_of (m_free_hash_bulk_objs P) k of
                None \<Rightarrow> (\<lparr>sp_objs = [(objPagePv, [])], sp_cnt = 0\<rparr>, P\<lparr>m_free_bulk_objs := insort_insert k (m_free_bulk_objs P)\<rparr>)
              | Some sp \<Rightarrow> (sp, P));
              onePageSize = gen_expand_slot_page_size slotSize (m_expand_bulk_obj_cnt_factor P) (m_sys_page_size P)
          in map_option (\<lambda>(freed, (fr, n, ps), hp).
                 let P = set_bulk_slot k \<lparr>sp_objs = fr, sp_cnt = n\<rparr> P;
                     P = (if freed then P\<lparr>m_bulk_obj_pages := AList.update k ps (m_bulk_obj_pages P)\<rparr> else P)
                 in (if freed \<and> n = 0 then erase_bulk_slot k P else P, hp))
               (put_obj (m_one_slot_bulk_obj_resident_cnts P) (onePageSize div slotSize) objPv objPagePv
                 (sp_objs sp, sp_cnt sp, slot_pages k (m_bulk_obj_pages P)) hp))"

definition MemPool_put :: "MemObjectType \<Rightarrow> u32 \<Rightarrow> addr \<Rightarrow> addr \<Rightarrow> MemPool \<Rightarrow> blocks \<Rightarrow> (MemPool \<times> blocks) option" where
  "MemPool_put type slotSize objPv objPagePv P hp =
    (case type of
       Tiny \<Rightarrow> put_tiny objPv objPagePv P hp
     | Small \<Rightarrow> put_slot Small slotSize objPv objPagePv P hp
     | Big \<Rightarrow> put_slot Big slotSize objPv objPagePv P hp
     | Bulk \<Rightarrow> put_bulk slotSize objPv objPagePv P hp)"

definition MemPool_Put :: "MemObject option \<Rightarrow> MemPool \<Rightarrow> blocks \<Rightarrow> (MemPool \<times> blocks) option" where
  "MemPool_Put memObject P hp =
    (case memObject of
       None \<Rightarrow> Some (P, hp)
     | Some mo \<Rightarrow>
         map_option (\<lambda>(P, hp). (P\<lparr>m_free_mem_objs := m_free_mem_objs P @ [mo]\<rparr>, hp))
           (MemPool_put (m_type mo) (m_slot_size mo) (m_obj_pv mo) (m_obj_page_pv mo) P hp))"

end
