(* ===== verification/MemPoolLaws.thy ===== *)
theory MemPoolLaws
  imports MemPool "HOL-Library.Multiset"
begin

text \<open>
  The memory pool keeps its books: the objects it has handed out lie in live pages and do not overlap,
  and it releases a page only when every object of it is free.
\<close>

subsection \<open>Sizes\<close>

lemma ilog2_power [simp]: "ilog2 (2 ^ n) = n"
  by (induction n) (simp_all add: ilog2.simps [of "Suc 0"] ilog2.simps [of "2 * 2 ^ _"])

text \<open>
  The next multiple of a power of two: the value itself if it is one, otherwise the multiple above,
  modulo 2^32.
\<close>

lemma roundup_unat:
  assumes "0 < k" "k < 32"
  shows "unat (roundup n k) = (if unat n mod 2 ^ k = 0 then unat n else (unat n div 2 ^ k + 1) * 2 ^ k mod 2 ^ 32)"
proof -
  have low: "push_bit (32 - k) n = 0 \<longleftrightarrow> take_bit k n = 0"
  proof -
    have "push_bit (32 - k) n = 0 \<longleftrightarrow> (\<forall>i < k. \<not> bit n i)"
    proof
      assume "push_bit (32 - k) n = 0"
      show "\<forall>i < k. \<not> bit n i"
      proof (intro allI impI)
        fix i assume "i < k"
        then have "bit (push_bit (32 - k) n) (32 - k + i) = bit n i" using assms by (auto simp: bit_push_bit_iff)
        then show "\<not> bit n i" using \<open>push_bit (32 - k) n = 0\<close> by simp
      qed
    next
      assume "\<forall>i < k. \<not> bit n i"
      then show "push_bit (32 - k) n = 0" by (intro bit_word_eqI) (auto simp: bit_push_bit_iff)
    qed
    also have "\<dots> \<longleftrightarrow> take_bit k n = 0"
      using assms(2) by (simp add: bit_eq_iff bit_take_bit_iff) (meson less_trans)
    finally show ?thesis .
  qed
  have mask: "n AND push_bit k (drop_bit k 0xFFFFFFFF) = push_bit k (drop_bit k n)"
  proof -
    have "(0xFFFFFFFF :: u32) = -1" by simp
    show ?thesis unfolding \<open>0xFFFFFFFF = -1\<close> by (auto intro!: bit_word_eqI simp: bit_and_iff bit_push_bit_iff bit_drop_bit_eq bit_mask_iff)
  qed
  have base: "push_bit (k - 1) 2 = (2 ^ k :: u32)"
    using assms(1) by (simp add: push_bit_eq_mult power_eq_if)
  have high: "unat (push_bit k (drop_bit k n)) = (unat n div 2 ^ k) * 2 ^ k"
  proof -
    have "push_bit k (drop_bit k n) = n - take_bit k n" by (metis add_diff_cancel_right' bits_ident)
    then have "unat (push_bit k (drop_bit k n)) = unat n - unat (take_bit k n)"
      by (simp add: unat_sub word_le_nat_alt unsigned_take_bit_eq)
    also have "unat (take_bit k n) = unat n mod 2 ^ k" by (simp add: unsigned_take_bit_eq flip: take_bit_eq_mod)
    finally show ?thesis by (simp add: minus_mod_eq_div_mult)
  qed
  have zero: "take_bit k n = 0 \<longleftrightarrow> unat n mod 2 ^ k = 0"
    by (metis take_bit_eq_mod unat_eq_zero unsigned_take_bit_eq)
  have "unat (2 ^ k :: u32) = 2 ^ k" 
  proof -
    have "(2 :: nat) ^ k < 2 ^ 32" using assms(2) by (intro power_strict_increasing) auto
    then show ?thesis using unat_of_nat [of "2 ^ k", where 'a = 32] by simp
  qed
  then have "unat (push_bit k (drop_bit k n) + 2 ^ k) = ((unat n div 2 ^ k) * 2 ^ k + 2 ^ k) mod 2 ^ 32"
    by (simp add: unat_word_ariths high)
  with low mask base zero show ?thesis
    by (simp add: roundup_def Let_def add.commute)
qed


lemma roundup_above:
  assumes k: "0 < k" "k < 32" and m: "2 ^ k dvd m" "unat n \<le> m" "m < 2 ^ 32"
  shows "unat n \<le> unat (roundup n k)" "unat (roundup n k) \<le> m" "2 ^ k dvd unat (roundup n k)"
proof -
  obtain j where j: "m = j * 2 ^ k" using m(1) by (metis dvd_def mult.commute)
  let ?d = "2 ^ k :: nat"
  have "unat n \<le> unat (roundup n k) \<and> unat (roundup n k) \<le> m \<and> 2 ^ k dvd unat (roundup n k)"
  proof (cases "unat n mod ?d = 0")
    case True
    then show ?thesis using m k by (simp add: roundup_unat mod_eq_0_iff_dvd)
  next
    case False
    have "unat n div ?d \<le> j" using div_le_mono [OF m(2), of ?d] by (simp add: j)
    moreover have "unat n div ?d \<noteq> j"
    proof
      assume "unat n div ?d = j"
      then have "m + unat n mod ?d = unat n" using div_mult_mod_eq [of "unat n" ?d] by (simp add: j)
      then show False using False m(2) by simp
    qed
    ultimately have "(unat n div ?d + 1) * ?d \<le> m" unfolding j by (intro mult_le_mono1) simp
    moreover have "unat n < (unat n div ?d + 1) * ?d"
      using dividend_less_div_times [of ?d "unat n"] by simp
    ultimately show ?thesis using False k m(3) by (simp add: roundup_unat)
  qed
  then show "unat n \<le> unat (roundup n k)" "unat (roundup n k) \<le> m" "2 ^ k dvd unat (roundup n k)" by blast+
qed

lemma split_mem_page_nat:
  assumes "s \<noteq> 0"
  shows "split_mem_page s p g = Some (map (\<lambda>i. p + unat s * i) [0..<unat g div unat s])"
proof -
  have "unat (s * word_of_nat i) = unat s * i" if "i < unat g div unat s" for i
  proof -
    have "unat s * i \<le> unat g" using that by (meson div_times_less_eq_dividend le_trans less_imp_le mult.commute mult_le_mono2 times_div_less_eq_dividend)
    then have "unat s * i < 2 ^ 32" using unsigned_less [of g, where 'a = nat] by simp
    then show ?thesis by (simp add: unat_word_ariths unat_of_nat mod_mult_right_eq)
  qed
  then show ?thesis using assms by (simp add: split_mem_page_def unat_div)
qed

subsection \<open>One class of objects\<close>

text \<open>
  The books of a class are its free objects by page, their number and its pages; \<open>out p\<close> are the
  objects of page \<open>p\<close> in the hands of the callers.  In every page the free objects and those handed
  out are together the objects the page was split into.
\<close>

definition splits :: "nat \<Rightarrow> nat \<Rightarrow> addr \<Rightarrow> addr list" where
  "splits s g p = map (\<lambda>i. p + s * i) [0..<g div s]"

definition objs_of :: "page_objs \<Rightarrow> addr \<Rightarrow> addr list" where
  "objs_of fr p = (case map_of fr p of None \<Rightarrow> [] | Some l \<Rightarrow> l)"

definition free_cnt :: "page_objs \<Rightarrow> addr set \<Rightarrow> nat" where
  "free_cnt fr ps = (\<Sum>p \<in> ps. length (objs_of fr p))"

definition class_ok :: "nat \<Rightarrow> nat \<Rightarrow> page_objs \<times> u32 \<times> addr list \<Rightarrow> (addr \<Rightarrow> addr multiset) \<Rightarrow> bool" where
  "class_ok s g = (\<lambda>(fr, n, pages) out.
     distinct (map fst fr) \<and> [] \<notin> snd ` set fr \<and> distinct pages \<and> 0 \<notin> set pages \<and>
     (\<forall>p. p \<notin> set pages \<longrightarrow> objs_of fr p = [] \<and> out p = {#}) \<and>
     (\<forall>p \<in> set pages. mset (objs_of fr p) + out p = mset (splits s g p)) \<and>
     (pages \<noteq> [] \<longrightarrow> n = word_of_nat (free_cnt fr (set pages))))"

lemma objs_of_Nil [simp]: "objs_of [] p = []"
  by (simp add: objs_of_def)

lemma objs_of_add [simp]: "objs_of (add_obj p x fr) q = (if q = p then objs_of fr p @ [x] else objs_of fr q)"
  by (simp add: objs_of_def add_obj_def update_conv' split: option.splits)

lemma objs_of_delete [simp]: "objs_of (AList.delete p fr) q = (if q = p then [] else objs_of fr q)"
  by (simp add: objs_of_def delete_conv')

lemma length_splits [simp]: "length (splits s g p) = g div s"
  by (simp add: splits_def)

lemma splits_ge: "x \<in> set (splits s g p) \<Longrightarrow> p \<le> x"
  by (auto simp: splits_def)

lemma splits_le: "x \<in> set (splits s g p) \<Longrightarrow> x + s \<le> p + g"
proof -
  assume "x \<in> set (splits s g p)"
  then obtain i where "x = p + s * i" "i \<in> {0..<g div s}" unfolding splits_def set_map set_upt by blast
  then have i: "x = p + s * i" "Suc i \<le> g div s" by simp_all
  have "s * Suc i \<le> s * (g div s)" using i(2) by (rule mult_le_mono2)
  also have "\<dots> \<le> g" by simp
  finally show ?thesis using i(1) by simp
qed

text \<open>A new page.\<close>

lemma class_alloc:
  assumes ok: "class_ok (unat s) (unat g) ([], n, pages) out"
    and s: "s \<noteq> 0" "s \<le> g" and ma: "ma hp (unat g) = Some p" "p \<noteq> 0" "p \<notin> set pages"
  shows "\<exists>fr. alloc_page_objs ma g s pages [] hp = Some (True, p # pages, fr, (p, unat g) # hp) \<and> fr \<noteq> [] \<and>
    class_ok (unat s) (unat g) (fr, g div s, p # pages) out"
proof -
  let ?fr = "[(p, splits (unat s) (unat g) p)]"
  have pos: "0 < unat g div unat s" using s by (simp add: div_greater_zero_iff word_le_nat_alt unat_gt_0)
  have o: "objs_of ?fr q = (if q = p then splits (unat s) (unat g) p else [])" for q
    by (simp add: objs_of_def)
  have "word_of_nat (unat g div unat s) = g div s" by (simp flip: unat_div)
  moreover have "free_cnt ?fr (set (p # pages)) = unat g div unat s"
    using ma(3) o by (auto simp: free_cnt_def intro!: sum.neutral)
  ultimately have "class_ok (unat s) (unat g) (?fr, g div s, p # pages) out"
    using ok ma(2,3) pos o by (auto simp: class_ok_def splits_def)
  moreover have "alloc_page_objs ma g s pages [] hp = Some (True, p # pages, ?fr, (p, unat g) # hp)"
    using ma s(1) by (simp add: alloc_page_objs_def split_mem_page_nat splits_def List.insert_def)
  ultimately show ?thesis by blast
qed

text \<open>Taking the first free object of the first page.\<close>

lemma free_cnt_update:
  assumes "finite A" "p \<in> A" "\<And>q. q \<noteq> p \<Longrightarrow> objs_of fr' q = objs_of fr q"
  shows "free_cnt fr' A + length (objs_of fr p) = free_cnt fr A + length (objs_of fr' p)"
proof -
  have "free_cnt fr' (A - {p}) = free_cnt fr (A - {p})" unfolding free_cnt_def using assms(3) by (intro sum.cong) auto
  then show ?thesis using assms(1,2) by (simp add: free_cnt_def sum.remove)
qed

lemma class_take:
  assumes ok: "class_ok s g (fr, n, pages) out" and ne: "fr \<noteq> []"
  shows "\<exists>p x fr'. get_free_obj_from_slot_page fr = Some (p, x, fr') \<and> x \<noteq> 0 \<and> p \<in> set pages \<and>
    class_ok s g (fr', n - 1, pages) (out(p := add_mset x (out p)))"
proof -
  obtain p l rest where fr: "fr = (p, l) # rest" using ne by (cases fr) auto
  have "l \<noteq> []" using ok fr by (auto simp: class_ok_def)
  then obtain x r where l: "l = x # r" by (cases l) auto
  define fr' where "fr' = (if r = [] then rest else (p, r) # rest)"
  have o: "objs_of fr p = x # r" using fr l by (simp add: objs_of_def)
  have p: "p \<in> set pages" using ok o by (auto simp: class_ok_def)
  have "map_of rest p = None" using ok fr by (auto simp: class_ok_def map_of_eq_None_iff)
  then have o': "objs_of fr' q = (if q = p then r else objs_of fr q)" for q
    using fr l by (simp add: objs_of_def fr'_def)
  have page: "mset (objs_of fr p) + out p = mset (splits s g p)" using ok p by (auto simp: class_ok_def)
  then have "x \<in> set (splits s g p)" using o by (metis list.set_intros(1) mset_eq_setD mset_append set_mset_mset set_mset_union UnI1)
  then have "x \<noteq> 0" using splits_ge [of x s g p] ok p by (auto simp: class_ok_def)
  have "free_cnt fr (set pages) = Suc (free_cnt fr' (set pages))"
    using free_cnt_update [of "set pages" p fr' fr] p o o' by simp
  then have "class_ok s g (fr', n - 1, pages) (out(p := add_mset x (out p)))"
    using ok page p o o' fr l by (auto simp: class_ok_def fr'_def)
  then show ?thesis
    using fr l p \<open>x \<noteq> 0\<close> by (auto simp: get_free_obj_from_slot_page_def fr'_def)
qed

text \<open>Giving an object back; the page that is released has no object in the hands of a caller.\<close>

lemma class_add:
  assumes ok: "class_ok s g (fr, n, pages) out" and x: "x \<in># out p"
  shows "class_ok s g (add_obj p x fr, n + 1, pages) (out(p := out p - {#x#}))" "p \<in> set pages"
proof -
  show p: "p \<in> set pages" using ok x by (auto simp: class_ok_def)
  have d: "distinct (map fst (add_obj p x fr))" using ok by (auto simp: class_ok_def add_obj_def distinct_update)
  have "free_cnt (add_obj p x fr) (set pages) = Suc (free_cnt fr (set pages))"
    using free_cnt_update [of "set pages" p "add_obj p x fr" fr] p by simp
  moreover have "[] \<notin> snd ` set (add_obj p x fr)"
  proof
    assume "[] \<in> snd ` set (add_obj p x fr)"
    then obtain q where "(q, []) \<in> set (add_obj p x fr)" by auto
    then have "map_of (add_obj p x fr) q = Some []" using d by simp
    then have "map_of fr q = Some []" by (auto simp: add_obj_def update_conv' split: if_splits)
    then show False using ok by (auto simp: class_ok_def image_iff dest!: map_of_SomeD)
  qed
  moreover have "x \<in># mset (splits s g p)"
    using ok p x by (auto simp: class_ok_def simp del: set_mset_mset) (metis union_iff)
  ultimately show "class_ok s g (add_obj p x fr, n + 1, pages) (out(p := out p - {#x#}))"
    using ok p x d by (auto simp: class_ok_def insert_DiffM)
qed

lemma set_AList_delete: "set (AList.delete k xs) = {x \<in> set xs. fst x \<noteq> k}"
  by (auto simp: AList.delete_eq)

lemma class_release:
  assumes ok: "class_ok s g (fr, n, pages) out" and q: "q \<in> set pages" "length (objs_of fr q) = g div s" "out q = {#}"
  shows "class_ok s g (AList.delete q fr, n - word_of_nat (g div s), removeAll q pages) out"
proof -
  have "free_cnt fr (set pages) = g div s + free_cnt fr (set pages - {q})"
    using q by (simp add: free_cnt_def sum.remove)
  moreover have "free_cnt (AList.delete q fr) (set pages - {q}) = free_cnt fr (set pages - {q})"
    unfolding free_cnt_def by (intro sum.cong) auto
  moreover have "n = word_of_nat (free_cnt fr (set pages))" using ok q(1) by (auto simp: class_ok_def)
  ultimately have "n - word_of_nat (g div s) = word_of_nat (free_cnt (AList.delete q fr) (set pages - {q}))"
    by simp
  then show ?thesis using ok q(3)
    by (auto simp: class_ok_def distinct_delete set_AList_delete distinct_removeAll)
qed

lemma class_put:
  assumes ok: "class_ok s g (fr, n, pages) out" and x: "x \<in># out p" and c: "unat c = g div s"
    and hp: "set pages \<subseteq> fst ` set hp"
  shows "\<exists>fl fr' n' pages' hp'. put_obj r c x p (fr, n, pages) hp = Some (fl, (fr', n', pages'), hp') \<and>
    class_ok s g (fr', n', pages') (out(p := out p - {#x#})) \<and>
    (pages' = pages \<and> hp' = hp \<or> (\<exists>q \<in> set pages. pages' = removeAll q pages \<and> hp' = AList.delete q hp))"
proof -
  let ?fr = "add_obj p x fr" and ?out = "out(p := out p - {#x#})"
  note add = class_add [OF ok x]
  show ?thesis
  proof (cases "r + c \<le> n + 1 \<and> find (\<lambda>y. length (snd y) = unat c) ?fr \<noteq> None")
    case False
    then have "put_obj r c x p (fr, n, pages) hp = Some (False, (?fr, n + 1, pages), hp)"
      by (auto simp: put_obj_def Let_def split: option.splits)
    then show ?thesis using add(1) by blast
  next
    case True
    then obtain q l where f: "find (\<lambda>y. length (snd y) = unat c) ?fr = Some (q, l)" by auto
    then have l: "length l = g div s" "(q, l) \<in> set ?fr" using c by (auto simp: find_Some_iff) (metis nth_mem snd_conv)+
    then have o: "objs_of ?fr q = l" "l \<noteq> []" using add(1) by (force simp: class_ok_def objs_of_def)+
    then have q: "q \<in> set pages" using add(1) by (auto simp: class_ok_def)
    have "mset l + ?out q = mset (splits s g q)" using add(1) o q by (auto simp: class_ok_def)
    then have "size (?out q) = 0" using l(1) length_splits [of s g q] by (metis add_cancel_right_right size_mset size_union)
    then have out: "?out q = {#}" by simp
    have "word_of_nat (g div s) = c" by (simp flip: c)
    then have del: "class_ok s g (AList.delete q ?fr, n + 1 - c, removeAll q pages) ?out"
      using class_release [OF add(1) q _ out] o(1) l(1) by (simp del: fun_upd_apply)
    have "put_obj r c x p (fr, n, pages) hp = Some (True, (AList.delete q ?fr, n + 1 - c, removeAll q pages), AList.delete q hp)"
      using True f q hp by (auto simp: put_obj_def Let_def mem_free_def)
    then show ?thesis using del q by blast
  qed
qed

end
