(* ===== verification/MemPoolClasses.thy ===== *)
theory MemPoolClasses
  imports MemPoolLaws
begin

text \<open>
  The tiny, the small and the big objects of the pool as one family of classes: Get and Put act on the
  class of the request or of the object in the same way, and leave the others alone.
\<close>

subsection \<open>Classes of the pool\<close>

text \<open>A class is a type and a slot size.  The pool has system pages of 4096 bytes.\<close>

type_synonym class_key = "MemObjectType \<times> u32"

definition valid_key :: "class_key \<Rightarrow> bool" where
  "valid_key k = (case fst k of
      Tiny \<Rightarrow> snd k = 16
    | Small \<Rightarrow> 0 < snd k \<and> snd k \<le> 4096 \<and> unat (snd k) mod 32 = 0
    | Big \<Rightarrow> 0 < snd k \<and> snd k \<le> 131072 \<and> unat (snd k) mod 4096 = 0
    | Bulk \<Rightarrow> False)"

definition page_size :: "class_key \<Rightarrow> u32" where
  "page_size k = (if fst k = Tiny then 4096 else gen_expand_slot_page_size (snd k) 32 4096)"

definition slot_no :: "class_key \<Rightarrow> u32" where
  "slot_no k = snd k div (if fst k = Big then 4096 else 32)"

definition cls :: "MemPool \<Rightarrow> class_key \<Rightarrow> page_objs \<times> u32 \<times> addr list" where
  "cls P k =
    (if fst k = Tiny then (m_free_tiny_objs P, m_free_tiny_objs_cnt P, m_tiny_obj_pages P)
     else case map_of (fst (slot_books (fst k) P)) (slot_no k) of
         None \<Rightarrow> ([], 0, [])
       | Some sp \<Rightarrow> (sp_objs sp, sp_cnt sp, slot_pages (slot_no k) (snd (slot_books (fst k) P))))"

definition set_cls :: "class_key \<Rightarrow> page_objs \<times> u32 \<times> addr list \<Rightarrow> MemPool \<Rightarrow> MemPool" where
  "set_cls k c P = (case c of (fr, n, pages) \<Rightarrow>
     if fst k = Tiny then P\<lparr>m_tiny_obj_pages := pages, m_free_tiny_objs := fr, m_free_tiny_objs_cnt := n\<rparr>
     else set_slot (fst k) (slot_no k) \<lparr>sp_objs = fr, sp_cnt = n\<rparr> pages P)"

definition pool_conf :: "MemPool \<Rightarrow> bool" where
  "pool_conf P \<longleftrightarrow> m_sys_page_size P = 4096 \<and> m_small_obj_slot_footstep_size P = 32 \<and>
     m_small_obj_slot_footstep_exponent P = 5 \<and> m_big_obj_slot_footstep_exponent P = 12 \<and>
     m_tiny_obj_threshold P = 16 \<and> m_big_obj_threshold P = 4096 \<and> m_bulk_obj_threshold P = 131072 \<and>
     m_expand_obj_cnt_factor P = 32 \<and>
     map fst (m_free_small_objs P) = slots 128 \<and> map fst (m_small_obj_pages P) = slots 128 \<and>
     map fst (m_free_big_objs P) = slots 32 \<and> map fst (m_big_obj_pages P) = slots 32 \<and> m_bulk_obj_pages P = []"

lemma set_slots: "set (slots n) = {i. 1 \<le> i \<and> i \<le> n}"
proof -
  have "i \<in> word_of_nat ` {1..<Suc (unat n)} \<longleftrightarrow> 1 \<le> i \<and> i \<le> n" for i :: u32
  proof
    assume "i \<in> word_of_nat ` {1..<Suc (unat n)}"
    then obtain j where j: "i = word_of_nat j" "1 \<le> j" "j \<le> unat n" by auto
    then have "unat i = j" using unsigned_less [of n, where 'a = nat] by (simp add: unat_of_nat)
    then show "1 \<le> i \<and> i \<le> n" using j by (simp add: word_le_nat_alt)
  next
    assume "1 \<le> i \<and> i \<le> n"
    then show "i \<in> word_of_nat ` {1..<Suc (unat n)}"
      by (intro image_eqI [of _ _ "unat i"]) (auto simp: word_le_nat_alt)
  qed
  then show ?thesis unfolding slots_def set_map set_upt by blast
qed

lemma slot_no_range:
  assumes "valid_key (t, s)"
  shows "t = Small \<Longrightarrow> slot_no (t, s) \<in> set (slots 128)" "t = Big \<Longrightarrow> slot_no (t, s) \<in> set (slots 32)"
proof -
  show "slot_no (t, s) \<in> set (slots 128)" if "t = Small"
    using assms that by (auto simp: valid_key_def slot_no_def set_slots word_le_nat_alt word_less_nat_alt unat_div dvd_imp_le)
  show "slot_no (t, s) \<in> set (slots 32)" if "t = Big"
    using assms that by (auto simp: valid_key_def slot_no_def set_slots word_le_nat_alt word_less_nat_alt unat_div dvd_imp_le)
qed

lemma slot_no_inj:
  assumes "valid_key (t, s)" "valid_key (t, s')" "slot_no (t, s) = slot_no (t, s')" 
  shows "s = s'"
proof -
  have "unat s = unat s'" if "unat s mod n = 0" "unat s' mod n = 0" "unat s div n = unat s' div n" for n
    using that by (metis div_mult_mod_eq)
  then show ?thesis using assms
    by (cases t) (auto simp: valid_key_def slot_no_def unat_div word_unat_eq_iff)
qed

lemma map_of_keys_Some: "map fst xs = ks \<Longrightarrow> k \<in> set ks \<Longrightarrow> \<exists>v. map_of xs k = Some v"
  by (metis map_of_eq_None_iff list.set_map not_Some_eq)

lemma slot_found:
  "map fst (xs :: (u32 \<times> SlotObjPage) list) = ks \<Longrightarrow> k \<in> set ks \<Longrightarrow> \<exists>fr n. map_of xs k = Some \<lparr>sp_objs = fr, sp_cnt = n\<rparr>"
  by (metis map_of_keys_Some SlotObjPage.surjective old.unit.exhaust)

lemma cls_set_cls:
  assumes "pool_conf P" "valid_key k" "valid_key k'"
  shows "cls (set_cls k c P) k' = (if k' = k then c else cls P k')"
proof -
  obtain fr n pages where c: "c = (fr, n, pages)" by (cases c) auto
  obtain t s t' s' where k: "k = (t, s)" "k' = (t', s')" by (cases k, cases k') auto
  have "t \<noteq> Bulk" "t' \<noteq> Bulk" using assms(2,3) k by (auto simp: valid_key_def)
  moreover have "s = s' \<longleftrightarrow> slot_no (t, s) = slot_no (t, s')" if "t = t'"
    using slot_no_inj [of t s s'] assms(2,3) k that by auto
  moreover have "t = Tiny \<Longrightarrow> s = 16" "t' = Tiny \<Longrightarrow> s' = 16" using assms(2,3) k by (auto simp: valid_key_def)
  ultimately show ?thesis
    unfolding k c by (cases t; cases t') (auto simp: cls_def set_cls_def slot_books_def set_slot_def slot_pages_def update_conv' split: option.splits)
qed

lemma pool_conf_set_cls:
  assumes "pool_conf P" "valid_key k"
  shows "pool_conf (set_cls k c P)"
proof -
  obtain t s where k: "k = (t, s)" by (cases k)
  then show ?thesis using assms slot_no_range [of t s] k
    by (cases t) (auto simp: pool_conf_def set_cls_def set_slot_def update_keys valid_key_def split: prod.splits)
qed

subsection \<open>The operations, class by class\<close>

text \<open>The size the pages of a class have, without overflow.\<close>

lemma unat_mult_lt: "unat a * unat b < 2 ^ 32 \<Longrightarrow> unat (a * b) = unat a * unat (b :: u32)"
  by (simp add: unat_word_ariths)

lemma page_size_unat:
  assumes "valid_key k"
  shows "unat (snd k) * 32 \<le> unat (page_size k) \<or> fst k = Tiny" "snd k \<noteq> 0" "snd k \<le> page_size k"
proof -
  obtain t s where k: "k = (t, s)" by (cases k)
  have s: "t \<noteq> Tiny \<Longrightarrow> unat s \<le> 131072" "s \<noteq> 0" "t = Tiny \<Longrightarrow> s = 16"
    using assms k by (cases t; auto simp: valid_key_def word_le_nat_alt)+
  have big: "unat s * 32 \<le> unat (gen_expand_slot_page_size s 32 4096)" if le: "unat s \<le> 131072"
  proof -
    have e: "unat (s * 32) = unat s * 32" using le unat_mult_lt [of s 32] by simp
    define c where "c = (if s * 32 mod 4096 \<noteq> 0 then s * 32 div 4096 + 1 else s * 32 div 4096)"
    have q: "unat (s * 32 div 4096) = unat s * 32 div 4096" "unat (s * 32 mod 4096) = unat s * 32 mod 4096"
      by (simp_all add: unat_div unat_mod e)
    have "unat s * 32 div 4096 \<le> 1024" using le div_le_mono [of "unat s * 32" "1024 * 4096" 4096] by simp
    then have "unat (s * 32 div 4096 + 1) = unat s * 32 div 4096 + 1" by (simp only: q unat_word_ariths) simp
    moreover have z: "s * 32 mod 4096 = 0 \<longleftrightarrow> unat s * 32 mod 4096 = 0"
      unfolding q(2) [symmetric] by (simp only: unat_eq_zero)
    ultimately have c: "unat c = (if unat s * 32 mod 4096 \<noteq> 0 then unat s * 32 div 4096 + 1 else unat s * 32 div 4096)"
      unfolding c_def using q(1) by (simp only: z if_distrib [of unat])
    with \<open>unat s * 32 div 4096 \<le> 1024\<close> have "unat c \<le> 1025" by auto
    then have "unat (c * 4096) = unat c * 4096" using unat_mult_lt [of c 4096] by simp
    moreover have "gen_expand_slot_page_size s 32 4096 = c * 4096"
      by (simp add: gen_expand_slot_page_size_def c_def Let_def)
    moreover have "unat s * 32 \<le> unat c * 4096" unfolding c
      using div_mult_mod_eq [of "unat s * 32" 4096] mod_less_divisor [of 4096 "unat s * 32"] by auto
    ultimately show ?thesis by simp
  qed
  show "unat (snd k) * 32 \<le> unat (page_size k) \<or> fst k = Tiny" "snd k \<noteq> 0" using s big k by (auto simp: page_size_def)
  then show "snd k \<le> page_size k" using s k by (auto simp: page_size_def word_le_nat_alt)
qed

definition refill :: "aligned_alloc \<Rightarrow> class_key \<Rightarrow> page_objs \<times> u32 \<times> addr list \<Rightarrow> blocks \<Rightarrow> ((page_objs \<times> u32 \<times> addr list) \<times> blocks) option" where
  "refill ma k = (\<lambda>(fr, n, pages) hp.
     if fr = [] then map_option (\<lambda>(ok, ps, fr, hp). ((fr, if ok then page_size k div snd k else n, ps), hp))
       (alloc_page_objs ma (page_size k) (snd k) pages fr hp)
     else Some ((fr, n, pages), hp))"

definition class_Get :: "aligned_alloc \<Rightarrow> class_key \<Rightarrow> MemPool \<Rightarrow> blocks \<Rightarrow> (MemObject option \<times> MemPool \<times> blocks) option" where
  "class_Get ma k P hp =
    (case refill ma k (cls P k) hp of
       None \<Rightarrow> None
     | Some ((fr, n, pages), hp) \<Rightarrow>
         (case get_free_obj_from_slot_page fr of
            None \<Rightarrow> None
          | Some (p, x, fr) \<Rightarrow>
              if x = 0 then Some (None, set_cls k (fr, n, pages) P, hp)
              else let (mo, P) = get_mem_object (fst k) (snd k) x p (set_cls k (fr, n - 1, pages) P)
                   in Some (Some mo, P, hp)))"

definition key_for :: "u32 \<Rightarrow> class_key" where
  "key_for sz = (if sz \<le> 16 then (Tiny, 16) else if sz \<le> 4096 then (Small, roundup sz 5) else (Big, roundup sz 12))"

lemma key_for_valid:
  assumes "0 < sz" "sz \<le> 131072"
  shows "valid_key (key_for sz)" "sz \<le> snd (key_for sz)"
proof -
  have pos: "unat sz \<noteq> 0" using assms(1) by (metis unat_gt_0 less_not_refl word_gt_0 neq0_conv)
  have small: "0 < roundup sz 5" "roundup sz 5 \<le> 4096" "unat (roundup sz 5) mod 32 = 0" "sz \<le> roundup sz 5"
    if "sz \<le> 4096"
    using roundup_above [of 5 4096 sz] that pos by (auto simp: word_le_nat_alt word_less_nat_alt mod_eq_0_iff_dvd)
  have big: "0 < roundup sz 12" "roundup sz 12 \<le> 131072" "unat (roundup sz 12) mod 4096 = 0" "sz \<le> roundup sz 12"
    using roundup_above [of 12 131072 sz] assms(2) pos by (auto simp: word_le_nat_alt word_less_nat_alt mod_eq_0_iff_dvd)
  show "valid_key (key_for sz)" "sz \<le> snd (key_for sz)"
    using small big by (auto simp: key_for_def valid_key_def not_le)
qed

lemma Get_tiny_class:
  assumes "pool_conf P"
  shows "Get_tiny ma P hp = class_Get ma (Tiny, 16) P hp"
  using assms
  by (cases "alloc_page_objs ma 4096 16 (m_tiny_obj_pages P) (m_free_tiny_objs P) hp")
    (auto simp: Get_tiny_def class_Get_def refill_def cls_def set_cls_def page_size_def pool_conf_def Let_def split_beta
      split: option.splits)

lemma cls_found:
  assumes "pool_conf P" "valid_key (t, s)" "t \<noteq> Tiny"
  shows "\<exists>fr n. map_of (fst (slot_books t P)) (slot_no (t, s)) = Some \<lparr>sp_objs = fr, sp_cnt = n\<rparr>"
proof (cases "t = Big")
  case True
  then show ?thesis using assms slot_no_range(2) [of t s] slot_found [of "m_free_big_objs P" "slots 32"]
    by (simp add: pool_conf_def slot_books_def)
next
  case False
  then have "t = Small" using assms by (cases t) (auto simp: valid_key_def)
  then show ?thesis using assms slot_no_range(1) [of t s] slot_found [of "m_free_small_objs P" "slots 128"]
    by (simp add: pool_conf_def slot_books_def)
qed

lemmas class_defs = cls_def set_cls_def page_size_def slot_books_def convert_slot_obj_size_to_slot_idx_def slot_no_def

lemma Get_slot_class:
  assumes "pool_conf P" "16 < sz" "sz \<le> 131072"
  shows "Get_slot ma sz P hp = class_Get ma (key_for sz) P hp"
proof -
  have pos: "0 < sz" using assms(2) by (metis word_gt_0 word_not_simps(1))
  have v: "valid_key (key_for sz)" using key_for_valid(1) [OF pos assms(3)] .
  show ?thesis
  proof (cases "4096 < sz")
    case True
    then have k: "key_for sz = (Big, roundup sz 12)" using assms by (auto simp: key_for_def)
    obtain fr n where "map_of (m_free_big_objs P) (roundup sz 12 div 4096) = Some \<lparr>sp_objs = fr, sp_cnt = n\<rparr>"
      using cls_found [OF assms(1) v [unfolded k]] by (auto simp: slot_books_def slot_no_def)
    then show ?thesis using True assms(1) unfolding k
      by (simp add: Get_slot_def class_Get_def refill_def class_defs pool_conf_def Let_def split_beta split: option.splits)
  next
    case False
    then have k: "key_for sz = (Small, roundup sz 5)" using assms by (auto simp: key_for_def)
    obtain fr n where "map_of (m_free_small_objs P) (roundup sz 5 div 32) = Some \<lparr>sp_objs = fr, sp_cnt = n\<rparr>"
      using cls_found [OF assms(1) v [unfolded k]] by (auto simp: slot_books_def slot_no_def)
    then show ?thesis using False assms(1) unfolding k
      by (simp add: Get_slot_def class_Get_def refill_def class_defs pool_conf_def Let_def split_beta split: option.splits)
  qed
qed

lemma MemPool_Get_class:
  assumes "pool_conf P" "0 < sz" "sz \<le> 131072"
  shows "MemPool_Get ma sz P hp = class_Get ma (key_for sz) P hp"
  using assms Get_tiny_class [OF assms(1)] Get_slot_class [OF assms(1) _ assms(3)]
  by (auto simp: MemPool_Get_def pool_conf_def key_for_def not_le)

definition resident :: "MemPool \<Rightarrow> class_key \<Rightarrow> u32" where
  "resident P k = (case fst k of Tiny \<Rightarrow> m_one_slot_tiny_obj_resident_cnts P | Big \<Rightarrow> m_one_slot_big_obj_resident_cnts P
     | _ \<Rightarrow> m_one_slot_small_obj_resident_cnts P)"

lemma MemPool_put_class:
  assumes "pool_conf P" "valid_key (t, s)"
  shows "MemPool_put t s x p P hp =
    map_option (\<lambda>(_, c, hp). (set_cls (t, s) c P, hp)) (put_obj (resident P (t, s)) (page_size (t, s) div s) x p (cls P (t, s)) hp)"
proof (cases "t = Tiny")
  case True
  then have "s = 16" using assms(2) by (simp add: valid_key_def)
  then show ?thesis using True assms(1)
    by (auto simp: MemPool_put_def put_tiny_def resident_def class_defs pool_conf_def intro!: map_option_cong)
next
  case False
  obtain fr n where f: "map_of (fst (slot_books t P)) (slot_no (t, s)) = Some \<lparr>sp_objs = fr, sp_cnt = n\<rparr>"
    using cls_found [OF assms False] by blast
  have s: "s \<noteq> 0" using page_size_unat(2) [OF assms(2)] by simp
  have "t = Small \<or> t = Big" using False assms(2) by (cases t) (auto simp: valid_key_def)
  then show ?thesis
  proof
    assume "t = Small"
    then show ?thesis using f s assms(1)
      by (simp add: MemPool_put_def put_slot_def resident_def class_defs pool_conf_def Let_def) (auto intro!: map_option_cong)
  next
    assume "t = Big"
    then show ?thesis using f s assms(1)
      by (simp add: MemPool_put_def put_slot_def resident_def class_defs pool_conf_def Let_def) (auto intro!: map_option_cong)
  qed
qed

end
