(* ===== verification/MemPoolInv.thy ===== *)
theory MemPoolInv
  imports MemPoolClasses
begin

text \<open>
  The invariant of the whole pool, for requests up to the threshold of the bulk objects: the pages of
  the classes are live blocks of their own, and every operation keeps the books of its class.
\<close>

subsection \<open>Heap\<close>

text \<open>Live blocks do not overlap and none is at the null address; this is what malloc promises.\<close>

definition heap_ok :: "blocks \<Rightarrow> bool" where
  "heap_ok hp \<longleftrightarrow> distinct (map fst hp) \<and> 0 \<notin> fst ` set hp \<and>
     (\<forall>b \<in> set hp. \<forall>b' \<in> set hp. fst b \<noteq> fst b' \<longrightarrow> fst b + snd b \<le> fst b' \<or> fst b' + snd b' \<le> fst b)"

definition alloc_ok :: "aligned_alloc \<Rightarrow> bool" where
  "alloc_ok ma \<longleftrightarrow> (\<forall>hp n p. heap_ok hp \<longrightarrow> 0 < n \<longrightarrow> ma hp n = Some p \<longrightarrow> heap_ok ((p, n) # hp))"

definition page_change :: "nat \<Rightarrow> addr set \<Rightarrow> blocks \<Rightarrow> addr set \<Rightarrow> blocks \<Rightarrow> bool" where
  "page_change g A hp A' hp' \<longleftrightarrow>
     A' = A \<and> hp' = hp \<or>
     (\<exists>p. A' = insert p A \<and> hp' = (p, g) # hp \<and> heap_ok hp') \<or>
     (\<exists>q \<in> A. A' = A - {q} \<and> hp' = AList.delete q hp)"

lemma heap_ok_delete: "heap_ok hp \<Longrightarrow> heap_ok (AList.delete q hp)"
  by (auto simp: heap_ok_def set_AList_delete distinct_delete)

lemma page_change_heap: "heap_ok hp \<Longrightarrow> page_change g A hp A' hp' \<Longrightarrow> heap_ok hp'"
  by (auto simp: page_change_def heap_ok_delete)

subsection \<open>Invariant\<close>

text \<open>
  \<open>ms\<close> are the objects in the hands of the callers and \<open>hp0\<close> the blocks that were live before the pool
  was made.  The page table has every page with its class.
\<close>

definition key_of :: "MemObject \<Rightarrow> class_key" where
  "key_of m = (m_type m, m_slot_size m)"

definition outs :: "MemObject multiset \<Rightarrow> class_key \<Rightarrow> addr \<Rightarrow> addr multiset" where
  "outs ms k p = image_mset m_obj_pv (filter_mset (\<lambda>m. key_of m = k \<and> m_obj_page_pv m = p) ms)"

definition pages :: "MemPool \<Rightarrow> class_key \<Rightarrow> addr set" where
  "pages P k = set (snd (snd (cls P k)))"

definition page_table :: "MemPool \<Rightarrow> (addr \<times> class_key) set" where
  "page_table P = {(p, k). valid_key k \<and> p \<in> pages P k}"

definition pool_ok :: "blocks \<Rightarrow> MemPool \<Rightarrow> blocks \<Rightarrow> MemObject multiset \<Rightarrow> bool" where
  "pool_ok hp0 P hp ms \<longleftrightarrow> pool_conf P \<and> heap_ok hp \<and> (\<forall>m \<in># ms. valid_key (key_of m)) \<and>
     (\<forall>k. valid_key k \<longrightarrow> class_ok (unat (snd k)) (unat (page_size k)) (cls P k) (outs ms k)) \<and>
     single_valued (page_table P) \<and> fst ` page_table P \<inter> fst ` set hp0 = {} \<and>
     set hp = set hp0 \<union> (\<lambda>(p, k). (p, unat (page_size k))) ` page_table P"

lemma page_table_change:
  assumes v: "valid_key k" and cls: "\<And>k'. valid_key k' \<Longrightarrow> cls P' k' = (if k' = k then c else cls P k')"
    and "A' = set (snd (snd c))"
  shows "page_table P' = {(p, k') \<in> page_table P. k' \<noteq> k} \<union> A' \<times> {k}"
  using v cls assms(3) by (auto simp: page_table_def pages_def split: if_splits)

lemma image_filter: "(\<And>y. P (F y) \<longleftrightarrow> Q y) \<Longrightarrow> {x \<in> F ` T. P x} = F ` {y \<in> T. Q y}"
  by blast

lemma page_change_table:
  fixes T :: "(addr \<times> 'k) set" and f :: "'k \<Rightarrow> nat"
  assumes ch: "page_change g {p. (p, k) \<in> T} hp A' hp'" and sv: "single_valued T" and hp: "heap_ok hp"
    and dj: "fst ` T \<inter> fst ` set hp0 = {}" and eq: "set hp = set hp0 \<union> (\<lambda>(p, k). (p, f k)) ` T"
    and g: "g = f k" and T': "T' = {(p, k') \<in> T. k' \<noteq> k} \<union> A' \<times> {k}"
  shows "single_valued T' \<and> fst ` T' \<inter> fst ` set hp0 = {} \<and> set hp' = set hp0 \<union> (\<lambda>(p, k). (p, f k)) ` T'"
  using ch unfolding page_change_def
proof (elim disjE exE bexE conjE)
  assume a: "A' = {p. (p, k) \<in> T}" "hp' = hp"
  then have "T' = T" using T' by auto
  then show ?thesis using sv dj eq a by simp
next
  fix p assume a: "A' = insert p {p. (p, k) \<in> T}" "hp' = (p, g) # hp" "heap_ok hp'"
  then have t: "T' = insert (p, k) T" using T' by auto
  have "p \<notin> fst ` set hp" using a(2,3) by (simp add: heap_ok_def)
  then have "p \<notin> fst ` T" "p \<notin> fst ` set hp0" using eq by (force simp: image_iff)+
  then show ?thesis using sv dj eq a(2) g unfolding t by (auto simp: single_valued_def image_iff)
next
  fix q assume a: "q \<in> {p. (p, k) \<in> T}" "A' = {p. (p, k) \<in> T} - {q}" "hp' = AList.delete q hp"
  then have t: "T' = T - {(q, k)}" using T' by auto
  have T1: "T - {(q, k)} = {y \<in> T. fst y \<noteq> q}"
  proof (intro set_eqI)
    fix y show "y \<in> T - {(q, k)} \<longleftrightarrow> y \<in> {y \<in> T. fst y \<noteq> q}"
      using single_valuedD [OF sv, of q k "snd y"] a(1) by (cases y) auto
  qed
  have q: "q \<notin> fst ` set hp0" using dj a(1) by force
  have "{x \<in> set hp0. fst x \<noteq> q} = set hp0" using q by auto
  moreover have "{x \<in> (\<lambda>(p, k). (p, f k)) ` T. fst x \<noteq> q} = (\<lambda>(p, k). (p, f k)) ` (T - {(q, k)})"
    unfolding T1 by (rule image_filter) (simp add: split_beta)
  ultimately have "{x \<in> set hp. fst x \<noteq> q} = set hp0 \<union> (\<lambda>(p, k). (p, f k)) ` (T - {(q, k)})"
    unfolding eq by blast
  then have "set hp' = set hp0 \<union> (\<lambda>(p, k). (p, f k)) ` T'"
    unfolding a(3) t set_AList_delete .
  then show ?thesis using sv dj unfolding t by (auto simp: single_valued_def)
qed

lemma pool_class: "pool_ok hp0 P hp ms \<Longrightarrow> valid_key k \<Longrightarrow> class_ok (unat (snd k)) (unat (page_size k)) (cls P k) (outs ms k)"
  unfolding pool_ok_def by blast

lemma pool_change:
  assumes ok: "pool_ok hp0 P hp ms" and v: "valid_key k" and conf: "pool_conf P'"
    and cls: "\<And>k'. valid_key k' \<Longrightarrow> cls P' k' = (if k' = k then c else cls P k')"
    and c: "class_ok (unat (snd k)) (unat (page_size k)) c (outs ms' k)"
    and out: "\<And>k'. k' \<noteq> k \<Longrightarrow> outs ms' k' = outs ms k'" "\<forall>m \<in># ms'. valid_key (key_of m)"
    and ch: "page_change (unat (page_size k)) (pages P k) hp (set (snd (snd c))) hp'"
  shows "pool_ok hp0 P' hp' ms'"
proof -
  have "{p. (p, k) \<in> page_table P} = pages P k" using v by (simp add: page_table_def)
  then have ch': "page_change (unat (page_size k)) {p. (p, k) \<in> page_table P} hp (set (snd (snd c))) hp'" using ch by simp
  have inv: "single_valued (page_table P)" "heap_ok hp" "fst ` page_table P \<inter> fst ` set hp0 = {}"
      "set hp = set hp0 \<union> (\<lambda>(p, k). (p, unat (page_size k))) ` page_table P"
    using ok unfolding pool_ok_def by blast+
  have "single_valued (page_table P') \<and> fst ` page_table P' \<inter> fst ` set hp0 = {} \<and>
      set hp' = set hp0 \<union> (\<lambda>(p, k). (p, unat (page_size k))) ` page_table P'"
    by (rule page_change_table [where f = "\<lambda>k. unat (page_size k)", OF ch' inv refl page_table_change [OF v cls refl]])
  moreover have "heap_ok hp'" by (rule page_change_heap [OF inv(2) ch])
  moreover have "class_ok (unat (snd k')) (unat (page_size k')) (cls P' k') (outs ms' k')" if "valid_key k'" for k'
    using pool_class [OF ok that] cls [OF that] c out(1) [of k'] by (cases "k' = k") simp_all
  ultimately show ?thesis unfolding pool_ok_def using conf out(2) by blast
qed

lemma cls_free_mem_objs [simp]: "cls (P\<lparr>m_free_mem_objs := l\<rparr>) = cls P" "pool_conf (P\<lparr>m_free_mem_objs := l\<rparr>) = pool_conf P"
  by (auto simp: cls_def slot_books_def pool_conf_def fun_eq_iff split: option.splits)

lemma get_mem_object_cases:
  obtains l where "get_mem_object t s x p P =
    (\<lparr>m_type = t, m_slot_size = s, m_obj_pv = x, m_obj_page_pv = p\<rparr>, P\<lparr>m_free_mem_objs := l\<rparr>)"
proof (cases "m_free_mem_objs P")
  case Nil
  then have "P = P\<lparr>m_free_mem_objs := []\<rparr>" by simp
  then show ?thesis using that [of "[]"] Nil by (simp add: get_mem_object_def)
next
  case (Cons a l)
  then show ?thesis using that [of l] by (simp add: get_mem_object_def)
qed

lemma pages_live:
  assumes "pool_ok hp0 P hp ms" "valid_key k" "p \<in> pages P k"
  shows "(p, unat (page_size k)) \<in> set hp"
proof -
  have "(p, k) \<in> page_table P" using assms by (simp add: page_table_def)
  then show ?thesis using assms(1) by (force simp: pool_ok_def)
qed

text \<open>A class with free objects, after at most one call of the allocator.\<close>

lemma pool_refill:
  assumes ok: "pool_ok hp0 P hp ms" and v: "valid_key k" and ma: "alloc_ok ma"
  shows "\<exists>fr n ps hp'. refill ma k (cls P k) hp = Some ((fr, n, ps), hp') \<and>
    page_change (unat (page_size k)) (pages P k) hp (set ps) hp' \<and>
    class_ok (unat (snd k)) (unat (page_size k)) (fr, n, ps) (outs ms k) \<and>
    (fr = [] \<longrightarrow> ma hp (unat (page_size k)) = None)"
proof -
  obtain fr n ps where cls: "cls P k = (fr, n, ps)" by (cases "cls P k") auto
  have c: "class_ok (unat (snd k)) (unat (page_size k)) (fr, n, ps) (outs ms k)" using pool_class [OF ok v] cls by simp
  have same: "page_change (unat (page_size k)) (pages P k) hp (set ps) hp" using cls by (simp add: page_change_def pages_def)
  show ?thesis
  proof (cases "fr = []")
    case False
    then show ?thesis using c same cls by (simp add: refill_def)
  next
    case True
    note sz = page_size_unat(2,3) [OF v]
    show ?thesis
    proof (cases "ma hp (unat (page_size k))")
      case None
      then show ?thesis using c same cls True by (simp add: refill_def alloc_page_objs_def)
    next
      case (Some p)
      have "0 < unat (page_size k)" using sz by (metis unat_gt_0 word_gt_0 word_le_0_iff)
      then have h: "heap_ok ((p, unat (page_size k)) # hp)" using ma Some ok by (auto simp: alloc_ok_def pool_ok_def)
      then have "p \<noteq> 0" "p \<notin> set ps" using pages_live [OF ok v, of p] cls by (force simp: heap_ok_def pages_def)+
      then obtain fr' where "alloc_page_objs ma (page_size k) (snd k) ps [] hp =
            Some (True, p # ps, fr', (p, unat (page_size k)) # hp)" "fr' \<noteq> []"
          "class_ok (unat (snd k)) (unat (page_size k)) (fr', page_size k div snd k, p # ps) (outs ms k)"
        using class_alloc [of "snd k" "page_size k" n ps "outs ms k" ma hp p] sz Some c True by blast
      then show ?thesis using cls True h by (auto simp: refill_def page_change_def pages_def)
    qed
  qed
qed

lemma outs_add:
  "outs (add_mset m ms) k = (if key_of m = k then (outs ms k)(m_obj_page_pv m := add_mset (m_obj_pv m) (outs ms k (m_obj_page_pv m))) else outs ms k)"
  by (auto simp: outs_def fun_eq_iff)

lemma pool_Get:
  assumes ok: "pool_ok hp0 P hp ms" and sz: "0 < sz" "sz \<le> 131072" and ma: "alloc_ok ma"
  shows "\<exists>mo P' hp'. MemPool_Get ma sz P hp = Some (mo, P', hp') \<and>
    (case mo of
       None \<Rightarrow> ma hp (unat (page_size (key_for sz))) = None \<and> pool_ok hp0 P' hp' ms
     | Some m \<Rightarrow> key_of m = key_for sz \<and> pool_ok hp0 P' hp' (add_mset m ms))"
proof -
  let ?k = "key_for sz"
  have v: "valid_key ?k" and conf: "pool_conf P" using key_for_valid [OF sz] ok by (auto simp: pool_ok_def)
  obtain fr n ps hp' where r: "refill ma ?k (cls P ?k) hp = Some ((fr, n, ps), hp')"
      "page_change (unat (page_size ?k)) (pages P ?k) hp (set ps) hp'"
      "class_ok (unat (snd ?k)) (unat (page_size ?k)) (fr, n, ps) (outs ms ?k)"
      "fr = [] \<longrightarrow> ma hp (unat (page_size ?k)) = None"
    using pool_refill [OF ok v ma] by blast
  have val: "\<forall>m \<in># ms. valid_key (key_of m)" using ok by (auto simp: pool_ok_def)
  show ?thesis
  proof (cases "fr = []")
    case True
    have "pool_ok hp0 (set_cls ?k (fr, n, ps) P) hp' ms"
      using r(2,3) val
      by (intro pool_change [OF ok v, of _ "(fr, n, ps)"]) (simp_all add: pool_conf_set_cls conf v cls_set_cls)
    then show ?thesis using r True MemPool_Get_class [OF conf sz]
      by (simp add: class_Get_def get_free_obj_from_slot_page_def)
  next
    case False
    obtain p x fr' where t: "get_free_obj_from_slot_page fr = Some (p, x, fr')" "x \<noteq> 0" 
        "class_ok (unat (snd ?k)) (unat (page_size ?k)) (fr', n - 1, ps) ((outs ms ?k)(p := add_mset x (outs ms ?k p)))"
      using class_take [OF r(3) False] by blast
    let ?m = "\<lparr>m_type = fst ?k, m_slot_size = snd ?k, m_obj_pv = x, m_obj_page_pv = p\<rparr>"
    obtain l where l: "get_mem_object (fst ?k) (snd ?k) x p (set_cls ?k (fr', n - 1, ps) P) =
        (?m, (set_cls ?k (fr', n - 1, ps) P)\<lparr>m_free_mem_objs := l\<rparr>)"
      by (rule get_mem_object_cases)
    have "pool_ok hp0 ((set_cls ?k (fr', n - 1, ps) P)\<lparr>m_free_mem_objs := l\<rparr>) hp' (add_mset ?m ms)"
      using r(2) t(3) v val
      by (intro pool_change [OF ok v, of _ "(fr', n - 1, ps)"])
        (simp_all add: pool_conf_set_cls conf cls_set_cls outs_add key_of_def)
    then show ?thesis using r(1) t(1,2) l MemPool_Get_class [OF conf sz]
      by (simp add: class_Get_def key_of_def)
  qed
qed

lemma class_ok_empty: "class_ok s g ([], n, []) (outs {#} k)"
  by (simp add: class_ok_def outs_def)

lemma pool_Put:
  assumes ok: "pool_ok hp0 P hp ms" and m: "m \<in># ms"
  shows "\<exists>P' hp'. MemPool_Put (Some m) P hp = Some (P', hp') \<and> pool_ok hp0 P' hp' (ms - {#m#})"
proof -
  obtain ms' where ms: "ms = add_mset m ms'" using m by (metis insert_DiffM)
  let ?k = "key_of m" and ?x = "m_obj_pv m" and ?p = "m_obj_page_pv m"
  have v: "valid_key ?k" and conf: "pool_conf P" and val: "\<forall>m \<in># ms'. valid_key (key_of m)"
    using ok m unfolding pool_ok_def ms by auto
  obtain fr n ps where cls: "cls P ?k = (fr, n, ps)" by (cases "cls P ?k") auto
  have c: "class_ok (unat (snd ?k)) (unat (page_size ?k)) (fr, n, ps) (outs ms ?k)" using pool_class [OF ok v] cls by simp
  have x: "?x \<in># outs ms ?k ?p" by (simp add: ms outs_add)
  have live: "set ps \<subseteq> fst ` set hp" using pages_live [OF ok v] cls by (force simp: pages_def)
  obtain fl c' hp' where p: "put_obj (resident P ?k) (page_size ?k div snd ?k) ?x ?p (fr, n, ps) hp = Some (fl, c', hp')"
      "class_ok (unat (snd ?k)) (unat (page_size ?k)) c' ((outs ms ?k)(?p := outs ms ?k ?p - {#?x#}))"
      "page_change (unat (page_size ?k)) (pages P ?k) hp (set (snd (snd c'))) hp'"
    using class_put [OF c x _ live, of "page_size ?k div snd ?k" "resident P ?k"] cls
    by (fastforce simp: unat_div page_change_def pages_def)
  have out: "(outs ms ?k)(?p := outs ms ?k ?p - {#?x#}) = outs ms' ?k" by (auto simp: ms outs_add fun_eq_iff)
  have "pool_ok hp0 ((set_cls ?k c' P)\<lparr>m_free_mem_objs := l\<rparr>) hp' ms'" for l
    using p(2,3) val out
    by (intro pool_change [OF ok v, of _ c']) (simp_all add: pool_conf_set_cls conf v cls_set_cls ms outs_add)
  moreover have "MemPool_put (m_type m) (m_slot_size m) ?x ?p P hp = Some (set_cls ?k c' P, hp')"
    using MemPool_put_class [OF conf v [unfolded key_of_def]] p(1) cls by (simp add: key_of_def)
  ultimately show ?thesis by (simp add: MemPool_Put_def ms)
qed

lemma pool_init:
  assumes "heap_ok hp0"
  shows "pool_ok hp0 (MemPool_default 4096 nprocs u) hp0 {#}"
proof -
  let ?P = "MemPool_default 4096 nprocs u"
  have "pool_conf ?P"
    using ilog2_power [of 5] ilog2_power [of 12] by (simp add: pool_conf_def MemPool_default_def MemPool_ctor_def comp_def)
  moreover have cls: "class_ok s g (cls ?P k) (outs {#} k) \<and> pages ?P k = {}" for s g k
  proof -
    have "\<exists>n. cls ?P k = ([], n, [])"
      by (auto simp: cls_def MemPool_default_def MemPool_ctor_def slot_books_def slot_pages_def split: option.splits
        dest!: map_of_SomeD)
    then show ?thesis by (auto simp: class_ok_empty pages_def)
  qed
  moreover have "page_table ?P = {}" using cls by (simp add: page_table_def)
  ultimately show ?thesis using assms by (simp add: pool_ok_def)
qed

subsection \<open>Runs\<close>

text \<open>
  What can happen to a pool: a request for up to 131072 bytes, an object given back by the caller that
  holds it, and other code that allocates a block of its own or frees one.
\<close>

inductive pool_reach :: "aligned_alloc \<Rightarrow> blocks \<Rightarrow> MemPool \<Rightarrow> blocks \<Rightarrow> MemObject multiset \<Rightarrow> bool" for ma where
  start: "heap_ok hp0 \<Longrightarrow> pool_reach ma hp0 (MemPool_default 4096 nprocs u) hp0 {#}"
| get: "pool_reach ma hp0 P hp ms \<Longrightarrow> 0 < sz \<Longrightarrow> sz \<le> 131072 \<Longrightarrow> MemPool_Get ma sz P hp = Some (mo, P', hp') \<Longrightarrow>
    pool_reach ma hp0 P' hp' (case mo of None \<Rightarrow> ms | Some m \<Rightarrow> add_mset m ms)"
| put: "pool_reach ma hp0 P hp ms \<Longrightarrow> m \<in># ms \<Longrightarrow> MemPool_Put (Some m) P hp = Some (P', hp') \<Longrightarrow>
    pool_reach ma hp0 P' hp' (ms - {#m#})"
| other_alloc: "pool_reach ma hp0 P hp ms \<Longrightarrow> ma hp n = Some p \<Longrightarrow> 0 < n \<Longrightarrow>
    pool_reach ma ((p, n) # hp0) P ((p, n) # hp) ms"
| other_free: "pool_reach ma hp0 P hp ms \<Longrightarrow> b \<in> set hp0 \<Longrightarrow>
    pool_reach ma (AList.delete (fst b) hp0) P (AList.delete (fst b) hp) ms"

lemma pool_other_free:
  assumes ok: "pool_ok hp0 P hp ms" and b: "b \<in> set hp0"
  shows "pool_ok (AList.delete (fst b) hp0) P (AList.delete (fst b) hp) ms"
proof -
  let ?f = "\<lambda>(p, k). (p, unat (page_size k))"
  have inv: "heap_ok hp" "fst ` page_table P \<inter> fst ` set hp0 = {}" "set hp = set hp0 \<union> ?f ` page_table P"
    using ok unfolding pool_ok_def by blast+
  then have "fst b \<notin> fst ` page_table P" using b by blast
  then have "{x \<in> ?f ` page_table P. fst x \<noteq> fst b} = ?f ` page_table P" by (force simp: split_beta)
  then have "{x \<in> set hp. fst x \<noteq> fst b} = {x \<in> set hp0. fst x \<noteq> fst b} \<union> ?f ` page_table P" unfolding inv(3) by blast
  moreover have "fst ` page_table P \<inter> fst ` {x \<in> set hp0. fst x \<noteq> fst b} = {}" using inv(2) by blast
  ultimately show ?thesis
    using ok heap_ok_delete [OF inv(1), of "fst b"] unfolding pool_ok_def set_AList_delete
    by (elim conjE) (intro conjI; assumption)
qed

lemma pool_other_alloc:
  assumes ok: "pool_ok hp0 P hp ms" and h: "heap_ok ((p, n) # hp)"
  shows "pool_ok ((p, n) # hp0) P ((p, n) # hp) ms"
proof -
  let ?f = "\<lambda>(p, k). (p, unat (page_size k))"
  have inv: "fst ` page_table P \<inter> fst ` set hp0 = {}" "set hp = set hp0 \<union> ?f ` page_table P"
    using ok unfolding pool_ok_def by blast+
  have "p \<notin> fst ` set hp" using h by (simp add: heap_ok_def)
  moreover have "fst ` (?f ` page_table P) = fst ` page_table P" unfolding image_image by (simp add: split_beta)
  ultimately have "p \<notin> fst ` page_table P" unfolding inv(2) image_Un by blast
  then have "fst ` page_table P \<inter> fst ` set ((p, n) # hp0) = {}" using inv(1) by simp
  moreover have "set ((p, n) # hp) = set ((p, n) # hp0) \<union> ?f ` page_table P" unfolding list.set(2) inv(2) by (rule Un_insert_left [symmetric])
  ultimately show ?thesis using ok h unfolding pool_ok_def by (elim conjE) (intro conjI; assumption)
qed

lemma pool_reach_ok:
  assumes "pool_reach ma hp0 P hp ms" "alloc_ok ma"
  shows "pool_ok hp0 P hp ms"
  using assms
proof (induction rule: pool_reach.induct)
  case (start hp0 nprocs u)
  then show ?case by (simp add: pool_init)
next
  case (get hp0 P hp ms sz mo P' hp')
  then show ?case using pool_Get [of hp0 P hp ms sz ma] by (auto split: option.splits)
next
  case (put hp0 P hp ms m P' hp')
  then show ?case using pool_Put [of hp0 P hp ms m] by auto
next
  case (other_alloc hp0 P hp ms n p)
  then show ?case by (simp add: pool_other_alloc alloc_ok_def pool_ok_def [of hp0 P hp ms])
next
  case (other_free hp0 P hp ms b)
  then show ?case by (simp add: pool_other_free)
qed

end
