(* ===== verification/MemPoolUse.thy ===== *)
theory MemPoolUse
  imports MemPoolInv
begin

text \<open>
  What the invariant of the pool means for its users: objects in use lie inside live pages and do not
  overlap, and the pages in the books are exactly what the destructor has to free.
\<close>

subsection \<open>Objects in use\<close>

lemma distinct_splits: "0 < s \<Longrightarrow> distinct (splits s g p)"
  by (auto simp: splits_def distinct_map inj_on_def)

lemma splits_apart: "x \<in> set (splits s g p) \<Longrightarrow> y \<in> set (splits s g p) \<Longrightarrow> x \<noteq> y \<Longrightarrow> x + s \<le> y \<or> y + s \<le> x"
proof -
  assume "x \<in> set (splits s g p)" "y \<in> set (splits s g p)" "x \<noteq> y"
  then obtain i j where ij: "x = p + s * i" "y = p + s * j" "i \<noteq> j" unfolding splits_def set_map by blast
  have "s * i + s \<le> s * j" if "i < j" for i j using mult_le_mono2 [of "Suc i" j s] that by simp
  then show ?thesis using ij by (metis add.assoc add_le_cancel_left linorder_neqE_nat)
qed

lemma outs_sub:
  assumes ok: "pool_ok hp0 P hp ms" and v: "valid_key k"
  shows "outs ms k p \<subseteq># mset (splits (unat (snd k)) (unat (page_size k)) p)" "outs ms k p \<noteq> {#} \<Longrightarrow> p \<in> pages P k"
proof -
  obtain fr n ps where cls: "cls P k = (fr, n, ps)" by (cases "cls P k") auto
  then have c: "class_ok (unat (snd k)) (unat (page_size k)) (fr, n, ps) (outs ms k)" using pool_class [OF ok v] by simp
  then show "p \<in> pages P k" if "outs ms k p \<noteq> {#}" using that cls by (auto simp: class_ok_def pages_def)
  show "outs ms k p \<subseteq># mset (splits (unat (snd k)) (unat (page_size k)) p)"
  proof (cases "p \<in> set ps")
    case True
    then have "mset (objs_of fr p) + outs ms k p = mset (splits (unat (snd k)) (unat (page_size k)) p)"
      using c by (auto simp: class_ok_def)
    then show ?thesis by (metis mset_subset_eq_add_right)
  next
    case False
    then show ?thesis using c by (auto simp: class_ok_def)
  qed
qed

lemma object_in_page:
  assumes ok: "pool_ok hp0 P hp ms" and m: "m \<in># ms"
  shows "(m_obj_page_pv m, unat (page_size (key_of m))) \<in> set hp" "m_obj_page_pv m \<le> m_obj_pv m"
    "m_obj_pv m + unat (m_slot_size m) \<le> m_obj_page_pv m + unat (page_size (key_of m))"
proof -
  have v: "valid_key (key_of m)" using ok m unfolding pool_ok_def by blast
  have x: "m_obj_pv m \<in># outs ms (key_of m) (m_obj_page_pv m)" using m by (auto simp: outs_def)
  then show "(m_obj_page_pv m, unat (page_size (key_of m))) \<in> set hp"
    using outs_sub(2) [OF ok v] pages_live [OF ok v] by (metis empty_not_add_mset multi_member_split)
  have "m_obj_pv m \<in> set (splits (unat (snd (key_of m))) (unat (page_size (key_of m))) (m_obj_page_pv m))"
    using mset_subset_eqD [OF outs_sub(1) [OF ok v] x] by simp
  then show "m_obj_page_pv m \<le> m_obj_pv m"
      "m_obj_pv m + unat (m_slot_size m) \<le> m_obj_page_pv m + unat (page_size (key_of m))"
    using splits_ge splits_le by (auto simp: key_of_def)
qed

lemma objects_apart:
  assumes ok: "pool_ok hp0 P hp ms" and m: "{#m, m'#} \<subseteq># ms"
  shows "m_obj_pv m + unat (m_slot_size m) \<le> m_obj_pv m' \<or> m_obj_pv m' + unat (m_slot_size m') \<le> m_obj_pv m"
proof -
  have in_ms: "m \<in># ms" "m' \<in># ms" using m by (auto dest: mset_subset_eqD)
  then have v: "valid_key (key_of m)" "valid_key (key_of m')" using ok unfolding pool_ok_def by blast+
  note page = object_in_page [OF ok in_ms(1)] object_in_page [OF ok in_ms(2)]
  show ?thesis
  proof (cases "m_obj_page_pv m = m_obj_page_pv m'")
    case False
    have "heap_ok hp" using ok unfolding pool_ok_def by blast
    with False page(1,4) have "m_obj_page_pv m + unat (page_size (key_of m)) \<le> m_obj_page_pv m' \<or>
        m_obj_page_pv m' + unat (page_size (key_of m')) \<le> m_obj_page_pv m"
      unfolding heap_ok_def by force
    then show ?thesis using page(2,3,5,6) by linarith
  next
    case True
    let ?k = "key_of m" and ?p = "m_obj_page_pv m"
    have x: "outs ms (key_of m) ?p \<noteq> {#}" "outs ms (key_of m') ?p \<noteq> {#}"
      using in_ms True by (auto simp: outs_def filter_mset_eq_conv dest: multi_member_split)
    have "(?p, key_of m) \<in> page_table P" "(?p, key_of m') \<in> page_table P"
      using outs_sub(2) [OF ok] v x by (auto simp: page_table_def)
    then have k: "key_of m' = ?k" using ok unfolding pool_ok_def by (meson single_valuedD)
    have "{#m_obj_pv m, m_obj_pv m'#} \<subseteq># outs ms ?k ?p"
      using image_mset_subseteq_mono [OF multiset_filter_mono [OF m], of m_obj_pv "\<lambda>y. key_of y = ?k \<and> m_obj_page_pv y = ?p"] k True
      by (simp add: outs_def)
    then have s: "{#m_obj_pv m, m_obj_pv m'#} \<subseteq># mset (splits (unat (snd ?k)) (unat (page_size ?k)) ?p)"
      using outs_sub(1) [OF ok v(1)] subset_mset.order_trans by blast
    have "0 < unat (snd ?k)" using page_size_unat(2) [OF v(1)] by (simp add: unat_gt_0)
    then have "count (mset (splits (unat (snd ?k)) (unat (page_size ?k)) ?p)) (m_obj_pv m) \<le> 1"
      using distinct_splits by (simp add: distinct_count_atmost_1)
    then have "m_obj_pv m \<noteq> m_obj_pv m'" using mset_subset_eq_count [OF s, of "m_obj_pv m"] by auto
    moreover have "m_obj_pv m \<in># mset (splits (unat (snd ?k)) (unat (page_size ?k)) ?p)"
        "m_obj_pv m' \<in># mset (splits (unat (snd ?k)) (unat (page_size ?k)) ?p)"
      using s by (auto dest: mset_subset_eqD)
    ultimately show ?thesis using splits_apart k by (fastforce simp: key_of_def)
  qed
qed

subsection \<open>Destructor\<close>

lemma free_all_done:
  "distinct ps \<Longrightarrow> set ps \<subseteq> fst ` set hp \<Longrightarrow> \<exists>hp'. free_all ps hp = Some hp' \<and> set hp' = {b \<in> set hp. fst b \<notin> set ps}"
proof (induction ps arbitrary: hp)
  case (Cons p ps)
  then have "set ps \<subseteq> fst ` set (AList.delete p hp)" by (fastforce simp: set_AList_delete)
  then obtain hp' where "free_all ps (AList.delete p hp) = Some hp'"
      "set hp' = {b \<in> set (AList.delete p hp). fst b \<notin> set ps}"
    using Cons.IH [of "AList.delete p hp"] Cons.prems by auto
  then show ?case using Cons.prems by (auto simp: mem_free_def set_AList_delete)
qed simp

lemma distinct_concat_snd:
  assumes "distinct (map fst xs)" "\<And>i l. (i, l) \<in> set xs \<Longrightarrow> distinct l"
    "\<And>i l j l'. (i, l) \<in> set xs \<Longrightarrow> (j, l') \<in> set xs \<Longrightarrow> i \<noteq> j \<Longrightarrow> set l \<inter> set l' = {}"
  shows "distinct (concat (map snd xs))"
  using assms
proof (induction xs)
  case (Cons x xs)
  obtain i l where x: "x = (i, l)" by (cases x)
  have "set l \<inter> set l' = {}" if "(j, l') \<in> set xs" for j l'
    using Cons.prems(3) [of i l j l'] Cons.prems(1) that x by (force simp: image_iff)
  then have "set l \<inter> set (concat (map snd xs)) = {}" by fastforce
  moreover have "distinct (concat (map snd xs))"
    by (rule Cons.IH) (use Cons.prems(1) in simp, (meson Cons.prems(2,3) list.set_intros(2))+)
  moreover have "distinct l" using Cons.prems(2) [of i l] x by simp
  ultimately show ?case using x by simp
qed simp

text \<open>The pages of a slot are the pages of the class of its number.\<close>

definition slot_key :: "MemObjectType \<Rightarrow> u32 \<Rightarrow> class_key" where
  "slot_key t i = (t, i * (if t = Big then 4096 else 32))"

lemma slot_key_ok:
  assumes "t = Small \<and> i \<in> set (slots 128) \<or> t = Big \<and> i \<in> set (slots 32)"
  shows "valid_key (slot_key t i)" "slot_no (slot_key t i) = i"
proof -
  have i: "0 < unat i" "t = Big \<Longrightarrow> unat i \<le> 32" "unat i \<le> 128" using assms by (auto simp: set_slots word_le_nat_alt)
  then have u: "unat (snd (slot_key t i)) = unat i * (if t = Big then 4096 else 32)"
    using unat_mult_lt [of i 4096] unat_mult_lt [of i 32] by (auto simp: slot_key_def)
  then show "valid_key (slot_key t i)" using i assms
    by (auto simp: valid_key_def slot_key_def word_le_nat_alt word_less_nat_alt)
  have "unat (slot_no (slot_key t i)) = unat i" using u by (simp add: slot_no_def unat_div slot_key_def split: if_splits)
  then show "slot_no (slot_key t i) = i" by (simp add: word_unat_eq_iff)
qed

lemma distinct_slots: "distinct (slots n)"
proof -
  have "inj_on (word_of_nat :: nat \<Rightarrow> u32) {1..<Suc (unat n)}"
  proof (rule inj_onI)
    fix a b assume ab: "a \<in> {1..<Suc (unat n)}" "b \<in> {1..<Suc (unat n)}" "(word_of_nat a :: u32) = word_of_nat b"
    have "unat (word_of_nat a :: u32) = a" "unat (word_of_nat b :: u32) = b"
      using ab(1,2) unsigned_less [of n, where 'a = nat] by (simp_all add: unat_of_nat)
    then show "a = b" using ab(3) by metis
  qed
  then show ?thesis unfolding slots_def distinct_map set_upt by simp
qed

lemma slot_pages_key:
  assumes conf: "pool_conf P" and t: "t = Small \<and> xs = m_small_obj_pages P \<or> t = Big \<and> xs = m_big_obj_pages P"
    and x: "(i, l) \<in> set xs"
  shows "valid_key (slot_key t i)" "snd (snd (cls P (slot_key t i))) = l" "slot_no (slot_key t i) = i"
proof -
  have "i \<in> set (map fst xs)" using x by force
  moreover have ks: "map fst xs = (if t = Big then slots 32 else slots 128)" using conf t by (auto simp: pool_conf_def)
  ultimately have i: "t = Small \<and> i \<in> set (slots 128) \<or> t = Big \<and> i \<in> set (slots 32)" using t by auto
  have d: "distinct (map fst xs)" unfolding ks by (simp add: distinct_slots)
  note k = slot_key_ok [OF i]
  show "valid_key (slot_key t i)" "slot_no (slot_key t i) = i" by (rule k)+
  have "map_of xs i = Some l" using d x by simp
  moreover obtain fr n where "map_of (fst (slot_books t P)) i = Some \<lparr>sp_objs = fr, sp_cnt = n\<rparr>"
    using cls_found [OF conf, of t "snd (slot_key t i)"] k t by (auto simp: slot_key_def)
  ultimately show "snd (snd (cls P (slot_key t i))) = l"
    using t k(2) by (auto simp: cls_def slot_key_def slot_books_def slot_pages_def)
qed

lemma slot_concat:
  assumes ok: "pool_ok hp0 P hp ms" and t: "t = Small \<and> xs = m_small_obj_pages P \<or> t = Big \<and> xs = m_big_obj_pages P"
  shows "distinct (concat (map snd xs))" "set (concat (map snd xs)) = {p. \<exists>s. (p, t, s) \<in> page_table P}"
proof -
  have conf: "pool_conf P" and sv: "single_valued (page_table P)" using ok unfolding pool_ok_def by blast+
  note key = slot_pages_key [OF conf t]
  have in_tab: "(p, slot_key t i) \<in> page_table P" if "(i, l) \<in> set xs" "p \<in> set l" for i l p
    using key [OF that(1)] that(2) by (simp add: page_table_def pages_def)
  show "distinct (concat (map snd xs))"
  proof (rule distinct_concat_snd)
    show "distinct (map fst xs)" using conf t distinct_slots by (auto simp: pool_conf_def)
    show "distinct l" if "(i, l) \<in> set xs" for i l
      using pool_class [OF ok key(1) [OF that]] key(2) [OF that] by (auto simp: class_ok_def split_beta)
    show "set l \<inter> set l' = {}" if a: "(i, l) \<in> set xs" "(j, l') \<in> set xs" "i \<noteq> j" for i l j l'
    proof (rule ccontr)
      assume "set l \<inter> set l' \<noteq> {}"
      then obtain p where "p \<in> set l" "p \<in> set l'" by blast
      then have "slot_key t i = slot_key t j" using in_tab a sv by (meson single_valuedD)
      then have "slot_no (slot_key t i) = slot_no (slot_key t j)" by simp
      then show False using slot_pages_key(3) [OF conf t] a by metis
    qed
  qed
  show "set (concat (map snd xs)) = {p. \<exists>s. (p, t, s) \<in> page_table P}"
  proof (intro set_eqI iffI)
    fix p assume "p \<in> set (concat (map snd xs))"
    then obtain i l where "(i, l) \<in> set xs" "p \<in> set l" by auto
    then show "p \<in> {p. \<exists>s. (p, t, s) \<in> page_table P}" using in_tab by (auto simp: slot_key_def)
  next
    fix p assume "p \<in> {p. \<exists>s. (p, t, s) \<in> page_table P}"
    then obtain s where "p \<in> pages P (t, s)" by (auto simp: page_table_def)
    then have "\<exists>l. map_of xs (slot_no (t, s)) = Some l \<and> p \<in> set l"
      using t by (auto simp: pages_def cls_def slot_books_def slot_pages_def eq_commute split: option.splits if_splits)
    then obtain l where "map_of xs (slot_no (t, s)) = Some l" "p \<in> set l" by blast
    then show "p \<in> set (concat (map snd xs))" by (force dest: map_of_SomeD)
  qed
qed

lemma pool_dtor:
  assumes ok: "pool_ok hp0 P hp ms"
  shows "\<exists>hp'. MemPool_dtor P hp = Some hp' \<and> set hp' = set hp0"
proof -
  let ?t = "\<lambda>t. {p. \<exists>s. (p, t, s) \<in> page_table P}" and ?f = "\<lambda>(p, k). (p, unat (page_size k))"
  note small = slot_concat [OF ok, of Small "m_small_obj_pages P"] and big = slot_concat [OF ok, of Big "m_big_obj_pages P"]
  have inv: "pool_conf P" "single_valued (page_table P)" "fst ` page_table P \<inter> fst ` set hp0 = {}"
      "set hp = set hp0 \<union> ?f ` page_table P"
    using ok unfolding pool_ok_def by blast+
  have v: "valid_key (Tiny, 16)" by (simp add: valid_key_def)
  have "distinct (m_tiny_obj_pages P)" using pool_class [OF ok v] by (simp add: cls_def class_ok_def)
  moreover have tiny: "set (m_tiny_obj_pages P) = ?t Tiny"
    by (auto simp: page_table_def valid_key_def pages_def cls_def)
  moreover have dj: "?t t \<inter> ?t t' = {}" if "t \<noteq> t'" for t t' using inv(2) that by (auto dest: single_valuedD)
  moreover have no_bulk: "m_bulk_obj_pages P = []" using inv(1) by (simp add: pool_conf_def)
  ultimately have d: "distinct (all_pages P)"
    using small big dj [of Tiny Small] dj [of Tiny Big] dj [of Small Big]
    by (simp add: all_pages_def Int_Un_distrib del: set_concat)
  have "set (all_pages P) = ?t Tiny \<union> ?t Small \<union> ?t Big"
    using tiny small big no_bulk by (simp add: all_pages_def Un_assoc del: set_concat)
  also have "\<dots> = fst ` page_table P"
  proof (intro equalityI subsetI)
    fix p assume "p \<in> fst ` page_table P"
    then obtain t s where p: "(p, t, s) \<in> page_table P" by force
    moreover have "t \<noteq> Bulk" using p by (auto simp: page_table_def valid_key_def)
    ultimately show "p \<in> ?t Tiny \<union> ?t Small \<union> ?t Big" by (cases t) auto
  qed (force+)
  finally have all: "set (all_pages P) = fst ` page_table P" .
  have im: "fst ` (?f ` page_table P) = fst ` page_table P" unfolding image_image by (simp add: split_beta)
  then have "set (all_pages P) \<subseteq> fst ` set hp" unfolding all inv(4) image_Un by blast
  then obtain hp' where "free_all (all_pages P) hp = Some hp'" "set hp' = {b \<in> set hp. fst b \<notin> fst ` page_table P}"
    using free_all_done [OF d] all by metis
  moreover have "{b \<in> set hp. fst b \<notin> fst ` page_table P} = set hp0" unfolding inv(4) using inv(3) im by blast
  ultimately show ?thesis by (simp add: MemPool_dtor_def)
qed

end
