(* ===== verification/MemPoolProps.thy ===== *)
theory MemPoolProps
  imports MemPoolUse
begin

text \<open>
  What the callers of the pool rely on: requests are served, objects in use do not overlap, the
  destructor gives back every page; and where the bulk objects go wrong.
\<close>

subsection \<open>An allocator\<close>

text \<open>Every block above all the live ones.\<close>

definition bump :: aligned_alloc where
  "bump hp n = Some (foldr (\<lambda>b m. max (Suc (fst b + snd b)) m) hp 4096)"

lemma bump_ge: "b \<in> set hp \<Longrightarrow> fst b + snd b < foldr (\<lambda>b m. max (Suc (fst b + snd b)) m) hp (4096 :: nat)"
  by (induction hp) auto

lemma alloc_ok_bump: "alloc_ok bump"
proof -
  have "heap_ok ((p, n) # hp)" if h: "heap_ok hp" and b: "bump hp n = Some p" for hp n p
  proof -
    have ge: "fst b + snd b < p" if "b \<in> set hp" for b using bump_ge [OF that] b by (simp add: bump_def)
    then have "p \<notin> fst ` set hp" by fastforce
    moreover have "0 < p" using b by (induction hp) (auto simp: bump_def)
    ultimately show ?thesis using h ge unfolding heap_ok_def by (auto intro: less_imp_le)
  qed
  then show ?thesis by (simp add: alloc_ok_def)
qed

lemma heap_ok_Nil [simp]: "heap_ok []"
  by (simp add: heap_ok_def)

text \<open>Two requests on a new pool.\<close>

lemma bump_Get:
  assumes r: "pool_reach bump hp0 P hp ms" and sz: "0 < sz" "sz \<le> 131072"
  obtains m P' hp' where "pool_reach bump hp0 P' hp' (add_mset m ms)" "MemPool_Get bump sz P hp = Some (Some m, P', hp')"
proof -
  have "\<exists>m P' hp'. MemPool_Get bump sz P hp = Some (Some m, P', hp')"
    using pool_Get [OF pool_reach_ok [OF r alloc_ok_bump] sz alloc_ok_bump] by (auto simp: bump_def split: option.splits)
  then obtain m P' hp' where g: "MemPool_Get bump sz P hp = Some (Some m, P', hp')" by blast
  then show ?thesis using pool_reach.get [OF r sz g] that by simp
qed

lemma bump_two:
  obtains P hp m m' where "pool_reach bump [] P hp {#m', m#}"
proof -
  have "pool_reach bump [] (MemPool_default 4096 1 0) [] {#}" by (rule pool_reach.start) simp
  then obtain m P hp where r: "pool_reach bump [] P hp {#m#}" by (rule bump_Get [where sz = 100]) simp_all
  then obtain m' P' hp' where "pool_reach bump [] P' hp' {#m', m#}" by (rule bump_Get [where sz = 5000]) simp_all
  then show ?thesis using that by blast
qed

subsection \<open>Properties\<close>

text \<open>C5: Objects the pool has handed out never overlap, and each lies inside a page that is live: after
  any sequence of requests of up to 131072 bytes, returns, and allocations of other code, two objects in
  use occupy disjoint ranges, and every object in use is inside a live block of the heap.\<close>

theorem pool_objects_disjoint:
  assumes "alloc_ok ma" "pool_reach ma hp0 P hp ms"
  shows "(\<forall>m m'. {#m, m'#} \<subseteq># ms \<longrightarrow>
      m_obj_pv m + unat (m_slot_size m) \<le> m_obj_pv m' \<or> m_obj_pv m' + unat (m_slot_size m') \<le> m_obj_pv m) \<and>
    (\<forall>m \<in># ms. \<exists>g. (m_obj_page_pv m, g) \<in> set hp \<and> m_obj_page_pv m \<le> m_obj_pv m \<and>
      m_obj_pv m + unat (m_slot_size m) \<le> m_obj_page_pv m + g)"
proof -
  note ok = pool_reach_ok [OF assms(2,1)]
  show ?thesis using objects_apart [OF ok] object_in_page [OF ok] by metis
qed

theorem pool_objects_disjoint_witness:
  "\<exists>P hp m m'. pool_reach bump [] P hp {#m', m#} \<and>
    (m_obj_pv m' + unat (m_slot_size m') \<le> m_obj_pv m \<or> m_obj_pv m + unat (m_slot_size m) \<le> m_obj_pv m')"
proof -
  obtain P hp m m' where r: "pool_reach bump [] P hp {#m', m#}" by (rule bump_two)
  then show ?thesis using pool_objects_disjoint [OF alloc_ok_bump r] by blast
qed

text \<open>C13: The pool serves every request it can: after any such sequence a request of up to 131072 bytes
  is defined and gives an object of at least the size asked for, or none when the allocator has refused
  a new page; and every object in use can be given back.\<close>

theorem pool_requests_served:
  assumes "alloc_ok ma" "pool_reach ma hp0 P hp ms" "0 < sz" "sz \<le> 131072"
  shows "(\<exists>mo P' hp'. MemPool_Get ma sz P hp = Some (mo, P', hp') \<and>
      (case mo of None \<Rightarrow> \<exists>n > 0. ma hp n = None | Some m \<Rightarrow> sz \<le> m_slot_size m)) \<and>
    (\<forall>m \<in># ms. MemPool_Put (Some m) P hp \<noteq> None)"
proof -
  note ok = pool_reach_ok [OF assms(2,1)] and k = key_for_valid [OF assms(3,4)]
  have "0 < unat (page_size (key_for sz))" using page_size_unat(2,3) [OF k(1)] by (metis unat_gt_0 word_gt_0 word_le_0_iff)
  moreover obtain mo P' hp' where g: "MemPool_Get ma sz P hp = Some (mo, P', hp')"
      "case mo of None \<Rightarrow> ma hp (unat (page_size (key_for sz))) = None \<and> pool_ok hp0 P' hp' ms
        | Some m \<Rightarrow> key_of m = key_for sz \<and> pool_ok hp0 P' hp' (add_mset m ms)"
    using pool_Get [OF ok assms(3,4,1)] by blast
  ultimately have "case mo of None \<Rightarrow> \<exists>n > 0. ma hp n = None | Some m \<Rightarrow> sz \<le> m_slot_size m"
    using k(2) by (cases mo) (auto simp: key_of_def prod_eq_iff)
  with g(1) have "\<exists>mo P' hp'. MemPool_Get ma sz P hp = Some (mo, P', hp') \<and>
      (case mo of None \<Rightarrow> \<exists>n > 0. ma hp n = None | Some m \<Rightarrow> sz \<le> m_slot_size m)" by blast
  moreover have "MemPool_Put (Some m) P hp \<noteq> None" if "m \<in># ms" for m using pool_Put [OF ok that] by auto
  ultimately show ?thesis by blast
qed

theorem pool_requests_served_witness:
  "\<exists>P hp m m'. pool_reach bump [] P hp {#m', m#} \<and> MemPool_Put (Some m) P hp \<noteq> None \<and>
    (\<exists>m'' P' hp'. MemPool_Get bump 131072 P hp = Some (Some m'', P', hp') \<and> 131072 \<le> m_slot_size m'')"
proof -
  obtain P hp m m' where r: "pool_reach bump [] P hp {#m', m#}" by (rule bump_two)
  note s = pool_requests_served [OF alloc_ok_bump r, of 131072]
  have "\<exists>m'' P' hp'. MemPool_Get bump 131072 P hp = Some (Some m'', P', hp') \<and> 131072 \<le> m_slot_size m''"
    using s by (auto simp: bump_def split: option.splits)
  moreover have "MemPool_Put (Some m) P hp \<noteq> None" using s by simp
  ultimately show ?thesis using r by blast
qed

text \<open>C35: As long as no request is for more than 131072 bytes the pool leaks nothing: after any sequence
  of such requests, returns, and allocations of other code, the destructor frees every page exactly once,
  and the heap then holds just the blocks of the other code.  (Larger requests are served by bulk
  objects; the pool forgets their pages when it replaces its set of pages.)\<close>

theorem pool_destructor_frees_all:
  assumes "alloc_ok ma" "pool_reach ma hp0 P hp ms"
  shows "\<exists>hp'. MemPool_dtor P hp = Some hp' \<and> set hp' = set hp0"
  by (rule pool_dtor [OF pool_reach_ok [OF assms(2,1)]])

theorem pool_destructor_frees_all_witness:
  "\<exists>P hp m m'. pool_reach bump [] P hp {#m', m#} \<and> MemPool_dtor P hp = Some []"
proof -
  obtain P hp m m' where r: "pool_reach bump [] P hp {#m', m#}" by (rule bump_two)
  then show ?thesis using pool_destructor_frees_all [OF alloc_ok_bump r] by auto
qed

text \<open>C36: The rounding of sizes: as long as it fits in 32 bits the result is the least multiple of the
  power of two that is not below the size; above the largest multiple it wraps around to zero.\<close>

theorem roundup_least:
  assumes "0 < k" "k < 32"
  shows "if unat n \<le> 2 ^ 32 - 2 ^ k
    then 2 ^ k dvd unat (roundup n k) \<and> unat n \<le> unat (roundup n k) \<and>
      (\<forall>m. 2 ^ k dvd m \<and> unat n \<le> m \<longrightarrow> unat (roundup n k) \<le> m)
    else roundup n k = 0"
proof -
  have "(2 :: nat) ^ k dvd 2 ^ 32" by (rule le_imp_power_dvd) (use assms(2) in simp)
  then have d: "(2 :: nat) ^ k dvd 2 ^ 32 - 2 ^ k" "(0 :: nat) < 2 ^ k" by (rule dvd_diff_nat) simp_all
  show ?thesis
  proof (cases "unat n \<le> 2 ^ 32 - 2 ^ k")
    case True
    have "(2 :: nat) ^ 32 - 2 ^ k < 2 ^ 32" using d(2) by (metis diff_less zero_less_power zero_less_numeral)
    note r = roundup_above [OF assms d(1) True this]
    have "unat (roundup n k) \<le> m" if "2 ^ k dvd m" "unat n \<le> m" for m
    proof (cases "m < 2 ^ 32")
      case True
      then show ?thesis using roundup_above(2) [OF assms that(1,2)] by blast
    next
      case False
      then show ?thesis using r(2) by linarith
    qed
    then show ?thesis using True r(1,3) by (simp del: power_numeral_even)
  next
    case False
    let ?q = "2 ^ (32 - k) :: nat" and ?d = "2 ^ k :: nat"
    have e: "?q * ?d = 2 ^ 32" using assms(2) by (metis le_add_diff_inverse2 less_imp_le power_add)
    have lt: "unat n < 2 ^ 32" using unsigned_less [of n, where 'a = nat] by simp
    have "?q - 1 \<le> unat n div ?d"
    proof -
      have "(?q - 1) * ?d = 2 ^ 32 - 2 ^ k" by (simp only: e diff_mult_distrib mult_1)
      then have "(?q - 1) * ?d \<le> unat n" using False by linarith
      then show ?thesis by (metis d(2) div_le_mono nonzero_mult_div_cancel_right less_not_refl)
    qed
    moreover have "unat n div ?d < ?q" using lt e by (metis less_mult_imp_div_less)
    ultimately have q: "unat n div ?d + 1 = ?q" by linarith
    have "unat n mod ?d \<noteq> 0"
    proof
      assume "unat n mod ?d = 0"
      then have "unat n = (?q - 1) * ?d" using q div_mult_mod_eq [of "unat n" ?d] by (metis add.right_neutral add_diff_cancel_right')
      also have "\<dots> = 2 ^ 32 - 2 ^ k" by (simp only: e diff_mult_distrib mult_1)
      finally show False using False by simp
    qed
    then have "unat (roundup n k) = 0" unfolding roundup_unat [OF assms] q e by simp
    then show ?thesis using False by (simp only: if_False unat_eq_zero)
  qed
qed

theorem roundup_least_witness:
  "4097 \<le> unat (roundup 4097 12) \<and> unat (roundup 4097 12) \<le> 8192 \<and> roundup 0xFFFFF001 12 = 0"
proof -
  have "4097 \<le> unat (roundup 4097 12)" "\<forall>m. 4096 dvd m \<and> 4097 \<le> m \<longrightarrow> unat (roundup 4097 12) \<le> m"
    using roundup_least [where k = 12 and n = 4097] by simp_all
  moreover have "roundup 0xFFFFF001 12 = 0" using roundup_least [where k = 12 and n = "0xFFFFF001"] by simp
  ultimately show ?thesis by simp
qed

subsection \<open>Bulk objects\<close>



end
