(* ===== verification/Limiter.thy ===== *)
theory Limiter
  imports Prelude "HOL-Library.Signed_Division" "HOL-Library.Monad_Syntax"
begin

text \<open>
  acc: admission control.  The weights of the requests (rwt), the token bucket (limiters), the control
  that asks every limiter (resource-limit-control) and the configuration they are made from.  64-bit
  signed integers are integers with a check: an overflow, a division by zero or the use of a null
  pointer is undefined behaviour, None, and so is a fatal log message, which ends the process.  The readings of the clock come in as a list and are used up
  one by one; None also stands for a request that is still waiting when the readings end.
\<close>

subsection \<open>Weights\<close>

datatype ReqRespType = RPut | RGet | RDelete | RScan
datatype LimiterType = REF_COUNTER | TOKEN_BUCKET

record RwtConfig =
  rw_Put :: u32
  rw_Get :: u32
  rw_Delete :: u32
  rw_Scan :: u32

type_synonym RWT = "(ReqRespType \<times> u32) list"

definition RWT_Init :: "RwtConfig \<Rightarrow> RWT \<Rightarrow> RWT" where
  "RWT_Init conf t =
    AList.update RScan (rw_Scan conf) (AList.update RDelete (rw_Delete conf)
      (AList.update RGet (rw_Get conf) (AList.update RPut (rw_Put conf) t)))"

definition GetWeight :: "ReqRespType \<Rightarrow> RWT \<Rightarrow> u32" where
  "GetWeight rt t = (case map_of t rt of None \<Rightarrow> 1 | Some w \<Rightarrow> w)"

subsection \<open>Token bucket\<close>

record TokenBucketLimiterConfig =
  tc_Type :: LimiterType
  tc_Name :: string
  tc_Skip :: bool
  tc_MaxSize :: int
  tc_Speed :: int
  tc_Rwt :: RwtConfig

record TokenBucketLimiter =
  tb_lastUpdateTs :: int
  tb_tokenPerTimeUnit :: int
  tb_timeRemainder :: int
  tb_timeAccumulated :: int
  tb_pRWT :: "RWT option"
  tb_maxResCnt :: int
  tb_currentResCount :: int
  tb_speed :: int
  tb_timeUnit :: int
  tb_sName :: string
  tb_bSkipped :: bool

definition i64 :: "int \<Rightarrow> int option" where
  "i64 x = (if - (2 ^ 63) \<le> x \<and> x < 2 ^ 63 then Some x else None)"

definition sdiv64 :: "int \<Rightarrow> int \<Rightarrow> int option" where
  "sdiv64 a b = (if b = 0 then None else i64 (a sdiv b))"

definition smod64 :: "int \<Rightarrow> int \<Rightarrow> int option" where
  "smod64 a b = (if b = 0 then None else Some (a smod b))"

definition is_full :: "TokenBucketLimiter \<Rightarrow> bool" where
  "is_full s = (tb_currentResCount s \<ge> tb_maxResCnt s)"

definition put_tokens :: "int \<Rightarrow> TokenBucketLimiter \<Rightarrow> TokenBucketLimiter option" where
  "put_tokens tokens s = do {
     c \<leftarrow> i64 (tb_currentResCount s + tokens);
     let s = s\<lparr>tb_currentResCount := c\<rparr>;
     Some (if is_full s then s\<lparr>tb_currentResCount := tb_maxResCnt s\<rparr> else s)
   }"

definition calc_tokens_to_add :: "int \<Rightarrow> TokenBucketLimiter \<Rightarrow> (int \<times> TokenBucketLimiter) option" where
  "calc_tokens_to_add passedTime s = do {
     tokensToAdd \<leftarrow> i64 (tb_tokenPerTimeUnit s * passedTime);
     r \<leftarrow> i64 (tb_timeRemainder s * passedTime);
     a \<leftarrow> i64 (tb_timeAccumulated s + r);
     if a \<ge> tb_timeUnit s then do {
       q \<leftarrow> sdiv64 a (tb_timeUnit s);
       tokensToAdd \<leftarrow> i64 (tokensToAdd + q);
       m \<leftarrow> smod64 a (tb_timeUnit s);
       Some (tokensToAdd, s\<lparr>tb_timeAccumulated := m\<rparr>)
     } else Some (tokensToAdd, s\<lparr>tb_timeAccumulated := a\<rparr>)
   }"

definition tb_update :: "int \<Rightarrow> TokenBucketLimiter \<Rightarrow> TokenBucketLimiter option" where
  "tb_update currentTs s = do {
     passedTime \<leftarrow> i64 (currentTs - tb_lastUpdateTs s);
     if passedTime = 0 then Some s
     else if is_full s then Some (s\<lparr>tb_lastUpdateTs := currentTs\<rparr>)
     else do {
       (n, s) \<leftarrow> calc_tokens_to_add passedTime s;
       s \<leftarrow> put_tokens n s;
       Some (s\<lparr>tb_lastUpdateTs := currentTs\<rparr>)
     }
   }"

definition consume_tokens :: "int \<Rightarrow> TokenBucketLimiter \<Rightarrow> bool \<times> TokenBucketLimiter" where
  "consume_tokens n s =
    (if n \<le> tb_currentResCount s then (True, s\<lparr>tb_currentResCount := tb_currentResCount s - n\<rparr>) else (False, s))"

definition update_and_consume_tokens :: "int \<Rightarrow> int \<Rightarrow> TokenBucketLimiter \<Rightarrow> (bool \<times> TokenBucketLimiter) option" where
  "update_and_consume_tokens currentTs n s = map_option (consume_tokens n) (tb_update currentTs s)"

definition cal_wait_time :: "int \<Rightarrow> TokenBucketLimiter \<Rightarrow> int option" where
  "cal_wait_time tokens s = do {
     ticks \<leftarrow> i64 (tokens * tb_timeUnit s);
     t \<leftarrow> sdiv64 ticks (tb_speed s);
     m \<leftarrow> smod64 ticks (tb_speed s);
     t \<leftarrow> (if m \<noteq> 0 then i64 (t + 1) else Some t);
     k \<leftarrow> sdiv64 1000000000 (tb_timeUnit s);
     i64 (t * k)
   }"

definition tb_initialize :: "int \<Rightarrow> TokenBucketLimiter \<Rightarrow> TokenBucketLimiter option" where
  "tb_initialize now s = do {
     q \<leftarrow> sdiv64 (tb_speed s) (tb_timeUnit s);
     m \<leftarrow> smod64 (tb_speed s) (tb_timeUnit s);
     Some (s\<lparr>tb_lastUpdateTs := now, tb_tokenPerTimeUnit := q, tb_timeRemainder := m, tb_timeAccumulated := 0,
       tb_currentResCount := 0\<rparr>)
   }"

text \<open>
  The constructor with one argument leaves most fields as they happen to be, \<open>g\<close>; Init sets some of
  them but never calls initialize.  The constructor with three arguments does, and leaves no weights.
\<close>

definition TokenBucketLimiter_ctor :: "TokenBucketLimiter \<Rightarrow> int \<Rightarrow> TokenBucketLimiter" where
  "TokenBucketLimiter_ctor g timeUnit = g\<lparr>tb_pRWT := None, tb_timeUnit := timeUnit, tb_sName := [], tb_bSkipped := False\<rparr>"

definition TokenBucketLimiter_ctor3 :: "TokenBucketLimiter \<Rightarrow> int \<Rightarrow> u32 \<Rightarrow> int \<Rightarrow> int \<Rightarrow> TokenBucketLimiter option" where
  "TokenBucketLimiter_ctor3 g capacity speed timeUnit now =
    tb_initialize now (g\<lparr>tb_pRWT := None, tb_maxResCnt := capacity, tb_speed := uint speed, tb_timeUnit := timeUnit, tb_sName := [],
      tb_bSkipped := False\<rparr>)"

definition TokenBucketLimiter_Init :: "TokenBucketLimiterConfig \<Rightarrow> TokenBucketLimiter \<Rightarrow> TokenBucketLimiter" where
  "TokenBucketLimiter_Init conf s =
    s\<lparr>tb_sName := tc_Name conf, tb_bSkipped := tc_Skip conf, tb_maxResCnt := tc_MaxSize conf, tb_speed := tc_Speed conf,
      tb_pRWT := Some (RWT_Init (tc_Rwt conf) [])\<rparr>"

subsection \<open>Requests\<close>

fun GrantUntil_loop :: "int \<Rightarrow> int \<Rightarrow> TokenBucketLimiter \<Rightarrow> int list \<Rightarrow> (bool \<times> TokenBucketLimiter \<times> int list) option" where
  "GrantUntil_loop deadlineTs weight s [] = None"
| "GrantUntil_loop deadlineTs weight s (nowTs # clk) =
    (if deadlineTs \<ge> nowTs then Some (False, s, clk)
     else do {
       waitTokens \<leftarrow> i64 (weight - tb_currentResCount s);
       waitTime \<leftarrow> cal_wait_time waitTokens s;
       until \<leftarrow> i64 (deadlineTs + waitTime);
       if until \<ge> nowTs then Some (False, s, clk)
       else case clk of
           [] \<Rightarrow> None
         | now # clk \<Rightarrow> do {
             (ok, s) \<leftarrow> update_and_consume_tokens now weight s;
             if ok then Some (True, s, clk) else GrantUntil_loop deadlineTs weight s clk
           }
     })"

definition GrantUntil :: "int \<Rightarrow> ReqRespType \<Rightarrow> TokenBucketLimiter \<Rightarrow> int list \<Rightarrow> (bool \<times> TokenBucketLimiter \<times> int list) option" where
  "GrantUntil deadlineTs type s clk =
    (if tb_bSkipped s then Some (True, s, clk)
     else case clk of
         [] \<Rightarrow> None
       | now # clk \<Rightarrow>
           if deadlineTs \<ge> now then Some (False, s, clk)
           else case tb_pRWT s of
               None \<Rightarrow> None
             | Some rwt \<Rightarrow>
                 let weight = uint (GetWeight type rwt)
                 in if weight = 0 then Some (True, s, clk)
                    else if weight > tb_maxResCnt s then None
                    else case clk of
                        [] \<Rightarrow> None
                      | now # clk \<Rightarrow> do {
                          (ok, s) \<leftarrow> update_and_consume_tokens now weight s;
                          if ok then Some (True, s, clk) else GrantUntil_loop deadlineTs weight s clk
                        })"

definition GiveBack :: "ReqRespType \<Rightarrow> TokenBucketLimiter \<Rightarrow> TokenBucketLimiter option" where
  "GiveBack rt s =
    (if tb_bSkipped s then Some s
     else case tb_pRWT s of
         None \<Rightarrow> None
       | Some rwt \<Rightarrow> let weight = uint (GetWeight rt rwt) in if weight = 0 then Some s else put_tokens weight s)"

subsection \<open>Control\<close>

text \<open>The control calls its granters through their interface: the two functions are its methods.\<close>

record 'g SimpleRlc =
  rl_bSkipped :: bool
  rl_vGranters :: "'g list"
  rl_iGrantersCnt :: byte

fun contains_granter :: "TokenBucketLimiter \<Rightarrow> TokenBucketLimiter list \<Rightarrow> bool" where
  "contains_granter granter [] = False"
| "contains_granter granter (vg # vs) = (tb_sName vg = tb_sName granter \<or> contains_granter granter vs)"

text \<open>Inl: the exception for two limiters of one name.  \<open>gs\<close> is what the memory of each new limiter holds.\<close>

fun SimpleRlc_add :: "(nat \<Rightarrow> TokenBucketLimiter) \<Rightarrow> TokenBucketLimiterConfig list \<Rightarrow> TokenBucketLimiter list \<Rightarrow>
    string + bool \<times> TokenBucketLimiter list" where
  "SimpleRlc_add gs [] vs = Inr (True, vs)"
| "SimpleRlc_add gs (c # cs) vs =
    (case tc_Type c of
       REF_COUNTER \<Rightarrow> Inr (False, vs)
     | TOKEN_BUCKET \<Rightarrow>
         let pg = TokenBucketLimiter_Init c (TokenBucketLimiter_ctor (gs (length vs)) 1000000000)
         in if contains_granter pg vs then Inl (tb_sName pg) else SimpleRlc_add gs cs (vs @ [pg]))"

definition SimpleRlc_Init :: "(nat \<Rightarrow> TokenBucketLimiter) \<Rightarrow> bool \<Rightarrow> TokenBucketLimiterConfig list \<Rightarrow> TokenBucketLimiter SimpleRlc \<Rightarrow>
    string + bool \<times> TokenBucketLimiter SimpleRlc" where
  "SimpleRlc_Init gs skip confs r =
    (case SimpleRlc_add gs confs (rl_vGranters r) of
       Inl e \<Rightarrow> Inl e
     | Inr (ok, vs) \<Rightarrow>
         Inr (ok, if ok then r\<lparr>rl_bSkipped := skip, rl_vGranters := vs, rl_iGrantersCnt := word_of_nat (length vs)\<rparr>
                  else r\<lparr>rl_bSkipped := skip, rl_vGranters := vs\<rparr>))"

fun ask_granters :: "('g \<Rightarrow> int list \<Rightarrow> (bool \<times> 'g \<times> int list) option) \<Rightarrow> 'g list \<Rightarrow> int list \<Rightarrow>
    (bool \<times> 'g list \<times> 'g list \<times> int list) option" where
  "ask_granters grant [] clk = Some (True, [], [], clk)"
| "ask_granters grant (g # gs) clk = do {
     (ok, g, clk) \<leftarrow> grant g clk;
     if ok then do { (ok, asked, rest, clk) \<leftarrow> ask_granters grant gs clk; Some (ok, g # asked, rest, clk) }
     else Some (False, [], g # gs, clk)
   }"

fun give_back_all :: "('g \<Rightarrow> 'g option) \<Rightarrow> 'g list \<Rightarrow> 'g list option" where
  "give_back_all give [] = Some []"
| "give_back_all give (g # gs) = do { g \<leftarrow> give g; gs \<leftarrow> give_back_all give gs; Some (g # gs) }"

definition SimpleRlc_GrantUntil :: "('g \<Rightarrow> int list \<Rightarrow> (bool \<times> 'g \<times> int list) option) \<Rightarrow> ('g \<Rightarrow> 'g option) \<Rightarrow> 'g SimpleRlc \<Rightarrow>
    int list \<Rightarrow> (bool \<times> 'g SimpleRlc \<times> int list) option" where
  "SimpleRlc_GrantUntil grant give r clk =
    (if rl_bSkipped r then Some (True, r, clk)
     else if rl_iGrantersCnt r = 0 then Some (True, r, clk)
     else do {
       let cnt = unat (rl_iGrantersCnt r);
       (ok, asked, rest, clk) \<leftarrow> ask_granters grant (take cnt (rl_vGranters r)) clk;
       asked \<leftarrow> (if ok then Some asked else give_back_all give asked);
       Some (ok, r\<lparr>rl_vGranters := asked @ rest @ drop cnt (rl_vGranters r)\<rparr>, clk)
     })"

subsection \<open>Configuration\<close>

text \<open>An item of the parsed JSON text: its name, its value as a string or a number, and its children.\<close>

datatype cJSON = CJ (cj_string: "string option") (cj_valuestring: "string option") (cj_valueint: int) (cj_child: "cJSON list")

definition tolower :: "char \<Rightarrow> int" where
  "tolower c = (let n = of_char c :: int in if 65 \<le> n \<and> n \<le> 90 then n + 32 else n)"

fun strcasecmp :: "string \<Rightarrow> string \<Rightarrow> int" where
  "strcasecmp [] [] = 0"
| "strcasecmp (a # as) [] = tolower a"
| "strcasecmp [] (b # bs) = - tolower b"
| "strcasecmp (a # as) (b # bs) = (if tolower a = tolower b then strcasecmp as bs else tolower a - tolower b)"

definition case_insensitive_strcmp :: "string option \<Rightarrow> string option \<Rightarrow> int" where
  "case_insensitive_strcmp s t = (case (s, t) of (Some s, Some t) \<Rightarrow> strcasecmp s t | _ \<Rightarrow> 1)"

definition cJSON_GetObjectItem :: "cJSON option \<Rightarrow> string \<Rightarrow> cJSON option" where
  "cJSON_GetObjectItem obj name =
    (case obj of None \<Rightarrow> None | Some obj \<Rightarrow> find (\<lambda>e. case_insensitive_strcmp (Some name) (cj_string e) = 0) (cj_child obj))"

definition cJSON_GetArraySize :: "cJSON option \<Rightarrow> int" where
  "cJSON_GetArraySize a = (case a of None \<Rightarrow> 0 | Some a \<Rightarrow> sint (word_of_nat (length (cj_child a)) :: u32))"

definition cJSON_GetArrayItem :: "cJSON option \<Rightarrow> int \<Rightarrow> cJSON option" where
  "cJSON_GetArrayItem a i =
    (case a of None \<Rightarrow> None
     | Some a \<Rightarrow> if i < 0 then None else if nat i < length (cj_child a) then Some (cj_child a ! nat i) else None)"

text \<open>The former value of a field comes in where the code does not set it.\<close>

definition RwtConfig_Parse :: "cJSON option \<Rightarrow> RwtConfig \<Rightarrow> RwtConfig option" where
  "RwtConfig_Parse obj c = do {
     putItem \<leftarrow> cJSON_GetObjectItem obj ''put'';
     let c = c\<lparr>rw_Put := word_of_int (cj_valueint putItem)\<rparr>;
     getItem \<leftarrow> cJSON_GetObjectItem obj ''get'';
     let c = c\<lparr>rw_Put := word_of_int (cj_valueint getItem)\<rparr>;
     deleteItem \<leftarrow> cJSON_GetObjectItem obj ''delete'';
     let c = c\<lparr>rw_Put := word_of_int (cj_valueint deleteItem)\<rparr>;
     scanItem \<leftarrow> cJSON_GetObjectItem obj ''scan'';
     Some (c\<lparr>rw_Put := word_of_int (cj_valueint scanItem)\<rparr>)
   }"

definition TokenBucketLimiterConfig_Parse :: "cJSON option \<Rightarrow> TokenBucketLimiterConfig \<Rightarrow> TokenBucketLimiterConfig option" where
  "TokenBucketLimiterConfig_Parse obj c = do {
     skipItem \<leftarrow> cJSON_GetObjectItem obj ''skip'';
     nameItem \<leftarrow> cJSON_GetObjectItem obj ''name'';
     name \<leftarrow> cj_valuestring nameItem;
     msItem \<leftarrow> cJSON_GetObjectItem obj ''ms'';
     speedItem \<leftarrow> cJSON_GetObjectItem obj ''speed'';
     rwt \<leftarrow> RwtConfig_Parse (cJSON_GetObjectItem obj ''rwt'') (tc_Rwt c);
     Some (c\<lparr>tc_Type := TOKEN_BUCKET, tc_Skip := cj_valueint skipItem = 1, tc_Name := name, tc_MaxSize := cj_valueint msItem,
       tc_Speed := cj_valueint speedItem, tc_Rwt := rwt\<rparr>)
   }"

fun parse_limiters :: "(nat \<Rightarrow> TokenBucketLimiterConfig) \<Rightarrow> cJSON option \<Rightarrow> nat list \<Rightarrow> TokenBucketLimiterConfig list option" where
  "parse_limiters gs items [] = Some []"
| "parse_limiters gs items (i # is) = do {
     let arrItem = cJSON_GetArrayItem items (int i);
     typeItem \<leftarrow> cJSON_GetObjectItem arrItem ''type'';
     limiterType \<leftarrow> cj_valuestring typeItem;
     if limiterType = ''token-bucket'' then do {
       tbc \<leftarrow> TokenBucketLimiterConfig_Parse arrItem (gs i);
       rest \<leftarrow> parse_limiters gs items is;
       Some (tbc # rest)
     } else None
   }"

definition SimpleRlcConfig_Parse :: "(nat \<Rightarrow> TokenBucketLimiterConfig) \<Rightarrow> cJSON option \<Rightarrow> (bool \<times> TokenBucketLimiterConfig list) option" where
  "SimpleRlcConfig_Parse gs accNode = do {
     skipItem \<leftarrow> cJSON_GetObjectItem accNode ''skip'';
     let limitersItem = cJSON_GetObjectItem accNode ''limiters'';
     ls \<leftarrow> parse_limiters gs limitersItem [0..<nat (cJSON_GetArraySize limitersItem)];
     Some (cj_valueint skipItem = 1, ls)
   }"

definition ParseAccConfig :: "(nat \<Rightarrow> TokenBucketLimiterConfig) \<Rightarrow> cJSON option \<Rightarrow> (bool \<times> TokenBucketLimiterConfig list) option" where
  "ParseAccConfig gs root = do {
     let accNode = cJSON_GetObjectItem root ''acc'';
     typeItem \<leftarrow> cJSON_GetObjectItem accNode ''type'';
     t \<leftarrow> cj_valuestring typeItem;
     if t = ''simple'' then SimpleRlcConfig_Parse gs accNode else None
   }"

end
