(* ===== verification/LimiterProps.thy ===== *)
theory LimiterProps
  imports Limiter
begin

text \<open>
  The token bucket keeps its level between zero and its capacity and never grants more than its
  capacity and its rate allow.
\<close>

subsection \<open>The bucket\<close>

definition tb_inv :: "TokenBucketLimiter \<Rightarrow> bool" where
  "tb_inv s \<longleftrightarrow> 0 < tb_timeUnit s \<and> 0 \<le> tb_tokenPerTimeUnit s \<and> 0 \<le> tb_timeRemainder s \<and>
     tb_tokenPerTimeUnit s * tb_timeUnit s + tb_timeRemainder s = tb_speed s \<and>
     0 \<le> tb_timeAccumulated s \<and> tb_timeAccumulated s < tb_timeUnit s \<and>
     0 \<le> tb_currentResCount s \<and> tb_currentResCount s \<le> tb_maxResCnt s"

text \<open>The fields no request changes.\<close>

definition same_conf :: "TokenBucketLimiter \<Rightarrow> TokenBucketLimiter \<Rightarrow> bool" where
  "same_conf s s' \<longleftrightarrow> tb_timeUnit s' = tb_timeUnit s \<and> tb_speed s' = tb_speed s \<and> tb_maxResCnt s' = tb_maxResCnt s \<and>
     tb_pRWT s' = tb_pRWT s \<and> tb_bSkipped s' = tb_bSkipped s \<and> tb_sName s' = tb_sName s"

text \<open>The level in parts of a token.\<close>

definition level :: "TokenBucketLimiter \<Rightarrow> int" where
  "level s = tb_currentResCount s * tb_timeUnit s + tb_timeAccumulated s"

lemma sdiv_pos [simp]: "0 \<le> a \<Longrightarrow> 0 < b \<Longrightarrow> a sdiv b = a div b" for a b :: int
  by (cases "a = 0") (simp_all add: signed_divide_int_def)

lemma smod_pos [simp]: "0 \<le> a \<Longrightarrow> 0 < b \<Longrightarrow> a smod b = a mod b" for a b :: int
  by (cases "a = 0") (simp_all add: signed_modulo_int_def minus_div_mult_eq_mod)

lemma i64_Some [simp]: "i64 x = Some y \<longleftrightarrow> y = x \<and> - (2 ^ 63) \<le> x \<and> x < 2 ^ 63"
  by (auto simp: i64_def)

lemma calc_tokens:
  assumes inv: "tb_inv s" and p: "0 \<le> p" and c: "calc_tokens_to_add p s = Some (n, s')"
  shows "n * tb_timeUnit s + tb_timeAccumulated s' = tb_timeAccumulated s + tb_speed s * p"
    "0 \<le> n" "0 \<le> tb_timeAccumulated s'" "tb_timeAccumulated s' < tb_timeUnit s"
    "s' = s\<lparr>tb_timeAccumulated := tb_timeAccumulated s'\<rparr>"
proof -
  let ?u = "tb_timeUnit s" and ?a = "tb_timeAccumulated s + tb_timeRemainder s * p" and ?q = "tb_tokenPerTimeUnit s * p"
  have pos: "0 < ?u" "0 \<le> ?a" "0 \<le> ?q" using inv p by (auto simp: tb_inv_def)
  have "tb_speed s = tb_tokenPerTimeUnit s * ?u + tb_timeRemainder s" using inv by (simp add: tb_inv_def)
  then have sp: "tb_speed s * p = ?q * ?u + tb_timeRemainder s * p" by (simp add: algebra_simps)
  have r: "n = (if ?u \<le> ?a then ?q + ?a div ?u else ?q) \<and>
      s' = s\<lparr>tb_timeAccumulated := (if ?u \<le> ?a then ?a mod ?u else ?a)\<rparr>"
    using c pos by (auto simp: calc_tokens_to_add_def sdiv64_def smod64_def Option.bind_eq_Some_conv split: if_splits)
  have "?a div ?u * ?u + ?a mod ?u = ?a" by simp
  then show "n * ?u + tb_timeAccumulated s' = tb_timeAccumulated s + tb_speed s * p"
    using r sp by (auto simp: algebra_simps)
  show "0 \<le> n" using r pos by (simp add: pos_imp_zdiv_nonneg_iff)
  show "0 \<le> tb_timeAccumulated s'" "tb_timeAccumulated s' < ?u" "s' = s\<lparr>tb_timeAccumulated := tb_timeAccumulated s'\<rparr>"
    using r pos by auto
qed

lemma speed_nonneg: "tb_inv s \<Longrightarrow> 0 \<le> tb_speed s"
  unfolding tb_inv_def by (metis add_nonneg_nonneg less_imp_le mult_nonneg_nonneg)

lemma update_level:
  assumes inv: "tb_inv s" and ts: "tb_lastUpdateTs s \<le> ts" and u: "tb_update ts s = Some s'"
  shows "tb_inv s'" "same_conf s s'" "tb_lastUpdateTs s' = ts" "tb_currentResCount s \<le> tb_currentResCount s'"
    "level s' \<le> level s + tb_speed s * (ts - tb_lastUpdateTs s)"
proof -
  let ?p = "ts - tb_lastUpdateTs s"
  have "tb_inv s' \<and> same_conf s s' \<and> tb_lastUpdateTs s' = ts \<and> tb_currentResCount s \<le> tb_currentResCount s' \<and>
      level s' \<le> level s + tb_speed s * ?p"
  proof (cases "?p = 0 \<or> is_full s")
    case True
    have "0 \<le> tb_speed s" using inv by (rule speed_nonneg)
    then show ?thesis using True u inv ts
      by (auto simp: tb_update_def Option.bind_eq_Some_conv tb_inv_def same_conf_def level_def split: if_splits)
  next
    case False
    obtain n s1 where c: "calc_tokens_to_add ?p s = Some (n, s1)" and pt: "map_option (\<lambda>s. s\<lparr>tb_lastUpdateTs := ts\<rparr>) (put_tokens n s1) = Some s'"
      using u False by (auto simp: tb_update_def Option.bind_eq_Some_conv split: if_splits)
    have p: "0 \<le> ?p" using ts by simp
    note n = calc_tokens [OF inv p c]
    obtain a where a: "s1 = s\<lparr>tb_timeAccumulated := a\<rparr>" using n(5) by blast
    let ?c = "tb_currentResCount s + n"
    have s1: "tb_currentResCount s1 = tb_currentResCount s" "tb_maxResCnt s1 = tb_maxResCnt s" "same_conf s s1"
        "tb_tokenPerTimeUnit s1 = tb_tokenPerTimeUnit s" "tb_timeRemainder s1 = tb_timeRemainder s"
      by (simp_all add: a same_conf_def)
    have s': "s' = s1\<lparr>tb_currentResCount := min ?c (tb_maxResCnt s), tb_lastUpdateTs := ts\<rparr>"
      using pt s1 by (auto simp: put_tokens_def is_full_def Option.bind_eq_Some_conv Let_def min_def)
    have "min ?c (tb_maxResCnt s) * tb_timeUnit s \<le> ?c * tb_timeUnit s" using inv by (intro mult_right_mono) (auto simp: tb_inv_def)
    then have "level s' \<le> level s + tb_speed s * ?p"
      using n(1) s1 by (auto simp: s' level_def same_conf_def algebra_simps)
    then show ?thesis using n s1 inv by (auto simp: s' tb_inv_def same_conf_def)
  qed
  then show "tb_inv s'" "same_conf s s'" "tb_lastUpdateTs s' = ts" "tb_currentResCount s \<le> tb_currentResCount s'"
    "level s' \<le> level s + tb_speed s * ?p" by blast+
qed

text \<open>Without overflow there is always a result.\<close>

lemma update_defined:
  assumes inv: "tb_inv s" and ts: "0 \<le> tb_lastUpdateTs s" "tb_lastUpdateTs s \<le> ts" "ts < 2 ^ 63"
    and fit: "tb_maxResCnt s + tb_timeUnit s + tb_speed s * (ts - tb_lastUpdateTs s) < 2 ^ 63"
  shows "\<exists>s'. tb_update ts s = Some s'"
proof -
  let ?u = "tb_timeUnit s" and ?p = "ts - tb_lastUpdateTs s"
  let ?q = "tb_tokenPerTimeUnit s * ?p" and ?r = "tb_timeRemainder s * ?p"
  have pos: "0 < ?u" "0 \<le> ?q" "0 \<le> ?r" "0 \<le> tb_timeAccumulated s" "tb_timeAccumulated s < ?u" "0 \<le> tb_currentResCount s"
      "tb_currentResCount s \<le> tb_maxResCnt s"
    using inv ts(2) by (auto simp: tb_inv_def)
  have "tb_speed s = tb_tokenPerTimeUnit s * ?u + tb_timeRemainder s" using inv by (simp add: tb_inv_def)
  then have sp: "tb_speed s * ?p = ?q * ?u + ?r" by (simp add: algebra_simps)
  have "?q * 1 \<le> ?q * ?u" using pos(1,2) by (intro mult_left_mono) auto
  then have le: "?q + ?r \<le> tb_speed s * ?p" using sp by simp
  let ?a = "tb_timeAccumulated s + ?r"
  have d: "?a div ?u \<le> ?a" "0 \<le> ?a div ?u" using pos zdiv_mono2 [of ?a 1 ?u] by (simp_all add: pos_imp_zdiv_nonneg_iff)
  have c: "\<exists>n s1. calc_tokens_to_add ?p s = Some (n, s1) \<and> 0 \<le> n \<and> n \<le> ?q + ?a \<and>
      s1 = s\<lparr>tb_timeAccumulated := tb_timeAccumulated s1\<rparr>"
    using pos le d fit by (auto simp: calc_tokens_to_add_def sdiv64_def smod64_def i64_def)
  then obtain n a where "calc_tokens_to_add ?p s = Some (n, s\<lparr>tb_timeAccumulated := a\<rparr>)" "0 \<le> n" "n \<le> ?q + ?a" by auto
  then show ?thesis using pos le fit ts by (auto simp: tb_update_def put_tokens_def i64_def Let_def)
qed

subsection \<open>Rate\<close>

text \<open>A sequence of requests, each with the time it comes at and its weight, and what is granted in all.\<close>

fun tb_requests :: "(int \<times> u32) list \<Rightarrow> TokenBucketLimiter \<Rightarrow> (int \<times> TokenBucketLimiter) option" where
  "tb_requests [] s = Some (0, s)"
| "tb_requests ((ts, n) # rs) s = do {
     (ok, s) \<leftarrow> update_and_consume_tokens ts (uint n) s;
     (g, s) \<leftarrow> tb_requests rs s;
     Some ((if ok then uint n else 0) + g, s)
   }"

lemma consume_level:
  assumes "tb_inv s" "0 \<le> n" "consume_tokens n s = (ok, s')"
  shows "tb_inv s'" "same_conf s s'" "tb_lastUpdateTs s' = tb_lastUpdateTs s"
    "(if ok then n else 0) * tb_timeUnit s + level s' = level s"
  using assms by (auto simp: consume_tokens_def tb_inv_def same_conf_def level_def algebra_simps split: if_splits)

lemma requests_level:
  assumes "tb_inv s" "0 \<le> tb_lastUpdateTs s" "sorted (tb_lastUpdateTs s # map fst rs)"
    "t = last (tb_lastUpdateTs s # map fst rs)" "t < 2 ^ 63"
    "tb_maxResCnt s + tb_timeUnit s + tb_speed s * (t - tb_lastUpdateTs s) < 2 ^ 63"
  shows "\<exists>g s'. tb_requests rs s = Some (g, s') \<and> tb_inv s' \<and> same_conf s s' \<and>
    g * tb_timeUnit s + level s' \<le> level s + tb_speed s * (t - tb_lastUpdateTs s)"
  using assms
proof (induction rs arbitrary: s)
  case Nil
  then show ?case by (simp add: same_conf_def)
next
  case (Cons x rs)
  obtain ts n where x: "x = (ts, n)" by (cases x)
  have ord: "tb_lastUpdateTs s \<le> ts" "sorted (ts # map fst rs)" "t = last (ts # map fst rs)" using Cons.prems x by auto
  then have "ts \<le> t" by (metis last_in_set list.distinct(1) list.set_intros(1) set_ConsD sorted_simps(2) order_refl)
  have sp: "0 \<le> tb_speed s" by (rule speed_nonneg [OF Cons.prems(1)])
  have split: "tb_speed s * (t - tb_lastUpdateTs s) = tb_speed s * (ts - tb_lastUpdateTs s) + tb_speed s * (t - ts)"
    by (simp add: algebra_simps)
  have ge: "0 \<le> tb_speed s * (t - ts)" "0 \<le> tb_speed s * (ts - tb_lastUpdateTs s)" using sp \<open>ts \<le> t\<close> ord(1) by simp_all
  obtain s1 where u: "tb_update ts s = Some s1"
    using update_defined [OF Cons.prems(1,2) ord(1)] \<open>ts \<le> t\<close> Cons.prems(5,6) split ge by auto
  note l1 = update_level [OF Cons.prems(1) ord(1) u]
  obtain ok s2 where c: "consume_tokens (uint n) s1 = (ok, s2)" by (cases "consume_tokens (uint n) s1")
  note l2 = consume_level [OF l1(1) _ c]
  have conf: "tb_speed s2 = tb_speed s" "tb_timeUnit s2 = tb_timeUnit s" "tb_maxResCnt s2 = tb_maxResCnt s" "same_conf s s2"
      "tb_timeUnit s1 = tb_timeUnit s"
    using l1(2) l2(2) by (auto simp: same_conf_def)
  obtain g s' where r: "tb_requests rs s2 = Some (g, s')" "tb_inv s'" "same_conf s2 s'"
      "g * tb_timeUnit s + level s' \<le> level s2 + tb_speed s * (t - ts)"
    using Cons.IH [of s2] l2 l1(3) ord Cons.prems(2,5,6) conf split ge by auto
  have "same_conf s s'" using conf(4) r(3) by (simp add: same_conf_def)
  moreover have "((if ok then uint n else 0) + g) * tb_timeUnit s + level s' \<le> level s + tb_speed s * (t - tb_lastUpdateTs s)"
    using r(4) l2(4) l1(5) split conf(5) by (simp add: algebra_simps)
  ultimately show ?case using r(1,2) u c x by (simp add: update_and_consume_tokens_def)
qed

text \<open>C12: The token bucket keeps its rate: after any sequence of requests at times that do not go back,
  the tokens granted are at most the speed times the time that has passed, divided by the time unit, and
  the level stays between zero and the capacity.  No request overflows as long as capacity, time unit
  and the tokens of the whole period fit in 63 bits.\<close>

theorem token_bucket_rate:
  assumes "0 < unit" "0 \<le> capacity" "0 \<le> t0" "sorted (t0 # map fst rs)" "last (t0 # map fst rs) < 2 ^ 63"
    "capacity + unit + uint speed * (last (t0 # map fst rs) - t0) < 2 ^ 63"
  shows "\<exists>s granted s'. TokenBucketLimiter_ctor3 g capacity speed unit t0 = Some s \<and> tb_requests rs s = Some (granted, s') \<and>
    granted * unit \<le> uint speed * (last (t0 # map fst rs) - t0) \<and>
    0 \<le> tb_currentResCount s' \<and> tb_currentResCount s' \<le> capacity"
proof -
  have "uint speed div unit \<le> uint speed" "0 \<le> uint speed div unit"
    using assms(1) zdiv_mono2 [of "uint speed" 1 unit] by (simp_all add: pos_imp_zdiv_nonneg_iff)
  moreover have "uint speed < 2 ^ 32" using unsigned_less [of speed, where 'a = int] by simp
  ultimately obtain s where s: "TokenBucketLimiter_ctor3 g capacity speed unit t0 = Some s" "tb_inv s" "level s = 0"
      "tb_lastUpdateTs s = t0" "tb_timeUnit s = unit" "tb_maxResCnt s = capacity" "tb_speed s = uint speed"
    using assms(1,2)
    by (auto simp: TokenBucketLimiter_ctor3_def tb_initialize_def sdiv64_def smod64_def i64_def tb_inv_def level_def)
  then obtain granted s' where r: "tb_requests rs s = Some (granted, s')" "tb_inv s'" "same_conf s s'"
      "granted * unit + level s' \<le> uint speed * (last (t0 # map fst rs) - t0)"
    using requests_level [of s rs "last (t0 # map fst rs)"] assms by auto
  have "0 \<le> level s'" using r(2) by (auto simp: tb_inv_def level_def)
  then show ?thesis using s r by (auto simp: tb_inv_def same_conf_def)
qed

theorem token_bucket_rate_witness:
  "\<exists>s granted s'. TokenBucketLimiter_ctor3 \<lparr>tb_lastUpdateTs = 7, tb_tokenPerTimeUnit = 7, tb_timeRemainder = 7, tb_timeAccumulated = 7,
      tb_pRWT = None, tb_maxResCnt = 7, tb_currentResCount = 7, tb_speed = 7, tb_timeUnit = 7, tb_sName = [], tb_bSkipped = True\<rparr>
      5 7 3 100 = Some s \<and> tb_requests [(101, 1), (102, 3), (102, 2)] s = Some (granted, s') \<and> granted * 3 \<le> 14 \<and>
    0 \<le> tb_currentResCount s' \<and> tb_currentResCount s' \<le> 5"
  using token_bucket_rate [of 3 5 100 "[(101, 1), (102, 3), (102, 2)]" 7] by simp

end
