(* ===== verification/RlcProps.thy ===== *)
theory RlcProps
  imports LimiterProps
begin

text \<open>
  The control asks its granters in turn and undoes what it took when one refuses.  The contract of a
  granter, the token bucket as a granter, and what the comparison with the deadline does.
\<close>

subsection \<open>Granters\<close>

text \<open>
  \<open>ready g clk\<close>: the granter is in order and the readings \<open>clk\<close> of the clock do not go back; \<open>holds\<close>
  is what it can still grant.
\<close>

locale igranter =
  fixes grant :: "'g \<Rightarrow> int list \<Rightarrow> (bool \<times> 'g \<times> int list) option"
    and give :: "'g \<Rightarrow> 'g option"
    and ready :: "'g \<Rightarrow> int list \<Rightarrow> bool"
    and holds :: "'g \<Rightarrow> int"
  assumes grant_suffix: "grant g clk = Some (ok, g', clk') \<Longrightarrow> suffix clk' clk"
    and ready_suffix: "ready g clk \<Longrightarrow> suffix clk' clk \<Longrightarrow> ready g clk'"
    and refused: "ready g clk \<Longrightarrow> grant g clk = Some (False, g', clk') \<Longrightarrow> holds g \<le> holds g'"
    and given_back: "ready g clk \<Longrightarrow> grant g clk = Some (True, g', clk') \<Longrightarrow> \<exists>g''. give g' = Some g'' \<and> holds g \<le> holds g''"
begin

lemma ask_then_give:
  assumes "\<forall>g \<in> set gs. ready g clk" "ask_granters grant gs clk = Some (ok, asked, rest, clk')"
  shows "\<exists>asked'. give_back_all give asked = Some asked' \<and> (\<not> ok \<longrightarrow> list_all2 (\<lambda>g g'. holds g \<le> holds g') gs (asked' @ rest))"
  using assms
proof (induction gs arbitrary: clk ok asked rest clk')
  case Nil
  then show ?case by simp
next
  case (Cons g gs)
  obtain ok1 g1 clk1 where g: "grant g clk = Some (ok1, g1, clk1)"
    using Cons.prems(2) by (auto simp: Option.bind_eq_Some_conv)
  show ?case
  proof (cases ok1)
    case False
    then have "holds g \<le> holds g1" using refused [of g clk g1 clk1] Cons.prems(1) g by simp
    then show ?thesis using Cons.prems(2) g False by (auto simp: list.rel_refl)
  next
    case True
    obtain asked1 where a: "ask_granters grant gs clk1 = Some (ok, asked1, rest, clk')" "asked = g1 # asked1"
      using Cons.prems(2) g True by (auto simp: Option.bind_eq_Some_conv)
    have "\<forall>g \<in> set gs. ready g clk1" using Cons.prems(1) ready_suffix grant_suffix [OF g] by auto
    from Cons.IH [OF this a(1)] obtain asked' where
      "give_back_all give asked1 = Some asked'" "\<not> ok \<longrightarrow> list_all2 (\<lambda>g g'. holds g \<le> holds g') gs (asked' @ rest)" by blast
    moreover obtain g2 where "give g1 = Some g2" "holds g \<le> holds g2"
      using given_back [of g clk g1 clk1] Cons.prems(1) g True by auto
    ultimately show ?thesis using a(2) by simp
  qed
qed

lemma rlc_refusal:
  assumes "\<not> rl_bSkipped r" "rl_iGrantersCnt r \<noteq> 0" "\<forall>g \<in> set (rl_vGranters r). ready g clk"
    "ask_granters grant (take (unat (rl_iGrantersCnt r)) (rl_vGranters r)) clk = Some (False, asked, rest, clk')"
  shows "\<exists>r'. SimpleRlc_GrantUntil grant give r clk = Some (False, r', clk') \<and>
    list_all2 (\<lambda>g g'. holds g \<le> holds g') (rl_vGranters r) (rl_vGranters r')"
proof -
  let ?n = "unat (rl_iGrantersCnt r)" and ?gs = "rl_vGranters r"
  have "\<forall>g \<in> set (take ?n ?gs). ready g clk" using assms(3) by (meson in_set_takeD)
  from ask_then_give [OF this assms(4)] obtain asked' where a: "give_back_all give asked = Some asked'"
      "list_all2 (\<lambda>g g'. holds g \<le> holds g') (take ?n ?gs) (asked' @ rest)" by blast
  then have "list_all2 (\<lambda>g g'. holds g \<le> holds g') (take ?n ?gs @ drop ?n ?gs) ((asked' @ rest) @ drop ?n ?gs)"
    by (intro list_all2_appendI) (auto simp: list.rel_refl)
  then show ?thesis using assms(1,2,4) a(1) by (simp add: SimpleRlc_GrantUntil_def Let_def)
qed

end

subsection \<open>The token bucket is a granter\<close>

definition tb_ready :: "TokenBucketLimiter \<Rightarrow> int list \<Rightarrow> bool" where
  "tb_ready s clk \<longleftrightarrow> tb_inv s \<and> tb_maxResCnt s < 2 ^ 62 \<and> sorted (tb_lastUpdateTs s # clk)"

lemma consumed:
  assumes "tb_ready s (now # clk)" "0 \<le> w" "update_and_consume_tokens now w s = Some (ok, s')"
  shows "tb_ready s' clk" "same_conf s s'" "tb_currentResCount s \<le> tb_currentResCount s' + (if ok then w else 0)"
proof -
  have r: "tb_inv s" "tb_lastUpdateTs s \<le> now" "sorted (now # clk)" "tb_maxResCnt s < 2 ^ 62"
    using assms(1) by (auto simp: tb_ready_def)
  obtain s1 where u: "tb_update now s = Some s1" and c: "consume_tokens w s1 = (ok, s')"
    using assms(3) by (auto simp: update_and_consume_tokens_def)
  note l1 = update_level [OF r(1,2) u] and l2 = consume_level [OF _ assms(2) c]
  show "tb_ready s' clk" using l1 l2 r by (simp add: tb_ready_def same_conf_def)
  show "same_conf s s'" using l1(1,2) l2(2) by (simp add: same_conf_def)
  show "tb_currentResCount s \<le> tb_currentResCount s' + (if ok then w else 0)"
    using l1(4) c by (auto simp: consume_tokens_def split: if_splits)
qed

lemma loop_cases:
  assumes "GrantUntil_loop d w s clk = Some (ok, s', clk')"
  obtains t where "ok = False" "s' = s" "clk = t # clk'"
  | t now clk1 ok1 s1 where "clk = t # now # clk1" "update_and_consume_tokens now w s = Some (ok1, s1)"
    "(if ok1 then Some (True, s1, clk1) else GrantUntil_loop d w s1 clk1) = Some (ok, s', clk')"
proof (cases clk)
  case (Cons t clk0)
  show ?thesis
  proof (cases "(ok, s', clk') = (False, s, clk0)")
    case True
    then show ?thesis using that(1) Cons by simp
  next
    case False
    then obtain now clk1 ok1 s1 where "clk0 = now # clk1" "update_and_consume_tokens now w s = Some (ok1, s1)"
        "(if ok1 then Some (True, s1, clk1) else GrantUntil_loop d w s1 clk1) = Some (ok, s', clk')"
      using assms Cons by (auto simp: Option.bind_eq_Some_conv split: if_splits list.splits)
    then show ?thesis using that(2) Cons by blast
  qed
qed (use assms in simp)

lemma loop_suffix: "GrantUntil_loop d w s clk = Some (ok, s', clk') \<Longrightarrow> suffix clk' clk"
proof (induction clk arbitrary: s rule: length_induct)
  case (1 clk)
  from 1(2) show ?case
  proof (cases rule: loop_cases)
    case (2 t now clk1 ok1 s1)
    then show ?thesis using 1(1) [rule_format, of clk1 s1] by (cases ok1) (auto intro!: suffix_ConsI)
  qed (simp add: suffix_ConsI)
qed

lemma loop_level:
  assumes "tb_ready s clk" "0 \<le> w" "GrantUntil_loop d w s clk = Some (ok, s', clk')"
  shows "tb_inv s' \<and> same_conf s s' \<and> tb_currentResCount s \<le> tb_currentResCount s' + (if ok then w else 0)"
  using assms
proof (induction clk arbitrary: s rule: length_induct)
  case (1 clk)
  from 1(4) show ?case
  proof (cases rule: loop_cases)
    case (1 t)
    then show ?thesis using \<open>tb_ready s clk\<close> by (simp add: tb_ready_def same_conf_def)
  next
    case (2 t now clk1 ok1 s1)
    have "tb_ready s (now # clk1)" using \<open>tb_ready s clk\<close> 2(1) by (auto simp: tb_ready_def)
    note c = consumed [OF this assms(2) 2(2)]
    show ?thesis
    proof (cases ok1)
      case True
      then show ?thesis using 2(3) c by (auto simp: tb_ready_def)
    next
      case False
      then have "tb_inv s' \<and> same_conf s1 s' \<and> tb_currentResCount s1 \<le> tb_currentResCount s' + (if ok then w else 0)"
        using 1(1) [rule_format, of clk1 s1] 2(1,3) c(1) assms(2) by simp
      then show ?thesis using False c(2,3) by (auto simp: same_conf_def)
    qed
  qed
qed

lemma grant_cases:
  assumes "GrantUntil d rt s clk = Some (ok, s', clk')"
  obtains "s' = s" "suffix clk' clk" "ok \<longrightarrow> tb_bSkipped s \<or> (\<exists>rwt. tb_pRWT s = Some rwt \<and> GetWeight rt rwt = 0)"
  | t now clk1 ok1 s1 rwt where "clk = t # now # clk1" "\<not> tb_bSkipped s" "tb_pRWT s = Some rwt" "0 < uint (GetWeight rt rwt)"
    "update_and_consume_tokens now (uint (GetWeight rt rwt)) s = Some (ok1, s1)"
    "(if ok1 then Some (True, s1, clk1) else GrantUntil_loop d (uint (GetWeight rt rwt)) s1 clk1) = Some (ok, s', clk')"
proof (cases "tb_bSkipped s \<or> s' = s \<and> suffix clk' clk \<and> (ok \<longrightarrow> (\<exists>rwt. tb_pRWT s = Some rwt \<and> GetWeight rt rwt = 0))")
  case True
  then show ?thesis using assms that(1) by (auto simp: GrantUntil_def)
next
  case False
  then obtain t now clk1 ok1 s1 rwt where "clk = t # now # clk1" "tb_pRWT s = Some rwt" "uint (GetWeight rt rwt) \<noteq> 0"
      "update_and_consume_tokens now (uint (GetWeight rt rwt)) s = Some (ok1, s1)"
      "(if ok1 then Some (True, s1, clk1) else GrantUntil_loop d (uint (GetWeight rt rwt)) s1 clk1) = Some (ok, s', clk')"
    using assms
    by (auto simp: GrantUntil_def Let_def Option.bind_eq_Some_conv suffix_ConsI uint_0_iff split: if_splits list.splits option.splits)
  then show ?thesis using that(2) False by (metis order_less_le unsigned_greater_eq)
qed

lemma grant_level:
  assumes r: "tb_ready s clk" and g: "GrantUntil d rt s clk = Some (ok, s', clk')"
  shows "tb_inv s' \<and> same_conf s s' \<and> tb_maxResCnt s < 2 ^ 62 \<and>
    (\<not> ok \<longrightarrow> tb_currentResCount s \<le> tb_currentResCount s') \<and>
    (ok \<longrightarrow> tb_bSkipped s \<and> s' = s \<or> (\<exists>rwt. \<not> tb_bSkipped s \<and> tb_pRWT s = Some rwt \<and> tb_currentResCount s \<le> tb_currentResCount s' + uint (GetWeight rt rwt)))"
  using g
proof (cases rule: grant_cases)
  case 1
  then show ?thesis using r by (auto simp: tb_ready_def same_conf_def)
next
  case (2 t now clk1 ok1 s1 rwt)
  have "tb_ready s (now # clk1)" using r 2(1) by (auto simp: tb_ready_def)
  note c = consumed [OF this less_imp_le [OF 2(4)] 2(5)]
  show ?thesis
  proof (cases ok1)
    case True
    then show ?thesis using 2(2,3,6) c r by (auto simp: tb_ready_def)
  next
    case False
    then show ?thesis using loop_level [OF c(1) less_imp_le [OF 2(4)]] 2(2,3,6) c r
      by (fastforce simp: tb_ready_def same_conf_def)
  qed
qed

interpretation tbg: igranter "GrantUntil d rt" "GiveBack rt" tb_ready tb_currentResCount for d rt
proof
  fix g clk ok g' clk'
  assume "GrantUntil d rt g clk = Some (ok, g', clk')"
  then show "suffix clk' clk"
  proof (cases rule: grant_cases)
    case (2 t now clk1 ok1 s1 rwt)
    then show ?thesis using loop_suffix by (auto intro!: suffix_ConsI split: if_splits)
  qed
next
  fix g clk clk'
  assume "tb_ready g clk" "suffix clk' clk"
  then show "tb_ready g clk'" by (auto simp: tb_ready_def suffix_def sorted_append)
next
  fix g clk g' clk'
  assume "tb_ready g clk" "GrantUntil d rt g clk = Some (False, g', clk')"
  then show "tb_currentResCount g \<le> tb_currentResCount g'" using grant_level by blast
next
  fix g clk g' clk'
  assume a: "tb_ready g clk" "GrantUntil d rt g clk = Some (True, g', clk')"
  have l: "tb_inv g'" "same_conf g g'" "tb_maxResCnt g < 2 ^ 62"
      "tb_bSkipped g \<and> g' = g \<or> (\<exists>rwt. \<not> tb_bSkipped g \<and> tb_pRWT g = Some rwt \<and> tb_currentResCount g \<le> tb_currentResCount g' + uint (GetWeight rt rwt))"
    using grant_level [OF a] by auto
  from l(4) show "\<exists>g''. GiveBack rt g' = Some g'' \<and> tb_currentResCount g \<le> tb_currentResCount g''"
  proof
    assume "tb_bSkipped g \<and> g' = g"
    then show ?thesis by (simp add: GiveBack_def)
  next
    assume "\<exists>rwt. \<not> tb_bSkipped g \<and> tb_pRWT g = Some rwt \<and> tb_currentResCount g \<le> tb_currentResCount g' + uint (GetWeight rt rwt)"
    then obtain rwt where w: "\<not> tb_bSkipped g'" "tb_pRWT g' = Some rwt" "tb_currentResCount g \<le> tb_currentResCount g' + uint (GetWeight rt rwt)"
      using l(2) by (auto simp: same_conf_def)
    define x where "x = uint (GetWeight rt rwt)"
    have "0 \<le> x" "x < 2 ^ 62" using unsigned_less [of "GetWeight rt rwt", where 'a = int] by (simp_all add: x_def)
    moreover have "tb_currentResCount g' \<le> tb_maxResCnt g'" "0 \<le> tb_currentResCount g'" "tb_maxResCnt g' < 2 ^ 62"
      using l(1-3) by (auto simp: tb_inv_def same_conf_def)
    ultimately have "i64 (tb_currentResCount g' + x) = Some (tb_currentResCount g' + x)" by simp
    moreover have "tb_currentResCount g \<le> tb_maxResCnt g'" using a(1) l(2) by (auto simp: tb_ready_def tb_inv_def same_conf_def)
    ultimately show ?thesis using w by (simp add: x_def i64_def GiveBack_def put_tokens_def is_full_def Let_def)
  qed
qed

text \<open>
  A limiter that has both its rate and its weights.  No constructor of the source gives both: Init sets
  the weights and leaves the rate, the other constructor the reverse.
\<close>

lemmas tb_refusal_costs_nothing = tbg.rlc_refusal

subsection \<open>The control\<close>

lemma ask_all:
  assumes "\<forall>i < length gs. grant (gs ! i) (c i) = Some (True, g1 i, c (Suc i))"
  shows "ask_granters grant (gs @ hs) (c 0) =
    map_option (\<lambda>(ok, asked, rest, clk). (ok, map g1 [0..<length gs] @ asked, rest, clk)) (ask_granters grant hs (c (length gs)))"
  using assms
proof (induction gs arbitrary: c g1)
  case Nil
  then show ?case by (simp add: map_option_case split: option.split)
next
  case (Cons g gs)
  have "ask_granters grant (gs @ hs) (c 1) =
      map_option (\<lambda>(ok, asked, rest, clk). (ok, map (\<lambda>i. g1 (Suc i)) [0..<length gs] @ asked, rest, clk))
        (ask_granters grant hs (c (Suc (length gs))))"
    using Cons.IH [of "\<lambda>i. c (Suc i)" "\<lambda>i. g1 (Suc i)"] Cons.prems by fastforce
  moreover have "grant g (c 0) = Some (True, g1 0, c 1)" using Cons.prems by force
  moreover have "map g1 [0..<length (g # gs)] = g1 0 # map (\<lambda>i. g1 (Suc i)) [0..<length gs]"
    by (simp add: upt_conv_Cons map_Suc_upt [symmetric] comp_def del: upt_Suc)
  ultimately show ?case by (cases "ask_granters grant hs (c (Suc (length gs)))") (auto simp del: upt_Suc)
qed

lemma give_back_map: "\<forall>i \<in> set is. give (g1 i) = Some (g2 i) \<Longrightarrow> give_back_all give (map g1 is) = Some (map g2 is)"
  by (induction "is") simp_all

text \<open>C16: The control is all or nothing, for granters of any kind.  When the first j granters grant and
  can take back what they granted, then with j the number of granters the request is granted and each of
  them was asked once; and when granter j refuses, the request is refused, each of the j granters has been
  given back exactly its own grant, granter j is as its refusal left it, and the granters behind it have
  not been asked.\<close>

theorem rlc_all_or_nothing:
  assumes "\<not> rl_bSkipped r" "n = unat (rl_iGrantersCnt r)" "0 < n" "n \<le> length (rl_vGranters r)"
    and "\<forall>i < j. grant (rl_vGranters r ! i) (c i) = Some (True, g1 i, c (Suc i)) \<and> give (g1 i) = Some (g2 i)"
  shows "(j = n \<longrightarrow> SimpleRlc_GrantUntil grant give r (c 0) =
      Some (True, r\<lparr>rl_vGranters := map g1 [0..<n] @ drop n (rl_vGranters r)\<rparr>, c n)) \<and>
    (j < n \<and> grant (rl_vGranters r ! j) (c j) = Some (False, g', clk') \<longrightarrow> SimpleRlc_GrantUntil grant give r (c 0) =
      Some (False, r\<lparr>rl_vGranters := map g2 [0..<j] @ g' # drop (Suc j) (rl_vGranters r)\<rparr>, clk'))"
proof (intro conjI impI)
  let ?gs = "rl_vGranters r"
  have cnt: "rl_iGrantersCnt r \<noteq> 0" using assms(2,3) by auto
  have ask: "ask_granters grant (take j ?gs @ hs) (c 0) =
      map_option (\<lambda>(ok, asked, rest, clk). (ok, map g1 [0..<j] @ asked, rest, clk)) (ask_granters grant hs (c j))" if "j \<le> n" for hs
    using ask_all [of "take j ?gs" grant c g1 hs] assms(4,5) that by simp
  show "SimpleRlc_GrantUntil grant give r (c 0) = Some (True, r\<lparr>rl_vGranters := map g1 [0..<n] @ drop n ?gs\<rparr>, c n)" if "j = n"
    using ask [of "[]"] that assms(1,2) cnt by (simp add: SimpleRlc_GrantUntil_def Let_def)
  assume j: "j < n \<and> grant (?gs ! j) (c j) = Some (False, g', clk')"
  then have "take n ?gs = take j ?gs @ ?gs ! j # drop (Suc j) (take n ?gs)" using id_take_nth_drop [of j "take n ?gs"] assms(4) by (simp add: min_absorb1)
  then have "ask_granters grant (take n ?gs) (c 0) = Some (False, map g1 [0..<j], g' # drop (Suc j) (take n ?gs), clk')"
    using ask [of "?gs ! j # drop (Suc j) (take n ?gs)"] j by simp
  moreover have "give_back_all give (map g1 [0..<j]) = Some (map g2 [0..<j])" using assms(5) by (intro give_back_map) simp
  moreover have "drop (Suc j) (take n ?gs) @ drop n ?gs = drop (Suc j) ?gs"
    using j assms(4) drop_append [of "Suc j" "take n ?gs" "drop n ?gs"] by simp
  ultimately show "SimpleRlc_GrantUntil grant give r (c 0) = Some (False, r\<lparr>rl_vGranters := map g2 [0..<j] @ g' # drop (Suc j) ?gs\<rparr>, clk')"
    using assms(1,2) cnt by (simp add: SimpleRlc_GrantUntil_def Let_def)
qed

text \<open>Two limiters, the second one empty.\<close>

definition demo_tb :: "string \<Rightarrow> int \<Rightarrow> TokenBucketLimiter" where
  "demo_tb name n = \<lparr>tb_lastUpdateTs = 100, tb_tokenPerTimeUnit = 0, tb_timeRemainder = 1, tb_timeAccumulated = 0,
     tb_pRWT = Some [(RPut, 2)], tb_maxResCnt = 10, tb_currentResCount = n, tb_speed = 1, tb_timeUnit = 1000, tb_sName = name,
     tb_bSkipped = False\<rparr>"

definition demo_rlc :: "TokenBucketLimiter SimpleRlc" where
  "demo_rlc = \<lparr>rl_bSkipped = False, rl_vGranters = [demo_tb ''a'' 5, demo_tb ''b'' 0], rl_iGrantersCnt = 2\<rparr>"

text \<open>The witness: the first limiter grants two tokens at 101 and takes them back, the second refuses after its deadline.\<close>

theorem rlc_all_or_nothing_witness:
  "SimpleRlc_GrantUntil (GrantUntil 99 RPut) (GiveBack RPut) demo_rlc [100, 101, 102, 103, 104] =
    Some (False, demo_rlc\<lparr>rl_vGranters := [demo_tb ''a'' 5\<lparr>tb_lastUpdateTs := 101, tb_timeAccumulated := 1\<rparr>,
      demo_tb ''b'' 0\<lparr>tb_lastUpdateTs := 103, tb_timeAccumulated := 3\<rparr>]\<rparr>, [])"
proof -
  let ?c = "\<lambda>i. if i = 0 then [100, 101, 102, 103, 104] else [102, 103, 104 :: int]"
  let ?a = "\<lambda>n. demo_tb ''a'' n\<lparr>tb_lastUpdateTs := 101, tb_timeAccumulated := 1\<rparr>"
  have "GrantUntil 99 RPut (demo_tb ''a'' 5) [100, 101, 102, 103, 104] = Some (True, ?a 3, [102, 103, 104])"
    "GiveBack RPut (?a 3) = Some (?a 5)"
    "GrantUntil 99 RPut (demo_tb ''b'' 0) [102, 103, 104] = Some (False, demo_tb ''b'' 0\<lparr>tb_lastUpdateTs := 103, tb_timeAccumulated := 3\<rparr>, [])"
    by code_simp+
  then show ?thesis
    using rlc_all_or_nothing [of demo_rlc 2 1 "GrantUntil 99 RPut" ?c "\<lambda>_. ?a 3" "GiveBack RPut" "\<lambda>_. ?a 5"
        "demo_tb ''b'' 0\<lparr>tb_lastUpdateTs := 103, tb_timeAccumulated := 3\<rparr>" "[]"]
    by (simp add: demo_rlc_def)
qed

lemma SimpleRlc_add_spec:
  "SimpleRlc_add gs cs vs = Inr (True, vs') \<Longrightarrow> \<exists>ws. vs' = vs @ ws \<and> list_all2 (\<lambda>c s. tb_bSkipped s = tc_Skip c) cs ws"
proof (induction gs cs vs rule: SimpleRlc_add.induct)
  case (2 gs c cs vs)
  let ?pg = "TokenBucketLimiter_Init c (TokenBucketLimiter_ctor (gs (length vs)) 1000000000)"
  have t: "tc_Type c = TOKEN_BUCKET" "\<not> contains_granter ?pg vs" "SimpleRlc_add gs cs (vs @ [?pg]) = Inr (True, vs')"
    using 2(2) by (cases "tc_Type c"; auto simp: Let_def split: if_splits)+
  then obtain ws where "vs' = (vs @ [?pg]) @ ws" "list_all2 (\<lambda>c s. tb_bSkipped s = tc_Skip c) cs ws"
    using 2(1) [OF t(1) refl t(2,3)] by blast
  then show ?case by (intro exI [of _ "?pg # ws"]) (simp add: TokenBucketLimiter_Init_def)
qed simp

text \<open>C38: The comparison with the deadline is the wrong way round: a control made from any configuration
  that skips nothing and has at least one and fewer than 256 limiters refuses every request whose
  deadline has not passed yet, whatever its limiters hold, and asks no limiter for tokens.\<close>

theorem rlc_refuses_before_deadline:
  assumes "SimpleRlc_Init gs False confs \<lparr>rl_bSkipped = False, rl_vGranters = [], rl_iGrantersCnt = 0\<rparr> = Inr (True, r)"
    "confs \<noteq> []" "length confs < 256" "\<forall>c \<in> set confs. \<not> tc_Skip c" "now \<le> deadline"
  shows "SimpleRlc_GrantUntil (GrantUntil deadline rt) (GiveBack rt) r (now # clk) = Some (False, r, clk)"
proof -
  obtain vs where add: "SimpleRlc_add gs confs [] = Inr (True, vs)"
      and r: "r = \<lparr>rl_bSkipped = False, rl_vGranters = vs, rl_iGrantersCnt = word_of_nat (length vs)\<rparr>"
    using assms(1) by (auto simp: SimpleRlc_Init_def split: sum.splits if_splits)
  have l: "list_all2 (\<lambda>c s. tb_bSkipped s = tc_Skip c) confs vs" using SimpleRlc_add_spec [OF add] by auto
  then have len: "length vs = length confs" by (simp add: list_all2_lengthD)
  obtain v vs' where v: "vs = v # vs'" using assms(2) len by (cases vs) auto
  have "\<not> tb_bSkipped v" using l assms(2,4) v by (cases confs) auto
  then have g: "GrantUntil deadline rt v (now # clk) = Some (False, v, clk)" using assms(5) by (simp add: GrantUntil_def)
  have n: "unat (word_of_nat (length vs) :: byte) = length vs" using len assms(3) by (simp add: unat_of_nat)
  have "(word_of_nat (length vs) :: byte) \<noteq> 0" using n v by (metis length_0_conv list.distinct(1) unsigned_0)
  then show ?thesis using g v n by (simp add: SimpleRlc_GrantUntil_def r Let_def)
qed

theorem rlc_refuses_before_deadline_witness:
  "\<exists>r. SimpleRlc_Init (\<lambda>_. demo_tb [] 0) False [\<lparr>tc_Type = TOKEN_BUCKET, tc_Name = ''qps'', tc_Skip = False, tc_MaxSize = 100,
      tc_Speed = 1000, tc_Rwt = \<lparr>rw_Put = 1, rw_Get = 1, rw_Delete = 1, rw_Scan = 1\<rparr>\<rparr>]
      \<lparr>rl_bSkipped = False, rl_vGranters = [], rl_iGrantersCnt = 0\<rparr> = Inr (True, r) \<and>
    SimpleRlc_GrantUntil (GrantUntil 200 RGet) (GiveBack RGet) r [100, 101] = Some (False, r, [101])"
proof -
  let ?c = "\<lparr>tc_Type = TOKEN_BUCKET, tc_Name = ''qps'', tc_Skip = False, tc_MaxSize = 100, tc_Speed = 1000,
      tc_Rwt = \<lparr>rw_Put = 1, rw_Get = 1, rw_Delete = 1, rw_Scan = 1\<rparr>\<rparr>"
  obtain r where r: "SimpleRlc_Init (\<lambda>_. demo_tb [] 0) False [?c] \<lparr>rl_bSkipped = False, rl_vGranters = [], rl_iGrantersCnt = 0\<rparr> = Inr (True, r)"
    by (simp add: SimpleRlc_Init_def Let_def)
  then show ?thesis using rlc_refuses_before_deadline [OF r, of 100 200 RGet "[101]"] by simp
qed

text \<open>Only the weight of Put is ever set, four times, and ends up as that of Scan.\<close>

lemma RwtConfig_Parse_sets_put_only:
  "RwtConfig_Parse obj c = Some c' \<Longrightarrow>
    \<exists>item. cJSON_GetObjectItem obj ''scan'' = Some item \<and> c' = c\<lparr>rw_Put := word_of_int (cj_valueint item)\<rparr>"
  by (auto simp: RwtConfig_Parse_def Option.bind_eq_Some_conv Let_def)

end
