(* ===== verification/BlockingQueue.thy ===== *)
theory BlockingQueue
  imports Prelude "HOL-Library.Multiset"
begin

text \<open>
  common/blocking-queue.h: the queue that producers and consumers share.  Each method holds the mutex
  from its first line to its last, except while it waits for the condition variable: it is one step, or
  a step that ends in waiting and is tried again after a wake-up.  A notification wakes any one of the
  waiting threads, and a thread may wake up without one.
\<close>

subsection \<open>Methods\<close>

record 'a BlockingQueue =
  bq_iQueueMaxSize :: u32
  bq_queue :: "'a list"

datatype wake = NoWake | NotifyOne | NotifyAll

definition BlockingQueue_ctor :: "u32 \<Rightarrow> 'a BlockingQueue" where
  "BlockingQueue_ctor n = \<lparr>bq_iQueueMaxSize = n, bq_queue = []\<rparr>"

definition bq_full :: "'a BlockingQueue \<Rightarrow> bool" where
  "bq_full q = (bq_iQueueMaxSize q \<noteq> 0 \<and> length (bq_queue q) \<ge> unat (bq_iQueueMaxSize q))"

definition bq_TryPop :: "'a BlockingQueue \<Rightarrow> 'a option \<times> wake \<times> 'a BlockingQueue" where
  "bq_TryPop q =
    (case bq_queue q of
       [] \<Rightarrow> (None, NoWake, q)
     | item # rest \<Rightarrow> (Some item, if bq_iQueueMaxSize q \<noteq> 0 then NotifyOne else NoWake, q\<lparr>bq_queue := rest\<rparr>))"

text \<open>None: the thread waits.\<close>

definition bq_Pop :: "'a BlockingQueue \<Rightarrow> ('a \<times> wake \<times> 'a BlockingQueue) option" where
  "bq_Pop q =
    (case bq_queue q of
       [] \<Rightarrow> None
     | item # rest \<Rightarrow> Some (item, if bq_iQueueMaxSize q \<noteq> 0 then NotifyOne else NoWake, q\<lparr>bq_queue := rest\<rparr>))"

definition bq_TryPush :: "'a \<Rightarrow> 'a BlockingQueue \<Rightarrow> bool \<times> wake \<times> 'a BlockingQueue" where
  "bq_TryPush item q =
    (if bq_full q then (False, NoWake, q) else (True, NotifyOne, q\<lparr>bq_queue := bq_queue q @ [item]\<rparr>))"

definition bq_Push :: "'a \<Rightarrow> 'a BlockingQueue \<Rightarrow> (wake \<times> 'a BlockingQueue) option" where
  "bq_Push item q = (if bq_full q then None else Some (NotifyOne, q\<lparr>bq_queue := bq_queue q @ [item]\<rparr>))"

definition bq_Empty :: "'a BlockingQueue \<Rightarrow> bool" where
  "bq_Empty q = (bq_queue q = [])"

definition bq_Size :: "'a BlockingQueue \<Rightarrow> u64" where
  "bq_Size q = word_of_nat (length (bq_queue q))"

definition bq_Clear :: "'a BlockingQueue \<Rightarrow> wake \<times> 'a BlockingQueue" where
  "bq_Clear q = (NotifyAll, q\<lparr>bq_queue := []\<rparr>)"

subsection \<open>Threads\<close>

text \<open>
  A thread has the calls it still makes, the one it waits in being the first, and what it received.
  The history of the queue is what went in and what came out.
\<close>

datatype 'a call = Pop | TryPop | Push 'a | TryPush 'a | Clear

record 'a thread =
  th_calls :: "'a call list"
  th_waits :: bool
  th_got :: "'a list"

record 'a shared =
  sh_queue :: "'a BlockingQueue"
  sh_threads :: "'a thread list"
  sh_in :: "'a list"
  sh_out :: "'a list"

text \<open>The first call of a thread, with the lock: what goes in, what comes out, what the thread gets.\<close>

fun run_call :: "'a call \<Rightarrow> 'a BlockingQueue \<Rightarrow> ('a list \<times> 'a list \<times> 'a list \<times> wake \<times> 'a BlockingQueue) option" where
  "run_call Pop q = map_option (\<lambda>(x, w, q). ([], [x], [x], w, q)) (bq_Pop q)"
| "run_call TryPop q = (case bq_TryPop q of (None, w, q) \<Rightarrow> Some ([], [], [], w, q) | (Some x, w, q) \<Rightarrow> Some ([], [x], [x], w, q))"
| "run_call (Push x) q = map_option (\<lambda>(w, q). ([x], [], [], w, q)) (bq_Push x q)"
| "run_call (TryPush x) q = (case bq_TryPush x q of (ok, w, q) \<Rightarrow> Some (if ok then [x] else [], [], [], w, q))"
| "run_call Clear q = (case bq_Clear q of (w, q') \<Rightarrow> Some ([], bq_queue q, [], w, q'))"

definition waiting :: "'a thread list \<Rightarrow> nat set" where
  "waiting ts = {i. i < length ts \<and> th_waits (ts ! i)}"

definition wake_one :: "nat \<Rightarrow> 'a thread list \<Rightarrow> 'a thread list" where
  "wake_one i ts = ts[i := (ts ! i)\<lparr>th_waits := False\<rparr>]"

inductive notified :: "wake \<Rightarrow> 'a thread list \<Rightarrow> 'a thread list \<Rightarrow> bool" where
  no: "notified NoWake ts ts"
| nobody: "waiting ts = {} \<Longrightarrow> notified NotifyOne ts ts"
| one: "i \<in> waiting ts \<Longrightarrow> notified NotifyOne ts (wake_one i ts)"
| all: "notified NotifyAll ts (map (\<lambda>t. t\<lparr>th_waits := False\<rparr>) ts)"

inductive bq_step :: "'a shared \<Rightarrow> 'a shared \<Rightarrow> bool" where
  finish: "i < length (sh_threads s) \<Longrightarrow> t = sh_threads s ! i \<Longrightarrow> \<not> th_waits t \<Longrightarrow> th_calls t = c # cs \<Longrightarrow>
    run_call c (sh_queue s) = Some (ins, outs, got, w, q) \<Longrightarrow>
    notified w ((sh_threads s)[i := t\<lparr>th_calls := cs, th_got := th_got t @ got\<rparr>]) ts \<Longrightarrow>
    bq_step s \<lparr>sh_queue = q, sh_threads = ts, sh_in = sh_in s @ ins, sh_out = sh_out s @ outs\<rparr>"
| block: "i < length (sh_threads s) \<Longrightarrow> t = sh_threads s ! i \<Longrightarrow> \<not> th_waits t \<Longrightarrow> th_calls t = c # cs \<Longrightarrow>
    run_call c (sh_queue s) = None \<Longrightarrow> bq_step s (s\<lparr>sh_threads := (sh_threads s)[i := t\<lparr>th_waits := True\<rparr>]\<rparr>)"

text \<open>Runs, with and without wake-ups that nobody asked for.\<close>

inductive bq_reach :: "bool \<Rightarrow> 'a shared \<Rightarrow> 'a shared \<Rightarrow> bool" for spurious s0 where
  start: "bq_reach spurious s0 s0"
| run: "bq_reach spurious s0 s \<Longrightarrow> bq_step s s' \<Longrightarrow> bq_reach spurious s0 s'"
| spurious: "bq_reach spurious s0 s \<Longrightarrow> spurious \<Longrightarrow> i \<in> waiting (sh_threads s) \<Longrightarrow>
    bq_reach spurious s0 (s\<lparr>sh_threads := wake_one i (sh_threads s)\<rparr>)"

definition bq_start :: "u32 \<Rightarrow> 'a call list list \<Rightarrow> 'a shared" where
  "bq_start n progs = \<lparr>sh_queue = BlockingQueue_ctor n,
     sh_threads = map (\<lambda>cs. \<lparr>th_calls = cs, th_waits = False, th_got = []\<rparr>) progs, sh_in = [], sh_out = []\<rparr>"

subsection \<open>First in, first out\<close>

definition got :: "'a thread list \<Rightarrow> 'a multiset" where
  "got ts = mset (concat (map th_got ts))"

lemma got_sum: "got ts = sum_list (map (\<lambda>t. mset (th_got t)) ts)"
  by (induction ts) (auto simp: got_def)

lemma got_update: "i < length ts \<Longrightarrow> got (ts[i := t]) + mset (th_got (ts ! i)) = got ts + mset (th_got t)"
proof (induction ts arbitrary: i)
  case (Cons x ts)
  then show ?case by (cases i) (auto simp: got_def ac_simps)
qed simp

lemma got_wake [simp]: "i < length ts \<Longrightarrow> got (wake_one i ts) = got ts"
  using got_update [of i ts "(ts ! i)\<lparr>th_waits := False\<rparr>"] by (simp add: wake_one_def)

lemma got_notified: "notified w ts ts' \<Longrightarrow> got ts' = got ts"
  by (induction rule: notified.induct) (simp_all add: waiting_def, simp add: got_def comp_def)

lemma run_call_queue:
  assumes "run_call c q = Some (ins, outs, g, w, q')"
  shows "bq_queue q @ ins = outs @ bq_queue q'" "mset g \<subseteq># mset outs" "bq_iQueueMaxSize q' = bq_iQueueMaxSize q"
    "bq_iQueueMaxSize q \<noteq> 0 \<Longrightarrow> length (bq_queue q) \<le> unat (bq_iQueueMaxSize q) \<Longrightarrow> length (bq_queue q') \<le> unat (bq_iQueueMaxSize q)"
  using assms
  by (cases c; force simp: bq_Pop_def bq_TryPop_def bq_Push_def bq_TryPush_def bq_Clear_def bq_full_def
    split: list.splits if_splits)+

definition fifo_ok :: "u32 \<Rightarrow> 'a shared \<Rightarrow> bool" where
  "fifo_ok n s \<longleftrightarrow> bq_iQueueMaxSize (sh_queue s) = n \<and> sh_in s = sh_out s @ bq_queue (sh_queue s) \<and>
     got (sh_threads s) \<subseteq># mset (sh_out s) \<and> (n \<noteq> 0 \<longrightarrow> length (bq_queue (sh_queue s)) \<le> unat n)"

lemma fifo_step:
  assumes "bq_step s s'" "fifo_ok n s"
  shows "fifo_ok n s'"
  using assms
proof (induction rule: bq_step.induct)
  case (finish i s t c cs ins outs g w q ts)
  note q = run_call_queue [OF finish(5)]
  have "got ts + mset (th_got t) = got (sh_threads s) + (mset (th_got t) + mset g)"
    using got_notified [OF finish(6)] got_update [OF finish(1), of "t\<lparr>th_calls := cs, th_got := th_got t @ g\<rparr>"] finish(2) by simp
  then have "got ts = got (sh_threads s) + mset g" by simp
  then have "got ts \<subseteq># mset (sh_out s) + mset outs" using finish(7) q(2) by (simp add: fifo_ok_def subset_mset.add_mono)
  moreover have "(sh_out s @ bq_queue (sh_queue s)) @ ins = (sh_out s @ outs) @ bq_queue q" using q(1) by simp
  ultimately show ?case using finish(7) q(3,4) by (simp add: fifo_ok_def)
next
  case (block i s t c cs)
  have "got ((sh_threads s)[i := t\<lparr>th_waits := True\<rparr>]) = got (sh_threads s)"
    using got_update [OF block(1), of "t\<lparr>th_waits := True\<rparr>"] block(2) by simp
  then show ?case using block(6) by (simp add: fifo_ok_def)
qed

lemma fifo_reach:
  assumes "bq_reach sp (bq_start n progs) s"
  shows "fifo_ok n s"
  using assms
proof (induction rule: bq_reach.induct)
  case start
  then show ?case by (simp add: fifo_ok_def bq_start_def BlockingQueue_ctor_def got_def comp_def)
next
  case (run s s')
  then show ?case using fifo_step by blast
next
  case (spurious s i)
  then show ?case by (simp add: fifo_ok_def waiting_def)
qed

subsection \<open>Waiting\<close>

text \<open>Threads that are about to take an item.\<close>

definition popper :: "'a thread \<Rightarrow> bool" where
  "popper t \<longleftrightarrow> \<not> th_waits t \<and> (\<exists>cs. th_calls t = Pop # cs)"

definition wake_ok :: "'a shared \<Rightarrow> bool" where
  "wake_ok s \<longleftrightarrow> bq_iQueueMaxSize (sh_queue s) = 0 \<and> (\<forall>t \<in> set (sh_threads s). th_waits t \<longrightarrow> (\<exists>cs. th_calls t = Pop # cs)) \<and>
     (waiting (sh_threads s) \<noteq> {} \<longrightarrow> length (bq_queue (sh_queue s)) \<le> length (filter popper (sh_threads s)))"

lemma filter_update:
  "i < length ts \<Longrightarrow> length (filter P (ts[i := t])) + (if P (ts ! i) then 1 else 0) = length (filter P ts) + (if P t then 1 else 0)"
proof (induction ts arbitrary: i)
  case (Cons x ts)
  then show ?case by (cases i) auto
qed simp

lemma wake_one_ok:
  assumes w: "i \<in> waiting ts" and p: "\<forall>t \<in> set ts. th_waits t \<longrightarrow> (\<exists>cs. th_calls t = Pop # cs)"
  shows "length (filter popper (wake_one i ts)) = Suc (length (filter popper ts))"
    "\<forall>t \<in> set (wake_one i ts). th_waits t \<longrightarrow> (\<exists>cs. th_calls t = Pop # cs)"
    "waiting (wake_one i ts) \<noteq> {} \<Longrightarrow> waiting ts \<noteq> {}"
proof -
  have i: "i < length ts" "th_waits (ts ! i)" using w by (auto simp: waiting_def)
  then have "popper ((ts ! i)\<lparr>th_waits := False\<rparr>)" "\<not> popper (ts ! i)" using p nth_mem [OF i(1)] by (auto simp: popper_def)
  then show "length (filter popper (wake_one i ts)) = Suc (length (filter popper ts))"
    using filter_update [OF i(1), of popper "(ts ! i)\<lparr>th_waits := False\<rparr>"] by (simp add: wake_one_def)
  show "\<forall>t \<in> set (wake_one i ts). th_waits t \<longrightarrow> (\<exists>cs. th_calls t = Pop # cs)"
    using p by (auto simp: wake_one_def dest!: set_update_subset_insert [THEN subsetD])
qed (use w in auto)

text \<open>What the step of a thread does to the number of items, without a bound.\<close>

lemma run_call_unbounded:
  assumes "run_call c q = Some (ins, outs, g, w, q')" "bq_iQueueMaxSize q = 0"
  shows "(w = NotifyOne \<and> length (bq_queue q') = Suc (length (bq_queue q)) \<and> c \<noteq> Pop) \<or>
    (w = NoWake \<and> length (bq_queue q') \<le> length (bq_queue q) \<and> (c = Pop \<longrightarrow> length (bq_queue q) = Suc (length (bq_queue q')))) \<or>
    (w = NotifyAll \<and> bq_queue q' = [] \<and> c \<noteq> Pop)"
  using assms
  by (cases c; force simp: bq_Pop_def bq_TryPop_def bq_Push_def bq_TryPush_def bq_Clear_def bq_full_def
    split: list.splits if_splits)

lemma wake_step:
  assumes "bq_step s s'" "wake_ok s"
  shows "wake_ok s'"
  using assms
proof (induction rule: bq_step.induct)
  case (finish i s t c cs ins outs g w q ts)
  let ?t = "t\<lparr>th_calls := cs, th_got := th_got t @ g\<rparr>" and ?q = "bq_queue (sh_queue s)"
  let ?ts = "(sh_threads s)[i := ?t]"
  have inv: "bq_iQueueMaxSize (sh_queue s) = 0" "\<forall>t \<in> set (sh_threads s). th_waits t \<longrightarrow> (\<exists>cs. th_calls t = Pop # cs)"
      "waiting (sh_threads s) \<noteq> {} \<Longrightarrow> length ?q \<le> length (filter popper (sh_threads s))"
    using finish(7) by (auto simp: wake_ok_def)
  have p: "\<forall>t \<in> set ?ts. th_waits t \<longrightarrow> (\<exists>cs. th_calls t = Pop # cs)"
    using inv(2) finish(3) by (auto dest!: set_update_subset_insert [THEN subsetD])
  have wt: "waiting ?ts = waiting (sh_threads s)" using finish(1-3) by (auto simp: waiting_def nth_list_update)
  have cnt: "length (filter popper (sh_threads s)) \<le> length (filter popper ?ts) + (if c = Pop then 1 else 0)"
    using filter_update [OF finish(1), of popper ?t] finish(2-4) by (auto simp: popper_def split: if_splits)
  note r = run_call_unbounded [OF finish(5) inv(1)] and q0 = run_call_queue(3) [OF finish(5)]
  from finish(6) show ?case
  proof cases
    case no
    then have "waiting ts \<noteq> {} \<Longrightarrow> length (bq_queue q) \<le> length (filter popper ts)"
      using r inv(3) wt cnt by (auto split: if_splits)
    then show ?thesis using no p q0 inv(1) by (simp add: wake_ok_def)
  next
    case nobody
    then show ?thesis using p q0 inv(1) by (simp add: wake_ok_def)
  next
    case (one j)
    note o = wake_one_ok [OF one(3) p]
    have "waiting (sh_threads s) \<noteq> {}" using one(3) wt by auto
    then show ?thesis using one o r inv(1,3) cnt q0 by (auto simp: wake_ok_def split: if_splits)
  next
    case all
    then show ?thesis using r q0 inv(1) by (auto simp: wake_ok_def)
  qed
next
  case (block i s t c cs)
  have n: "bq_iQueueMaxSize (sh_queue s) = 0" using block(6) by (simp add: wake_ok_def)
  have "c = Pop \<and> bq_queue (sh_queue s) = []"
    using block(5) n by (cases c) (auto simp: bq_Pop_def bq_Push_def bq_full_def bq_TryPop_def bq_TryPush_def bq_Clear_def split: list.splits prod.splits option.splits)
  then show ?case using block(4,6) by (auto simp: wake_ok_def dest!: set_update_subset_insert [THEN subsetD])
qed

lemma wake_reach:
  assumes "bq_reach sp (bq_start 0 progs) s"
  shows "wake_ok s"
  using assms
proof (induction rule: bq_reach.induct)
  case start
  then show ?case by (auto simp: wake_ok_def bq_start_def BlockingQueue_ctor_def)
next
  case (run s s')
  then show ?case using wake_step by blast
next
  case (spurious s i)
  then have "\<forall>t \<in> set (sh_threads s). th_waits t \<longrightarrow> (\<exists>cs. th_calls t = Pop # cs)" by (simp add: wake_ok_def)
  note o = wake_one_ok [OF spurious(3) this]
  have "waiting (sh_threads s) \<noteq> {}" using spurious(3) by auto
  then show ?case using spurious(4) o by (auto simp: wake_ok_def)
qed

end
