(* ===== verification/QueueProps.thy ===== *)
theory QueueProps
  imports BlockingQueue
begin

text \<open>
  What the threads that share a queue rely on: order, bound, no lost wake-up without a bound; and the
  lost wake-up of a bounded queue.
\<close>

subsection \<open>Runs of given threads\<close>

definition thr :: "'a call list \<Rightarrow> bool \<Rightarrow> 'a list \<Rightarrow> 'a thread" where
  "thr cs w g = \<lparr>th_calls = cs, th_waits = w, th_got = g\<rparr>"

definition shr :: "u32 \<Rightarrow> 'a list \<Rightarrow> 'a thread list \<Rightarrow> 'a list \<Rightarrow> 'a list \<Rightarrow> 'a shared" where
  "shr n q ts ins outs = \<lparr>sh_queue = \<lparr>bq_iQueueMaxSize = n, bq_queue = q\<rparr>, sh_threads = ts, sh_in = ins, sh_out = outs\<rparr>"

lemma start_shr: "bq_start n progs = shr n [] (map (\<lambda>cs. thr cs False []) progs) [] []"
  by (simp add: bq_start_def shr_def thr_def BlockingQueue_ctor_def)

lemma reach_block:
  assumes "bq_reach sp s0 (shr n q ts ins outs)" "i < length ts" "ts ! i = thr (c # cs) False g"
    "run_call c \<lparr>bq_iQueueMaxSize = n, bq_queue = q\<rparr> = None" "ts' = ts[i := thr (c # cs) True g]"
  shows "bq_reach sp s0 (shr n q ts' ins outs)"
  using bq_reach.run [OF assms(1) bq_step.block [of i "shr n q ts ins outs" "ts ! i" c cs]] assms(2-5)
  by (simp add: shr_def thr_def)

lemma reach_finish:
  assumes "bq_reach sp s0 (shr n q ts ins outs)" "i < length ts" "ts ! i = thr (c # cs) False g"
    "run_call c \<lparr>bq_iQueueMaxSize = n, bq_queue = q\<rparr> = Some (x, y, g', w, \<lparr>bq_iQueueMaxSize = n, bq_queue = q'\<rparr>)"
    "notified w (ts[i := thr cs False (g @ g')]) ts'" "ins' = ins @ x" "outs' = outs @ y"
  shows "bq_reach sp s0 (shr n q' ts' ins' outs')"
  using bq_reach.run [OF assms(1) bq_step.finish [of i "shr n q ts ins outs" "ts ! i" c cs x y g' w _ ts']] assms(2-7)
  by (simp add: shr_def thr_def)

lemma notified_one: "i < length ts \<Longrightarrow> ts ! i = thr cs True g \<Longrightarrow> ts' = ts[i := thr cs False g] \<Longrightarrow> notified NotifyOne ts ts'"
  using notified.one [of i ts] by (simp add: waiting_def wake_one_def thr_def)

lemma waiting_filter: "waiting ts = set (filter (\<lambda>i. th_waits (ts ! i)) [0..<length ts])"
  by (auto simp: waiting_def)

lemmas run_defs = bq_Pop_def bq_Push_def bq_full_def

text \<open>Two consumers wait, a producer pushes one item: one of the consumers is woken up.\<close>

lemma demo_unbounded:
  "bq_reach False (bq_start 0 [[Pop], [Pop], [Push 7]])
    (shr 0 [7 :: nat] [thr [Pop] False [], thr [Pop] True [], thr [] False []] [7] [])"
proof -
  have "bq_reach False (bq_start 0 [[Pop], [Pop], [Push 7]])
      (shr 0 [] [thr [Pop] True [], thr [Pop] False [], thr [Push (7 :: nat)] False []] [] [])"
    by (rule reach_block [OF bq_reach.start [of _ "bq_start 0 _", unfolded start_shr], folded start_shr, where i = 0])
      (simp_all add: run_defs)
  then have "bq_reach False (bq_start 0 [[Pop], [Pop], [Push 7]])
      (shr 0 [] [thr [Pop] True [], thr [Pop] True [], thr [Push (7 :: nat)] False []] [] [])"
    by (rule reach_block [where i = 1]) (simp_all add: run_defs)
  then show ?thesis
    by (rule reach_finish [where i = 2 and c = "Push 7" and cs = "[]" and g = "[]" and w = NotifyOne and g' = "[]" and x = "[7]" and y = "[]"])
      (simp_all add: run_defs notified_one [where i = 0 and cs = "[Pop]" and g = "[]"])
qed

text \<open>
  A queue for one item.  Both consumers wait; the first producer pushes and wakes the first consumer;
  both producers find the queue full and wait; the first consumer takes the item and its notification
  goes to the second consumer, which finds the queue empty.
\<close>

lemma demo_bounded:
  "bq_reach False (bq_start 1 [[Pop], [Pop], [Push 7, Push 8], [Push 9]])
    (shr 1 [] [thr [] False [7 :: nat], thr [Pop] True [], thr [Push 8] True [], thr [Push 9] True []] [7] [7])"
proof -
  let ?r = "bq_reach False (bq_start 1 [[Pop], [Pop], [Push 7, Push 8], [Push (9 :: nat)]])"
  have "?r (shr 1 [] [thr [Pop] True [], thr [Pop] False [], thr [Push 7, Push 8] False [], thr [Push 9] False []] [] [])"
    by (rule reach_block [OF bq_reach.start [of _ "bq_start 1 _", unfolded start_shr], folded start_shr, where i = 0])
      (simp_all add: run_defs)
  then have "?r (shr 1 [] [thr [Pop] True [], thr [Pop] True [], thr [Push 7, Push 8] False [], thr [Push 9] False []] [] [])"
    by (rule reach_block [where i = 1]) (simp_all add: run_defs)
  then have "?r (shr 1 [7] [thr [Pop] False [], thr [Pop] True [], thr [Push 8] False [], thr [Push 9] False []] [7] [])"
    by (rule reach_finish [where i = 2 and c = "Push 7" and cs = "[Push 8]" and g = "[]" and w = NotifyOne and g' = "[]" and x = "[7]" and y = "[]"])
      (simp_all add: run_defs notified_one [where i = 0 and cs = "[Pop]" and g = "[]"])
  then have "?r (shr 1 [7] [thr [Pop] False [], thr [Pop] True [], thr [Push 8] True [], thr [Push 9] False []] [7] [])"
    by (rule reach_block [where i = 2]) (simp_all add: run_defs)
  then have "?r (shr 1 [7] [thr [Pop] False [], thr [Pop] True [], thr [Push 8] True [], thr [Push 9] True []] [7] [])"
    by (rule reach_block [where i = 3]) (simp_all add: run_defs)
  then have "?r (shr 1 [] [thr [] False [7], thr [Pop] False [], thr [Push 8] True [], thr [Push 9] True []] [7] [7])"
    by (rule reach_finish [where i = 0 and c = Pop and cs = "[]" and g = "[]" and w = NotifyOne and g' = "[7]" and x = "[]" and y = "[7]"])
      (simp_all add: run_defs notified_one [where i = 1 and cs = "[Pop]" and g = "[]"])
  then show ?thesis
    by (rule reach_block [where i = 1]) (simp_all add: run_defs)
qed

subsection \<open>Properties\<close>

text \<open>C11: The queue is a first-in-first-out channel under every interleaving of the threads: what went in
  is what came out followed by what is still queued, in the same order; no item is received twice; and a
  bounded queue never holds more than its bound.\<close>

theorem bq_fifo:
  assumes "bq_reach sp (bq_start n progs) s"
  shows "sh_in s = sh_out s @ bq_queue (sh_queue s) \<and> mset (concat (map th_got (sh_threads s))) \<subseteq># mset (sh_out s) \<and>
    (n \<noteq> 0 \<longrightarrow> length (bq_queue (sh_queue s)) \<le> unat n)"
  using fifo_reach [OF assms] by (simp add: fifo_ok_def got_def)

theorem bq_fifo_witness:
  "\<exists>s. bq_reach False (bq_start 0 [[Pop], [Pop], [Push (7 :: nat)]]) s \<and> sh_in s = sh_out s @ bq_queue (sh_queue s) \<and>
    bq_queue (sh_queue s) = [7]"
  using demo_unbounded bq_fifo [OF demo_unbounded] by (auto simp: shr_def)

text \<open>C15: Without a bound no wake-up is lost: in every reachable state in which some thread waits, there
  are at least as many threads awake and about to pop as there are items; so when no thread can go on,
  none waits while the queue holds an item.\<close>

theorem bq_unbounded_wakes:
  assumes "bq_reach sp (bq_start 0 progs) s" "waiting (sh_threads s) \<noteq> {}"
  shows "length (bq_queue (sh_queue s)) \<le> length (filter popper (sh_threads s)) \<and>
    ((\<nexists>s'. bq_step s s') \<longrightarrow> bq_queue (sh_queue s) = [])"
proof -
  have le: "length (bq_queue (sh_queue s)) \<le> length (filter popper (sh_threads s))"
    using wake_reach [OF assms(1)] assms(2) by (simp add: wake_ok_def)
  have "bq_queue (sh_queue s) = []" if stuck: "\<nexists>s'. bq_step s s'"
  proof (rule ccontr)
    assume ne: "bq_queue (sh_queue s) \<noteq> []"
    then have "filter popper (sh_threads s) \<noteq> []" using le by auto
    then obtain i where i: "i < length (sh_threads s)" "popper (sh_threads s ! i)"
      by (auto simp: filter_empty_conv in_set_conv_nth)
    then obtain cs where t: "\<not> th_waits (sh_threads s ! i)" "th_calls (sh_threads s ! i) = Pop # cs" by (auto simp: popper_def)
    obtain x w q where "run_call Pop (sh_queue s) = Some ([], [x], [x], w, q)"
      using ne by (auto simp: bq_Pop_def neq_Nil_conv)
    moreover have "\<exists>ts'. notified w ts ts'" for w and ts :: "'a thread list"
      by (cases w) (auto intro: notified.intros)
    ultimately show False using stuck bq_step.finish [OF i(1) refl t] by blast
  qed
  with le show ?thesis by blast
qed

theorem bq_unbounded_wakes_witness:
  "\<exists>s. bq_reach False (bq_start 0 [[Pop], [Pop], [Push (7 :: nat)]]) s \<and> waiting (sh_threads s) = {1} \<and>
    bq_queue (sh_queue s) = [7] \<and> 1 \<le> length (filter popper (sh_threads s))"
proof -
  let ?s = "shr 0 [7 :: nat] [thr [Pop] False [], thr [Pop] True [], thr [] False []] [7] []"
  have "waiting (sh_threads ?s) = {1}"
    by (simp add: waiting_filter shr_def thr_def upt_rec)
  then show ?thesis using demo_unbounded bq_unbounded_wakes [OF demo_unbounded] by (auto simp: shr_def)
qed

text \<open>C39: A bounded queue can lose a wake-up: producers and consumers wait for the same condition variable
  and a notification wakes only one thread, so that it can reach a consumer when a producer should have
  had it.  There is a run after which the queue is empty, two producers wait to push, a consumer waits to
  pop, and no thread can go on any more.\<close>

theorem bq_bounded_lost_wakeup:
  "\<exists>s. bq_reach False (bq_start 1 [[Pop], [Pop], [Push 7, Push 8], [Push (9 :: nat)]]) s \<and>
    bq_queue (sh_queue s) = [] \<and> waiting (sh_threads s) = {1, 2, 3} \<and> th_calls (sh_threads s ! 2) = [Push 8] \<and>
    (\<nexists>s'. bq_step s s')"
proof -
  let ?s = "shr 1 [] [thr [] False [7 :: nat], thr [Pop] True [], thr [Push 8] True [], thr [Push 9] True []] [7] [7]"
  have w: "waiting (sh_threads ?s) = {1, 2, 3}"
    by (simp add: waiting_filter shr_def thr_def upt_rec numeral_2_eq_2 numeral_3_eq_3)
  have "\<not> bq_step ?s s'" for s'
    by (auto simp: shr_def thr_def nth_Cons elim!: bq_step.cases split: nat.splits)
  then show ?thesis using demo_bounded w by (intro exI [of _ ?s]) (simp add: shr_def thr_def)
qed

end
