(* ===== verification/RpcMessage.thy ===== *)
theory RpcMessage
  imports Buffer Codec
begin

text \<open>
  net/message, net/snd-message, net/rcv-message and rpc: the messages on the wire, a header of magic
  number, id and payload length followed by the payload, and the server that dispatches a request to
  its handler and answers it.  Buffers and memory are those of common/buffer.  The protobuf messages
  are generated code: \<open>pbmsg\<close> stands for their serialisation.  None is undefined behaviour or the end
  of the process; Inl an exception.
\<close>

subsection \<open>Memory\<close>

definition put16 :: "byte_order \<Rightarrow> nat \<Rightarrow> u16 \<Rightarrow> heap \<Rightarrow> heap" where
  "put16 bo a n h = write_heap a (ByteOrder_WriteUInt16 bo (read_heap h a 2) n) h"

definition put32 :: "byte_order \<Rightarrow> nat \<Rightarrow> u32 \<Rightarrow> heap \<Rightarrow> heap" where
  "put32 bo a n h = write_heap a (ByteOrder_WriteUInt32 bo (read_heap h a 4) n) h"

definition put64 :: "byte_order \<Rightarrow> nat \<Rightarrow> u64 \<Rightarrow> heap \<Rightarrow> heap" where
  "put64 bo a n h = write_heap a (ByteOrder_WriteUInt64 bo (read_heap h a 8) n) h"

subsection \<open>Messages\<close>

definition MESSAGE_MAGIC_NO :: u32 where
  "MESSAGE_MAGIC_NO = 0xdeadbeef"

definition MAX_MSG_PAYLOAD_SIZE :: u32 where
  "MAX_MSG_PAYLOAD_SIZE = 0x4000000"

definition HeaderSize :: u32 where
  "HeaderSize = 16"

record Header =
  mh_magic :: u32
  mh_id :: u64
  mh_len :: u32

text \<open>The free buffers are a list; what Refresh releases comes along.\<close>

definition Message_GetNewBuffer :: "Buffer list \<Rightarrow> Buffer \<times> Buffer list" where
  "Message_GetNewBuffer free = (case free of [] \<Rightarrow> (Buffer_default, []) | buf # rest \<Rightarrow> (buf, rest))"

definition GetNewBuffer_at :: "nat \<Rightarrow> nat \<Rightarrow> nat \<Rightarrow> nat \<Rightarrow> nat \<Rightarrow> Buffer list \<Rightarrow> release \<times> Buffer \<times> Buffer list" where
  "GetNewBuffer_at pos lst start fin mpo free =
    (let (buf, free) = Message_GetNewBuffer free; (r, buf) = Refresh pos lst start fin mpo True buf in (r, buf, free))"

definition GetNewBuffer_mpo :: "nat \<Rightarrow> u32 \<Rightarrow> Buffer list \<Rightarrow> release \<times> Buffer \<times> Buffer list" where
  "GetNewBuffer_mpo mpo totalBufferSize free =
    (let start = mpo; fin = start + unat totalBufferSize - 1 in GetNewBuffer_at 0 0 start fin mpo free)"

definition GetNewAvailableBuffer :: "nat \<Rightarrow> u32 \<Rightarrow> Buffer list \<Rightarrow> release \<times> Buffer \<times> Buffer list" where
  "GetNewAvailableBuffer mpo totalBufferSize free =
    (let start = mpo; fin = start + unat totalBufferSize - 1 in GetNewBuffer_at start fin start fin mpo free)"

definition PutBuffer :: "Buffer \<Rightarrow> Buffer list \<Rightarrow> release \<times> Buffer list" where
  "PutBuffer buffer free = (let (r, b) = Buffer_Put buffer in (r, free @ [b]))"

text \<open>The next id; \<open>s_lastId\<close> is the state.\<close>

definition GetNewId :: "u64 \<Rightarrow> u64" where
  "GetNewId lastId = (let n = lastId + 1 in if n = 0xFFFFFFFFFFFFFFFF then 1 else n)"

subsection \<open>Requests and responses\<close>

datatype RpcCode = OK | ErrorNoHandler | ErrorMsg | ErrorInternal | ErrorNoRegisteredRpc | ErrorUnknown

fun RpcCode_val :: "RpcCode \<Rightarrow> u16" where
  "RpcCode_val OK = 0"
| "RpcCode_val ErrorNoHandler = 1"
| "RpcCode_val ErrorMsg = 2"
| "RpcCode_val ErrorInternal = 3"
| "RpcCode_val ErrorNoRegisteredRpc = 4"
| "RpcCode_val ErrorUnknown = 5"

record 'm pbmsg =
  pm_ByteSize :: "'m \<Rightarrow> nat"
  pm_SerializeToArray :: "'m \<Rightarrow> bytes option"

datatype 'm snd_body = RpcRequest u16 "'m option" | RpcResponseBase RpcCode u16 | RpcResponse RpcCode u16 "'m option"

definition RpcRequest_getDerivePayloadLength :: "'m pbmsg \<Rightarrow> 'm option \<Rightarrow> u32" where
  "RpcRequest_getDerivePayloadLength pb msg = (case msg of Some m \<Rightarrow> word_of_nat (2 + pm_ByteSize pb m) | None \<Rightarrow> 2)"

definition RpcResponseBase_getDerivePayloadLength :: u32 where
  "RpcResponseBase_getDerivePayloadLength = 2 + 2"

definition RpcResponse_getDerivePayloadLength :: "'m pbmsg \<Rightarrow> 'm option \<Rightarrow> u32" where
  "RpcResponse_getDerivePayloadLength pb msg =
    (let baseSize = RpcResponseBase_getDerivePayloadLength
     in case msg of Some m \<Rightarrow> baseSize + word_of_nat (pm_ByteSize pb m) | None \<Rightarrow> baseSize)"

text \<open>The virtual function of SndMessage.\<close>

fun getDerivePayloadLength :: "'m pbmsg \<Rightarrow> 'm snd_body \<Rightarrow> u32" where
  "getDerivePayloadLength pb (RpcRequest hid msg) = RpcRequest_getDerivePayloadLength pb msg"
| "getDerivePayloadLength pb (RpcResponseBase code ht) = RpcResponseBase_getDerivePayloadLength"
| "getDerivePayloadLength pb (RpcResponse code ht msg) = RpcResponse_getDerivePayloadLength pb msg"

text \<open>The result of Serialize is not looked at; a message that cannot be serialised leaves the memory as it is.\<close>

definition Serialize_pb :: "'m pbmsg \<Rightarrow> 'm option \<Rightarrow> Buffer \<Rightarrow> heap \<Rightarrow> heap" where
  "Serialize_pb pb msg b h =
    (case msg of None \<Rightarrow> h
     | Some m \<Rightarrow> (case pm_SerializeToArray pb m of None \<Rightarrow> h | Some bs \<Rightarrow> write_heap (b_pPos b) bs h))"

definition RpcRequest_encodeDerive :: "byte_order \<Rightarrow> 'm pbmsg \<Rightarrow> u16 \<Rightarrow> 'm option \<Rightarrow> Buffer \<Rightarrow> heap \<Rightarrow> Buffer \<times> heap" where
  "RpcRequest_encodeDerive bo pb hid msg b h =
    (let h = put16 bo (b_pPos b) hid h; b = MoveHeadBack 2 b in (b, Serialize_pb pb msg b h))"

definition RpcResponseBase_encodeDerive :: "byte_order \<Rightarrow> RpcCode \<Rightarrow> u16 \<Rightarrow> Buffer \<Rightarrow> heap \<Rightarrow> Buffer \<times> heap" where
  "RpcResponseBase_encodeDerive bo code ht b h =
    (let h = put16 bo (b_pPos b) (RpcCode_val code) h; b = MoveHeadBack 2 b in (b, put16 bo (b_pPos b) ht h))"

definition RpcResponse_encodeDerive ::
    "byte_order \<Rightarrow> 'm pbmsg \<Rightarrow> RpcCode \<Rightarrow> u16 \<Rightarrow> 'm option \<Rightarrow> Buffer \<Rightarrow> heap \<Rightarrow> Buffer \<times> heap" where
  "RpcResponse_encodeDerive bo pb code ht msg b h =
    (let h = put16 bo (b_pPos b) (RpcCode_val code) h; b = MoveHeadBack 2 b;
         h = put16 bo (b_pPos b) ht h; b = MoveHeadBack 2 b
     in (b, Serialize_pb pb msg b h))"

fun encodeDerive :: "byte_order \<Rightarrow> 'm pbmsg \<Rightarrow> 'm snd_body \<Rightarrow> Buffer \<Rightarrow> heap \<Rightarrow> Buffer \<times> heap" where
  "encodeDerive bo pb (RpcRequest hid msg) b h = RpcRequest_encodeDerive bo pb hid msg b h"
| "encodeDerive bo pb (RpcResponseBase code ht) b h = RpcResponseBase_encodeDerive bo code ht b h"
| "encodeDerive bo pb (RpcResponse code ht msg) b h = RpcResponse_encodeDerive bo pb code ht msg b h"

definition encode_header :: "byte_order \<Rightarrow> Header \<Rightarrow> Buffer \<Rightarrow> heap \<Rightarrow> Buffer \<times> heap" where
  "encode_header bo hdr b h =
    (let h = put32 bo (b_pPos b) (mh_magic hdr) h; b = MoveHeadBack 4 b;
         h = put64 bo (b_pPos b) (mh_id hdr) h; b = MoveHeadBack 8 b;
         h = put32 bo (b_pPos b) (mh_len hdr) h; b = MoveHeadBack 4 b
     in (b, h))"

datatype snd_error = PayloadEmpty | PayloadTooLarge

text \<open>\<open>get\<close> is the memory pool: the address of an object of the given size, None for a null pointer.\<close>

definition SndMessage_Encode ::
    "byte_order \<Rightarrow> 'm pbmsg \<Rightarrow> (u32 \<Rightarrow> nat option) \<Rightarrow> 'm snd_body \<Rightarrow> Header \<Rightarrow> Buffer list \<Rightarrow> heap \<Rightarrow>
     (snd_error + Header \<times> release \<times> Buffer \<times> Buffer list \<times> heap) option" where
  "SndMessage_Encode bo pb get body hdr free h =
    (let size = getDerivePayloadLength pb body
     in if size \<le> 0 then Some (Inl PayloadEmpty)
        else if size > MAX_MSG_PAYLOAD_SIZE then Some (Inl PayloadTooLarge)
        else
          let totalBufferSize = HeaderSize + size;
              hdr = hdr\<lparr>mh_magic := MESSAGE_MAGIC_NO, mh_len := size\<rparr>
          in case get totalBufferSize of
               None \<Rightarrow> None
             | Some mpo \<Rightarrow>
                 let (r, buf, free) = GetNewAvailableBuffer mpo totalBufferSize free;
                     (buf, h) = encode_header bo hdr buf h;
                     (buf, h) = encodeDerive bo pb body buf h
                 in Some (Inr (hdr, r, SetPos (b_pStart buf) buf, free, h)))"

definition DecodeMsgHeader :: "byte_order \<Rightarrow> Buffer \<Rightarrow> heap \<Rightarrow> Header \<Rightarrow> bool \<times> Header" where
  "DecodeMsgHeader bo b h hdr =
    (if (word_of_int (AvailableLength b) :: u32) < HeaderSize then (False, hdr)
     else
       let hdr = hdr\<lparr>mh_magic := ByteOrder_ReadUInt32 bo (read_heap h (b_pPos b) 4)\<rparr>
       in if mh_magic hdr \<noteq> MESSAGE_MAGIC_NO then (False, hdr)
          else
            let hdr = hdr\<lparr>mh_id := ByteOrder_ReadUInt64 bo (read_heap h (b_pPos b + 4) 8)\<rparr>;
                hdr = hdr\<lparr>mh_len := ByteOrder_ReadUInt32 bo (read_heap h (b_pPos b + 12) 4)\<rparr>
            in (mh_len hdr \<le> MAX_MSG_PAYLOAD_SIZE, hdr))"

subsection \<open>Server\<close>

text \<open>
  A handler makes an empty request, or none, parses it and answers it.  A message about to be sent has
  an id, a body, and a peer and a memory pool if they were set.
\<close>

record ('q, 'r) handler =
  rh_creates :: bool
  rh_parse :: "bytes \<Rightarrow> 'q option"
  rh_Handle :: "'q \<Rightarrow> 'r option"

record ('r, 'p) snd_message =
  sn_id :: u64
  sn_body :: "'r snd_body"
  sn_peer :: "'p option"
  sn_has_pool :: bool

record ('q, 'r) RpcServerSync =
  rs_bStopped :: bool
  rs_bRegistered :: bool
  rs_hmHandlers :: "(u16 \<times> ('q, 'r) handler option) list"
  rs_lastId :: u64

definition RegisterRpc :: "u16 \<Rightarrow> ('q, 'r) handler \<Rightarrow> ('q, 'r) RpcServerSync \<Rightarrow> bool \<times> ('q, 'r) RpcServerSync" where
  "RegisterRpc i handler s =
    (if rs_bRegistered s then (False, s)
     else (True, s\<lparr>rs_hmHandlers := AList.update i (Some handler) (rs_hmHandlers s)\<rparr>))"

definition FinishRegisterRpc :: "('q, 'r) RpcServerSync \<Rightarrow> ('q, 'r) RpcServerSync" where
  "FinishRegisterRpc s = s\<lparr>rs_bRegistered := True\<rparr>"

definition RpcServerSync_Start :: "('q, 'r) RpcServerSync \<Rightarrow> bool \<times> ('q, 'r) RpcServerSync" where
  "RpcServerSync_Start s =
    (if \<not> rs_bStopped s \<or> \<not> rs_bRegistered s then (False, s) else (True, s\<lparr>rs_bStopped := False\<rparr>))"

definition RpcServerSync_Stop :: "('q, 'r) RpcServerSync \<Rightarrow> bool \<times> ('q, 'r) RpcServerSync" where
  "RpcServerSync_Stop s = (if rs_bStopped s then (True, s) else (True, s\<lparr>rs_bStopped := True\<rparr>))"

text \<open>A message that has arrived: its id, its peer and the buffer with its payload.\<close>

record 'p rcv_message =
  rm_id :: u64
  rm_peer :: 'p
  rm_buffer :: Buffer

datatype 'p NotifyMessage = NMessage "'p rcv_message option" | NWorker | NServer

text \<open>A new response has no peer and no pool, and an id of its own until it is set.\<close>

definition new_response :: "'r snd_body \<Rightarrow> ('q, 'r) RpcServerSync \<Rightarrow> ('r, 'p) snd_message \<times> ('q, 'r) RpcServerSync" where
  "new_response body s =
    (let i = GetNewId (rs_lastId s)
     in (\<lparr>sn_id = i, sn_body = body, sn_peer = None, sn_has_pool = False\<rparr>, s\<lparr>rs_lastId := i\<rparr>))"

text \<open>The message given to the socket service; looking up a handler with [] makes an empty element.\<close>

definition proc_msg :: "byte_order \<Rightarrow> 'p NotifyMessage \<Rightarrow> heap \<Rightarrow> ('q, 'r) RpcServerSync \<Rightarrow>
    (('r, 'p) snd_message option \<times> ('q, 'r) RpcServerSync) option" where
  "proc_msg bo nm h s =
    (case nm of
       NServer \<Rightarrow> None
     | NWorker \<Rightarrow> Some (None, s)
     | NMessage None \<Rightarrow> Some (None, s)
     | NMessage (Some rm) \<Rightarrow>
         let reqBuf = rm_buffer rm;
             handlerId = ByteOrder_ReadUInt16 bo (read_heap h (b_pPos reqBuf) 2);
             reqBuf = MoveHeadBack 2 reqBuf
         in case map_of (rs_hmHandlers s) handlerId of
              None \<Rightarrow>
                let (m, s) = new_response (RpcResponseBase ErrorNoHandler handlerId)
                      (s\<lparr>rs_hmHandlers := AList.update handlerId None (rs_hmHandlers s)\<rparr>)
                in Some (Some m, s)
            | Some None \<Rightarrow>
                let (m, s) = new_response (RpcResponseBase ErrorNoHandler handlerId) s in Some (Some m, s)
            | Some (Some handler) \<Rightarrow>
                if \<not> rh_creates handler
                then let (m, s) = new_response (RpcResponseBase ErrorInternal handlerId) s in Some (Some m, s)
                else case rh_parse handler (buf_bytes h reqBuf) of
                    None \<Rightarrow> let (m, s) = new_response (RpcResponseBase ErrorMsg handlerId) s in Some (Some m, s)
                  | Some request \<Rightarrow>
                      let (m, s) = new_response (RpcResponse OK handlerId (rh_Handle handler request)) s
                      in Some (Some (m\<lparr>sn_id := rm_id rm, sn_has_pool := True, sn_peer := Some (rm_peer rm)\<rparr>), s))"

end
