(* ===== verification/RpcProps.thy ===== *)
theory RpcProps
  imports RpcMessage
begin

text \<open>
  A request that is encoded on one host is decoded, dispatched and answered on another; ids of messages
  do not repeat within a cycle.
\<close>

subsection \<open>Bytes on the wire\<close>

lemmas derive_defs = RpcRequest_getDerivePayloadLength_def RpcResponseBase_getDerivePayloadLength_def RpcResponse_getDerivePayloadLength_def
  RpcRequest_encodeDerive_def RpcResponseBase_encodeDerive_def RpcResponse_encodeDerive_def

lemma put16_enc: "put16 bo a n h = write_heap a (enc16 n) h"
  by (simp add: put16_def c16.write_is_enc)

lemma put32_enc: "put32 bo a n h = write_heap a (enc32 n) h"
  by (simp add: put32_def c32.write_is_enc)

lemma put64_enc: "put64 bo a n h = write_heap a (enc64 n) h"
  by (simp add: put64_def c64.write_is_enc)

lemma write_heap_append: "b = a + length xs \<Longrightarrow> write_heap b ys (write_heap a xs h) = write_heap a (xs @ ys) h"
  by (auto simp: write_heap_def fun_eq_iff nth_append)

lemma write_heap_Nil [simp]: "write_heap a [] h = h"
  by (auto simp: write_heap_def fun_eq_iff)

definition pm_ok :: "'m pbmsg \<Rightarrow> bool" where
  "pm_ok pb \<longleftrightarrow> (\<forall>m bs. pm_SerializeToArray pb m = Some bs \<longrightarrow> length bs = pm_ByteSize pb m)"

definition msg_bytes :: "'m pbmsg \<Rightarrow> 'm option \<Rightarrow> bytes option" where
  "msg_bytes pb msg = (case msg of None \<Rightarrow> Some [] | Some m \<Rightarrow> pm_SerializeToArray pb m)"

fun body_bytes :: "'m pbmsg \<Rightarrow> 'm snd_body \<Rightarrow> bytes option" where
  "body_bytes pb (RpcRequest hid msg) = map_option (\<lambda>bs. enc16 hid @ bs) (msg_bytes pb msg)"
| "body_bytes pb (RpcResponseBase code ht) = Some (enc16 (RpcCode_val code) @ enc16 ht)"
| "body_bytes pb (RpcResponse code ht msg) = map_option (\<lambda>bs. enc16 (RpcCode_val code) @ enc16 ht @ bs) (msg_bytes pb msg)"

definition header_bytes :: "Header \<Rightarrow> bytes" where
  "header_bytes hdr = enc32 (mh_magic hdr) @ enc64 (mh_id hdr) @ enc32 (mh_len hdr)"

lemma msg_bytes_length:
  "pm_ok pb \<Longrightarrow> msg_bytes pb (Some m) = Some bs \<Longrightarrow> length bs = pm_ByteSize pb m" "msg_bytes pb None = Some bs \<Longrightarrow> bs = []"
  by (simp_all add: pm_ok_def msg_bytes_def)

lemma enc16_not_Nil [simp]: "enc16 n \<noteq> []"
  by (simp add: enc16_def)

lemma payload_length:
  assumes "pm_ok pb" "body_bytes pb body = Some bs"
  shows "getDerivePayloadLength pb body = word_of_nat (length bs) \<and> 0 < length bs"
proof (cases body)
  case (RpcRequest hid msg)
  with assms show ?thesis by (cases msg) (auto simp: derive_defs dest: msg_bytes_length)
next
  case (RpcResponse code ht msg)
  with assms show ?thesis by (cases msg) (auto simp: derive_defs dest: msg_bytes_length)
qed (use assms in \<open>auto simp: derive_defs\<close>)

definition in_use :: "Buffer \<Rightarrow> bool" where
  "in_use b \<longleftrightarrow> b_pPos b \<noteq> 0 \<and> b_pLast b \<noteq> 0"

lemma move_in_use [simp]:
  "in_use b \<Longrightarrow> in_use (MoveHeadBack n b)" "in_use b \<Longrightarrow> b_pPos (MoveHeadBack n b) = b_pPos b + n"
  "b_pLast (MoveHeadBack n b) = b_pLast b" "b_pStart (MoveHeadBack n b) = b_pStart b" "b_pEnd (MoveHeadBack n b) = b_pEnd b"
  by (auto simp: in_use_def MoveHeadBack_def)

lemma serialize_writes:
  "msg_bytes pb msg = Some bs \<Longrightarrow> Serialize_pb pb msg b h = write_heap (b_pPos b) bs h"
  by (auto simp: msg_bytes_def Serialize_pb_def split: option.splits)

lemma encode_header_writes:
  "in_use b \<Longrightarrow> encode_header bo hdr b h =
    (MoveHeadBack 4 (MoveHeadBack 8 (MoveHeadBack 4 b)), write_heap (b_pPos b) (header_bytes hdr) h)"
  by (simp add: encode_header_def Let_def put32_enc put64_enc write_heap_append header_bytes_def)

lemma encodeDerive_writes:
  assumes "in_use b" "body_bytes pb body = Some bs"
  shows "snd (encodeDerive bo pb body b h) = write_heap (b_pPos b) bs h"
    "b_pLast (fst (encodeDerive bo pb body b h)) = b_pLast b" "b_pStart (fst (encodeDerive bo pb body b h)) = b_pStart b"
    "b_pEnd (fst (encodeDerive bo pb body b h)) = b_pEnd b"
  using assms by (cases body; auto simp: derive_defs Let_def put16_enc serialize_writes write_heap_append)+

definition sent_header :: "u64 \<Rightarrow> bytes \<Rightarrow> Header" where
  "sent_header i bs = \<lparr>mh_magic = MESSAGE_MAGIC_NO, mh_id = i, mh_len = word_of_nat (length bs)\<rparr>"

text \<open>The encoder writes header and payload into one valid buffer.\<close>

lemma Encode_wire:
  assumes pb: "pm_ok pb" "body_bytes pb body = Some bs" and le: "length bs \<le> 0x4000000"
    and get: "get (word_of_nat (16 + length bs)) = Some mpo" "mpo \<noteq> 0" and free: "\<forall>b \<in> set free. \<not> b_bOwn b"
  shows "\<exists>buf free' h'. SndMessage_Encode bo pb get body hdr free h = Some (Inr (sent_header (mh_id hdr) bs, Keep, buf, free', h')) \<and>
    Valid buf \<and> buf_ok buf \<and> b_pPos buf = mpo \<and> b_pLast buf + 1 = mpo + 16 + length bs \<and> buf_bytes h' buf = header_bytes (sent_header (mh_id hdr) bs) @ bs"
proof -
  let ?hdr' = "sent_header (mh_id hdr) bs"
  have hdr': "hdr\<lparr>mh_magic := MESSAGE_MAGIC_NO, mh_len := word_of_nat (length bs)\<rparr> = ?hdr'" by (simp add: sent_header_def)
  note len = conjunct1 [OF payload_length [OF pb]] conjunct2 [OF payload_length [OF pb]]
  have u: "unat (word_of_nat (length bs) :: u32) = length bs" using le by (simp add: unat_word_of_nat_u32)
  have t: "HeaderSize + word_of_nat (length bs) = word_of_nat (16 + length bs)" by (simp add: HeaderSize_def)
  have ut: "unat (word_of_nat (16 + length bs) :: u32) = 16 + length bs" using le by (intro unat_word_of_nat_u32) simp
  have guards: "\<not> (word_of_nat (length bs) :: u32) \<le> 0" "\<not> MAX_MSG_PAYLOAD_SIZE < word_of_nat (length bs)"
    using u len(2) le by (auto simp: word_le_nat_alt word_less_nat_alt MAX_MSG_PAYLOAD_SIZE_def)
  let ?fin = "mpo + (16 + length bs) - 1"
  obtain b0 free' where b0: "Message_GetNewBuffer free = (b0, free')" "\<not> b_bOwn b0"
    using free by (cases free) (auto simp: Message_GetNewBuffer_def Buffer_default_def)
  define b1 where "b1 = snd (Refresh mpo ?fin mpo ?fin mpo True b0)"
  have new: "GetNewAvailableBuffer mpo (word_of_nat (16 + length bs)) free = (Keep, b1, free')"
    unfolding GetNewAvailableBuffer_def GetNewBuffer_at_def ut using b0 by (simp add: Refresh_def b1_def Let_def)
  have f1: "b_pPos b1 = mpo" "b_pLast b1 = ?fin" "b_pStart b1 = mpo" "b_pEnd b1 = ?fin" "in_use b1"
    using get(2) by (simp_all add: b1_def Refresh_def in_use_def)
  define b2 where "b2 = MoveHeadBack 4 (MoveHeadBack 8 (MoveHeadBack 4 b1))"
  have f2: "b_pPos b2 = mpo + 16" "b_pLast b2 = ?fin" "b_pStart b2 = mpo" "b_pEnd b2 = ?fin" "in_use b2"
    using f1 by (simp_all add: b2_def)
  let ?h1 = "write_heap mpo (header_bytes ?hdr') h"
  let ?e = "encodeDerive bo pb body b2 ?h1"
  note d = encodeDerive_writes [OF f2(5) pb(2), of bo ?h1]
  let ?buf = "SetPos (b_pStart (fst ?e)) (fst ?e)"
  have enc: "SndMessage_Encode bo pb get body hdr free h = Some (Inr (?hdr', Keep, ?buf, free', snd ?e))"
    using guards get(1) new f1(1,5) encode_header_writes [OF f1(5), of bo ?hdr' h]
    by (simp add: SndMessage_Encode_def Let_def len(1) t hdr' b2_def split_beta)
  have buf: "b_pPos ?buf = mpo" "b_pLast ?buf = ?fin" "b_bAvailable ?buf" "buf_ok ?buf"
    using d f2 get(2) by (simp_all add: SetPos_def check_available_def buf_ok_def)
  have hb: "length (header_bytes ?hdr') = 16" by (simp add: header_bytes_def)
  have "snd ?e = write_heap mpo (header_bytes ?hdr' @ bs) h" using d(1) f2(1) hb by (simp add: write_heap_append)
  moreover have "buf_bytes (snd ?e) ?buf = read_heap (snd ?e) mpo (16 + length bs)"
    using buf_bytes_window [OF buf(3,4), of "snd ?e"] buf(1,2) le get(2) by simp
  ultimately have "buf_bytes (snd ?e) ?buf = header_bytes ?hdr' @ bs"
    using read_write_same [of mpo "header_bytes ?hdr' @ bs" h] hb by simp
  then show ?thesis using enc buf get(2) by (fastforce simp: Valid_def)
qed

text \<open>The decoder reads the header that was written, on a host of any byte order.\<close>

lemma read_at:
  "read_heap h a (length xs + length ys + length zs) = xs @ ys @ zs \<Longrightarrow> read_heap h (a + length xs) (length ys) = ys"
  using drop_read_heap [of "length xs" h a "length xs + length ys + length zs"]
    read_heap_add [of h "a + length xs" "length ys" "length zs"]
  by (simp add: add.assoc)

lemma Decode_wire:
  assumes "Valid buf" "buf_ok buf" "b_pLast buf < b_pPos buf + 2 ^ 31"
    and bytes: "buf_bytes h buf = header_bytes (sent_header i bs) @ ys" and le: "length bs \<le> 0x4000000"
  shows "DecodeMsgHeader bo buf h hdr = (True, hdr\<lparr>mh_magic := MESSAGE_MAGIC_NO, mh_id := i, mh_len := word_of_nat (length bs)\<rparr>)"
proof -
  have av: "b_bAvailable buf" using assms(1) by (simp add: Valid_def)
  let ?n = "b_pLast buf + 1 - b_pPos buf"
  have r: "read_heap h (b_pPos buf) ?n = header_bytes (sent_header i bs) @ ys"
    using buf_bytes_window [OF av assms(2,3), of h] bytes by simp
  then have n: "?n = 16 + length ys" by (metis length_append length_read_heap length_enc32 length_enc64 header_bytes_def numeral_Bit0 add.assoc)
  have len: "AvailableLength buf = int (16 + length ys)" using AvailableLength_window [OF assms(2,3)] av n by simp
  note r' = r [unfolded n header_bytes_def sent_header_def, simplified]
  have m: "read_heap h (b_pPos buf) 4 = enc32 MESSAGE_MAGIC_NO"
    using read_at [of h "b_pPos buf" "[]" "enc32 MESSAGE_MAGIC_NO" "enc64 i @ enc32 (word_of_nat (length bs)) @ ys"] r' by simp
  have d: "read_heap h (b_pPos buf + 4) 8 = enc64 i"
    using read_at [of h "b_pPos buf" "enc32 MESSAGE_MAGIC_NO" "enc64 i" "enc32 (word_of_nat (length bs)) @ ys"] r' by simp
  have l: "read_heap h (b_pPos buf + 12) 4 = enc32 (word_of_nat (length bs))"
    using read_at [of h "b_pPos buf" "enc32 MESSAGE_MAGIC_NO @ enc64 i" "enc32 (word_of_nat (length bs))" ys] r' by simp
  have "unat (word_of_nat (16 + length ys) :: u32) = 16 + length ys" using n assms(3) by (intro unat_word_of_nat_u32) simp
  then have "\<not> (word_of_nat (16 + length ys) :: u32) < HeaderSize" unfolding word_less_nat_alt by (simp add: HeaderSize_def)
  moreover have "(word_of_nat (length bs) :: u32) \<le> MAX_MSG_PAYLOAD_SIZE"
    using le by (simp add: word_le_nat_alt MAX_MSG_PAYLOAD_SIZE_def unat_word_of_nat_u32)
  ultimately show ?thesis
    by (simp add: DecodeMsgHeader_def len m d l c32.read_enc_nil c64.read_enc_nil del: of_nat_add)
qed

text \<open>Moving the head over n bytes drops them from the window.\<close>

lemma MoveHeadBack_drop:
  assumes "Valid b" "buf_ok b" "b_pLast b < b_pPos b + 2 ^ 31"
  shows "buf_bytes h (MoveHeadBack n b) = drop n (buf_bytes h b)"
proof -
  have av: "b_bAvailable b" "b_pPos b \<noteq> 0" "b_pLast b \<noteq> 0" using assms(1,2) by (auto simp: Valid_def buf_ok_def)
  let ?b = "MoveHeadBack n b"
  have p: "b_pPos ?b = b_pPos b + n" "b_pLast ?b = b_pLast b" using av by (auto simp: MoveHeadBack_def)
  have ok: "buf_ok ?b" using assms(2) by simp
  note w = buf_bytes_window [OF av(1) assms(2,3), of h]
  show ?thesis
  proof (cases "b_bAvailable ?b")
    case True
    then show ?thesis using buf_bytes_window [OF True ok, of h] p w assms(3) by (simp add: drop_read_heap)
  next
    case False
    then have "b_pLast b < b_pPos b + n" using ok p av assms(2) by (auto simp: buf_ok_def)
    moreover have "AvailableLength ?b = 0" using AvailableLength_window [OF ok] p assms(3) False by simp
    ultimately show ?thesis using w by (simp add: buf_bytes_def read_heap_def)
  qed
qed

subsection \<open>A request and its answer\<close>

lemma proc_msg_answers:
  assumes b: "Valid b" "buf_ok b" "b_pLast b < b_pPos b + 2 ^ 31" and bytes: "buf_bytes h b = enc16 hid @ qb"
    and hnd: "map_of (rs_hmHandlers s) hid = Some (Some hnd)" "rh_creates hnd" "rh_parse hnd qb = Some q"
  shows "\<exists>s'. proc_msg bo (NMessage (Some \<lparr>rm_id = i, rm_peer = peer, rm_buffer = b\<rparr>)) h s =
      Some (Some \<lparr>sn_id = i, sn_body = RpcResponse OK hid (rh_Handle hnd q), sn_peer = Some peer, sn_has_pool = True\<rparr>, s') \<and>
    rs_hmHandlers s' = rs_hmHandlers s"
proof -
  have av: "b_bAvailable b" using b(1) by (simp add: Valid_def)
  have r: "read_heap h (b_pPos b) (b_pLast b + 1 - b_pPos b) = enc16 hid @ qb"
    using buf_bytes_window [OF av b(2,3), of h] bytes by simp
  then have "b_pLast b + 1 - b_pPos b = 2 + length qb" by (metis length_append length_enc16 length_read_heap)
  with r have "read_heap h (b_pPos b) 2 = enc16 hid" using read_at [of h "b_pPos b" "[]" "enc16 hid" qb] by simp
  then have id: "ByteOrder_ReadUInt16 bo (read_heap h (b_pPos b) 2) = hid" by (simp add: c16.read_enc_nil)
  have "buf_bytes h (MoveHeadBack 2 b) = qb" using MoveHeadBack_drop [OF b] bytes by simp
  then show ?thesis using hnd by (simp add: proc_msg_def Let_def id new_response_def)
qed

text \<open>
  C10: A request that SndMessage::Encode writes on a host of either byte order reaches its handler and is
  answered.  For a registered handler and a message of at most 64 MiB with its handler id, the encoder
  returns a buffer, of the memory it took from the pool, with header and payload; on any host
  DecodeMsgHeader reads magic number, id and payload length from any buffer that starts with the header;
  and proc_msg, given the rest, calls that handler with that message and sends to the peer a response
  with the id of the request and the handler's result, leaving the handlers as they are.
\<close>

theorem request_served:
  assumes pb: "pm_ok pb" "pm_SerializeToArray pb q = Some qb" "2 + length qb \<le> 0x4000000"
    and get: "get (word_of_nat (18 + length qb)) = Some mpo" "mpo \<noteq> 0" and free: "\<forall>b \<in> set free. \<not> b_bOwn b"
    and hnd: "map_of (rs_hmHandlers s) hid = Some (Some hnd)" "rh_creates hnd" "rh_parse hnd qb = Some q"
  shows "\<exists>hdr' buf free' h'.
    SndMessage_Encode bo pb get (RpcRequest hid (Some q)) hdr free h = Some (Inr (hdr', Keep, buf, free', h')) \<and>
    Valid buf \<and> b_pPos buf = mpo \<and> mh_id hdr' = mh_id hdr \<and> unat (mh_len hdr') = 2 + length qb \<and>
    (\<forall>bo\<^sub>2 b\<^sub>2 h\<^sub>2 hdr\<^sub>2 ys. Valid b\<^sub>2 \<and> buf_ok b\<^sub>2 \<and> b_pLast b\<^sub>2 < b_pPos b\<^sub>2 + 2 ^ 31 \<and>
      buf_bytes h\<^sub>2 b\<^sub>2 = take 16 (buf_bytes h' buf) @ ys \<longrightarrow> DecodeMsgHeader bo\<^sub>2 b\<^sub>2 h\<^sub>2 hdr\<^sub>2 = (True, hdr')) \<and>
    (\<forall>bo\<^sub>2 b\<^sub>2 h\<^sub>2 (peer :: 'p). Valid b\<^sub>2 \<and> buf_ok b\<^sub>2 \<and> b_pLast b\<^sub>2 < b_pPos b\<^sub>2 + 2 ^ 31 \<and>
      buf_bytes h\<^sub>2 b\<^sub>2 = drop 16 (buf_bytes h' buf) \<longrightarrow>
      (\<exists>s'. proc_msg bo\<^sub>2 (NMessage (Some \<lparr>rm_id = mh_id hdr', rm_peer = peer, rm_buffer = b\<^sub>2\<rparr>)) h\<^sub>2 s =
        Some (Some \<lparr>sn_id = mh_id hdr, sn_body = RpcResponse OK hid (rh_Handle hnd q), sn_peer = Some peer, sn_has_pool = True\<rparr>, s') \<and>
        rs_hmHandlers s' = rs_hmHandlers s))"
proof -
  let ?bs = "enc16 hid @ qb" and ?hdr = "sent_header (mh_id hdr) (enc16 hid @ qb)"
  have body: "body_bytes pb (RpcRequest hid (Some q)) = Some ?bs" using pb(2) by (simp add: msg_bytes_def)
  have le: "length ?bs \<le> 0x4000000" using pb(3) by simp
  have g: "get (word_of_nat (16 + length ?bs)) = Some mpo" using get(1) by (simp add: add.assoc)
  obtain buf free' h' where enc: "SndMessage_Encode bo pb get (RpcRequest hid (Some q)) hdr free h = Some (Inr (?hdr, Keep, buf, free', h'))"
    and buf: "Valid buf" "b_pPos buf = mpo" "buf_bytes h' buf = header_bytes ?hdr @ ?bs"
    using Encode_wire [where body = "RpcRequest hid (Some q)" and get = get, OF pb(1) body le g get(2) free] by blast
  have hb: "length (header_bytes ?hdr) = 16" by (simp add: header_bytes_def)
  have len: "mh_id ?hdr = mh_id hdr" "unat (mh_len ?hdr) = 2 + length qb"
    using le unat_word_of_nat_u32 [of "2 + length qb"] by (simp_all add: sent_header_def)
  have dec: "DecodeMsgHeader bo\<^sub>2 b\<^sub>2 h\<^sub>2 hdr\<^sub>2 = (True, ?hdr)"
    if "Valid b\<^sub>2" "buf_ok b\<^sub>2" "b_pLast b\<^sub>2 < b_pPos b\<^sub>2 + 2 ^ 31" "buf_bytes h\<^sub>2 b\<^sub>2 = take 16 (buf_bytes h' buf) @ ys" for bo\<^sub>2 b\<^sub>2 h\<^sub>2 hdr\<^sub>2 ys
    using Decode_wire [OF that(1-3) _ le, of h\<^sub>2 "mh_id hdr" ys bo\<^sub>2 hdr\<^sub>2] that(4) buf(3) hb by (simp add: sent_header_def)
  have proc: "\<exists>s'. proc_msg bo\<^sub>2 (NMessage (Some \<lparr>rm_id = mh_id ?hdr, rm_peer = peer, rm_buffer = b\<^sub>2\<rparr>)) h\<^sub>2 s =
        Some (Some \<lparr>sn_id = mh_id hdr, sn_body = RpcResponse OK hid (rh_Handle hnd q), sn_peer = Some peer, sn_has_pool = True\<rparr>, s') \<and>
        rs_hmHandlers s' = rs_hmHandlers s"
    if "Valid b\<^sub>2" "buf_ok b\<^sub>2" "b_pLast b\<^sub>2 < b_pPos b\<^sub>2 + 2 ^ 31" "buf_bytes h\<^sub>2 b\<^sub>2 = drop 16 (buf_bytes h' buf)" for bo\<^sub>2 b\<^sub>2 h\<^sub>2 and peer :: 'p
    unfolding len(1) by (rule proc_msg_answers [OF that(1-3) _ hnd]) (use that(4) buf(3) hb in simp)
  show ?thesis
    by (rule exI [of _ ?hdr], rule exI [of _ buf], rule exI [of _ free'], rule exI [of _ h'])
      (intro conjI enc buf(1,2) len allI impI; elim conjE; (rule dec proc; assumption))
qed

theorem request_served_witness:
  "\<exists>hdr' buf free' h'.
    SndMessage_Encode LITTLE_ENDIAN \<lparr>pm_ByteSize = length, pm_SerializeToArray = Some\<rparr> (\<lambda>_. Some 4096) (RpcRequest 3 (Some [7, 9]))
      \<lparr>mh_magic = 0, mh_id = 5, mh_len = 0\<rparr> [] (\<lambda>_. 0) = Some (Inr (hdr', Keep, buf, free', h')) \<and> b_pPos buf = 4096 \<and> mh_id hdr' = 5"
  using request_served [of "\<lparr>pm_ByteSize = length, pm_SerializeToArray = Some\<rparr>" "[7, 9]" "[7, 9]" "\<lambda>_. Some 4096" 4096 "[]"
      "\<lparr>rs_bStopped = False, rs_bRegistered = True,
        rs_hmHandlers = [(3, Some \<lparr>rh_creates = True, rh_parse = Some, rh_Handle = (\<lambda>r. Some (rev r))\<rparr>)], rs_lastId = 0\<rparr>" 3
      "\<lparr>rh_creates = True, rh_parse = Some, rh_Handle = (\<lambda>r. Some (rev r))\<rparr>" LITTLE_ENDIAN "\<lparr>mh_magic = 0, mh_id = 5, mh_len = 0\<rparr>" "\<lambda>_. 0"]
  by (fastforce simp: pm_ok_def)

subsection \<open>Ids\<close>

lemma GetNewId_unat:
  "unat i < 2 ^ 64 - 1 \<Longrightarrow> unat (GetNewId i) = (if unat i + 1 = 2 ^ 64 - 1 then 1 else unat i + 1)"
proof -
  assume i: "unat i < 2 ^ 64 - 1"
  have u: "unat (i + 1) = unat i + 1" using i by (simp add: unat_word_ariths)
  have "i + 1 = 0xFFFFFFFFFFFFFFFF \<longleftrightarrow> unat i + 1 = 2 ^ 64 - 1" using u by (simp add: word_unat_eq_iff)
  then show ?thesis using u by (simp add: GetNewId_def Let_def)
qed

lemma ids_closed_form: "unat ((GetNewId ^^ Suc k) 0) = k mod (2 ^ 64 - 2) + 1"
proof (induction k)
  case 0
  show ?case by (simp add: GetNewId_def)
next
  case (Suc k)
  have lt: "k mod (2 ^ 64 - 2) < 2 ^ 64 - 2" by simp
  have "unat ((GetNewId ^^ Suc (Suc k)) 0) = unat (GetNewId ((GetNewId ^^ Suc k) 0))" by simp
  also have "\<dots> = (if k mod (2 ^ 64 - 2) + 2 = 2 ^ 64 - 1 then 1 else k mod (2 ^ 64 - 2) + 2)"
    using GetNewId_unat [of "(GetNewId ^^ Suc k) 0"] lt Suc.IH by simp
  also have "\<dots> = Suc k mod (2 ^ 64 - 2) + 1" using lt by (auto simp: mod_Suc)
  finally show ?case .
qed

text \<open>
  C40: Ids of messages.  The id of a message is never 0, which is INVALID_MSG_ID, nor UINT64_MAX; two ids of
  which less than 2 ^ 64 - 2 calls of GetNewId lie apart differ, and after that many calls the id comes back.
\<close>

theorem ids_unique:
  assumes "0 < j" "j < k" "k < j + (2 ^ 64 - 2)"
  shows "(GetNewId ^^ j) 0 \<noteq> (GetNewId ^^ k) 0 \<and> (GetNewId ^^ j) 0 \<noteq> 0 \<and> (GetNewId ^^ j) 0 \<noteq> 0xFFFFFFFFFFFFFFFF \<and>
    (GetNewId ^^ (j + (2 ^ 64 - 2))) 0 = (GetNewId ^^ j) 0"
proof -
  obtain i l where ij: "j = Suc i" "k = Suc l" using assms(1,2) by (cases j; cases k) auto
  define N :: nat where "N = 2 ^ 64 - 2"
  have c: "unat ((GetNewId ^^ Suc m) 0) = m mod N + 1" for m unfolding N_def by (rule ids_closed_form)
  have "i mod N \<noteq> l mod N"
  proof
    assume "i mod N = l mod N"
    then have "N dvd l - i" using assms(2) ij mod_eq_dvd_iff_nat [of i l N] by simp
    then show False using assms ij by (auto simp: N_def dest: dvd_imp_le)
  qed
  then have ne: "(GetNewId ^^ j) 0 \<noteq> (GetNewId ^^ k) 0" using c [of i] c [of l] ij by (metis add_right_imp_eq)
  have nz: "(GetNewId ^^ j) 0 \<noteq> 0" using c [of i] ij by auto
  have "unat ((GetNewId ^^ j) 0) < 2 ^ 64 - 1" using c [of i] ij mod_less_divisor [of N i] by (simp add: N_def)
  then have nm: "(GetNewId ^^ j) 0 \<noteq> 0xFFFFFFFFFFFFFFFF" by auto
  have "unat ((GetNewId ^^ (j + N)) 0) = unat ((GetNewId ^^ j) 0)" using c [of i] c [of "i + N"] ij by simp
  then show ?thesis using ne nz nm unfolding N_def by (simp add: word_unat_eq_iff)
qed

theorem ids_unique_witness:
  "(GetNewId ^^ 1) 0 \<noteq> (GetNewId ^^ 3) 0"
  using ids_unique [of 1 3] by simp

end
