(* ===== verification/Spec2Isabelle.thy ===== *)
theory Spec2Isabelle
  imports WalProps CheckpointProps KvCheckpoint NumText MemPoolProps RlcProps QueueProps RpcProps
begin

text \<open>
  A verification development for flyingkv, a key/value server in C++ (sources under src/src).

  \<^bold>\<open>The program.\<close>  A client sends Put, Get, Delete and Scan requests over TCP.  The RPC server
  (rpc/rpc-server-sync.cc) takes the handler id off the payload and calls the handler, which calls the
  store (kv/mini-kv/mini-kv.cc).  The store keeps a std::map; it appends every Put and Delete to a
  write-ahead log (wal/wals/log-clean-wal.cc) before it changes the map, and once the log has grown it
  saves the map to a checkpoint (checkpoint/checkpoints/entry-order-checkpoint.cc) in a forked child and
  truncates the log.  A start loads the checkpoint and replays the log.  The memory of messages and
  entries comes from a pool (sys/mem-pool.cc) and is passed in buffers (common/buffer.h); threads hand
  work over in a blocking queue (common/blocking-queue.h); admission control (acc) limits the rate of
  requests.

  \<^bold>\<open>Conventions.\<close>  A class is a record with the members of the class, a method a function from the object
  (and what it reads or writes besides: files, memory, the heap, the clock) to its result and the object
  after it.  Machine integers are words of their width; where the source has signed 64-bit arithmetic
  (acc) they are integers and an overflow is undefined.  Pointers are natural numbers, 0 is nullptr.
  Error codes and exceptions are values; undefined behaviour, a fatal log message and a wait that never
  ends are None, or a code Undefined that the source does not have.  Code that is not in the repository
  is a parameter: protobuf (\<open>protobuf\<close> with \<open>pb_ok\<close>, \<open>pbmsg\<close> with \<open>pm_ok\<close>), posix_memalign (\<open>ma\<close> with
  \<open>alloc_ok\<close>), the clock (the list of its readings).

  \<^bold>\<open>Theories.\<close>

  \<^item> Prelude: bytes, words and strings, and the facts on them that all components share.

  \<^item> Codec (utils/codec-utils.cc): both codec classes; the locale \<open>fixed_codec\<close>, interpreted for each width,
    gives round trips and that what one host writes another reads.

  \<^item> FileSys, FileLaws, Touch (utils/io-utils.cc, utils/file-utils.cc): the operating system as a state
    \<open>world\<close> of files, directories, locks and errno with a schedule that decides for every system call
    whether it succeeds, fails, or transfers a part.  A crash is a schedule that fails from some call on.
    FileLaws has the effect of every call on schedules without failures, Touch what a call can change
    on any schedule.  NumText: numbers as text (utils/common-utils.h).

  \<^item> Entry, BatchRead: the interface of entries (common/ientry.h) as the locale \<open>local_entries\<close>, and the
    scheme by which log and checkpoint read files in batches, as the locale \<open>batch_reader\<close>: for every
    batch size the loop computes what parsing the whole file computes.

  \<^item> Wal is the log, method by method.  WalParse, WalLog and WalOps give the invariant \<open>wal_ok\<close> that ties the
    object to the segments on the disk and the effect of each method on it; WalDurable states the
    contract of a durable log (locale \<open>durable_log\<close>) and proves it for LogCleanWal; WalTruncate and
    WalRecover treat truncation and its recovery; WalFrame which files the log touches; WalProps has the
    properties.

  \<^item> Checkpoint is the checkpoint, method by method, with the child of the fork as a run on the same files
    and a copy of the memory.  CheckpointLaws gives the effect on the files, CheckpointLoad the reader,
    CheckpointCrash and CheckpointFrame what a child that dies can have changed; CheckpointProps has
    the properties.

  \<^item> Buffer (common/buffer.h), KvEntries (kv/entries, utils/protobuf-utils.cc): windows on memory, and the
    entries encoded into and decoded from them, with the refinement to functions on byte lists.

  \<^item> StdMap (std::map over a comparator, locale \<open>key_order\<close>), MiniKv (the store, method by method), KvStore
    (the store implements a map: locale \<open>map_service\<close>), KvDurable, KvProps (locale \<open>durable_map\<close>: requests
    and restarts in any order), KvRequests (requests as entries of the log: the segments after them, and what
    replaying a part of them gives) and KvCheckpoint (the background checkpoint and truncation, while other
    threads run requests before Save and between Save and Truncate).

  \<^item> MemPool is the pool; MemPoolLaws, MemPoolClasses, MemPoolInv and MemPoolUse give the invariant of its
    books and its meaning for objects in use; MemPoolProps has the properties.

  \<^item> Limiter (acc, and the accessors of 3rd/cjson/cJSON.c that the configuration uses), LimiterProps (the
    token bucket), RlcProps (the control that asks a list of granters, for granters of any kind, and the
    contract of a granter, locale \<open>igranter\<close>, proved for a token bucket with weights and an initialised
    level, which no constructor of the code sets up).

  \<^item> BlockingQueue and QueueProps: the methods as steps of any number of threads (\<open>bq_step\<close>), with
    notifications that wake any waiting thread and wake-ups without one.

  \<^item> RpcMessage and RpcProps (net/message.cc, net/snd-message.cc, net/rcv-message.cc, rpc/request.cc,
    rpc/response.cc, rpc/rpc-server-sync.cc): messages on the wire and the server's handling of one.

  \<^bold>\<open>What is shown.\<close>  The store is durable: from empty directories, any sequence of requests and restarts
  is answered, and Get returns what the acknowledged requests left; the same for the log and for the
  checkpoint alone, with a crash of the child at any system call before the ok flag, or after it up to
  the renaming of the new meta file.  The background check
  keeps checkpoint and log together equal to the map, with requests of other threads in between, as long
  as none of their entries lies in a segment that Truncate deletes.  Under failing system calls the store is still a
  map that acknowledged requests change and refused ones do not.  Objects of the pool do not overlap and
  lie in live memory, requests are served, the destructor frees every page (requests up to 131072
  bytes).  The queue is FIFO and bounded; without a bound no wake-up is lost.  The token bucket grants
  at most its capacity and what its rate adds; the control grants from all limiters or gives back what it
  took.  A request encoded on one host reaches its handler on another and is
  answered under its id.

  Several theorems state behaviour the code should not have: a Truncate that also deletes newer entries of the
  segment, a checkpoint lost by a crash between the two renames, one committed after a failed encode,
  requests acknowledged between checkpoint and truncation that are lost with their segment, an
  acknowledged Put that is lost when the check before it found no segment to delete, a deleted key with a
  NUL byte that comes back, writers that wait for ever after a failed fork, a flag of a buffer that does
  not follow its pointers, the return of bulk objects in reverse order, the lost wake-up of a bounded
  queue, a refusal before the deadline.

  \<^bold>\<open>Bounds.\<close>  There is no fuel: every loop is a function with a termination proof (over the rest of a
  list, the unread bytes, or the schedule of system calls) and the clock of a waiting request is a finite
  list.  Durability assumes fewer than 2 ^ 64 - 4 entries, so that ids do not wrap, and entries that fit a
  read batch.

  \<^bold>\<open>Not modelled.\<close>  Sockets, epoll and their worker threads, the socket service, timers, thread pool and
  locks: they are I/O and scheduling of the operating system, and the operations they call are modelled
  as steps.  The RPC client, which waits for its answer on them; the server's main program; the JSON
  parser; generated protobuf code; hash functions, random numbers and process queries, which no
  modelled component calls; examples and tests.
\<close>

end
